(* ===== verification/Prelude.thy ===== *)
theory Prelude
  imports "HOL-Library.Word"
begin

text \<open>
  Shared vocabulary of the RingNova development: the widths of the C integer types, byte
  strings, the reading of 32-bit index arithmetic in the natural numbers, and the named
  collections that the component theories extend.

  The kernel is compiled for ARMv7-A with \<open>arm-none-eabi-gcc\<close> and no \<open>-fsigned-char\<close>, so
  \<open>char\<close> is an unsigned byte, and \<open>int\<close>, \<open>long\<close> and pointers have 32 bits.
\<close>

unbundle bit_operations_syntax

section \<open>Machine types\<close>

type_synonym u8 = "8 word"
type_synonym u32 = "32 word"

named_theorems kconst \<open>build-time constants of the kernel\<close>
named_theorems frame \<open>what an operation leaves unchanged\<close>

section \<open>Byte strings\<close>

text \<open>
  A C string is the list of its bytes before the terminating NUL. \<open>bytes\<close> turns a literal
  into that list.
\<close>

definition bytes :: "string \<Rightarrow> u8 list" where
  "bytes s = map of_char s"

lemma bytes_Nil [simp]: "bytes [] = []"
  by (simp add: bytes_def)

lemma bytes_Cons [simp]: "bytes (c # s) = of_char c # bytes s"
  by (simp add: bytes_def)

lemma bytes_append [simp]: "bytes (s @ t) = bytes s @ bytes t"
  by (simp add: bytes_def)

lemma length_bytes [simp]: "length (bytes s) = length s"
  by (simp add: bytes_def)

text \<open>The bytes of the dash that the messages and the shell print (UTF-8).\<close>

definition emdash :: "u8 list" where "emdash = [0xE2, 0x80, 0x94]"

section \<open>Lists\<close>

lemma take_take_append: "take n (take n (xs @ [x]) @ ys) = take n (xs @ x # ys)"
proof (cases "n \<le> length xs")
  case True
  then show ?thesis by simp
next
  case False
  then have "take n (xs @ [x]) = xs @ [x]" by simp
  then show ?thesis by simp
qed

section \<open>Index arithmetic on 32-bit counters\<close>

lemma unat_u32_less: "unat (v :: u32) < 4294967296"
proof -
  have "unat v < 2 ^ LENGTH(32)" by (rule unsigned_less)
  then show ?thesis by simp
qed

text \<open>A loop counter below its bound: the increment does not wrap, and the distance shrinks.\<close>

lemma unat_inc: "(i :: u32) < n \<Longrightarrow> unat (i + 1) = Suc (unat i)"
  using unat_u32_less [of n] by (simp add: word_less_nat_alt unat_word_ariths)

lemma count_up_decreases: "(i :: u32) < n \<Longrightarrow> unat n - unat (i + 1) < unat n - unat i"
  by (simp add: unat_inc) (simp add: word_less_nat_alt)

lemma unat_low_bits: "unat (x AND (2 ^ n - 1) :: u32) = unat x mod 2 ^ n"
proof -
  have "x AND (2 ^ n - 1) = take_bit n x" by (simp only: take_bit_eq_mask mask_eq_decr_exp)
  then have "unat (x AND (2 ^ n - 1)) = take_bit n (unat x)" by (simp only: unsigned_take_bit_eq)
  then show ?thesis by (simp add: take_bit_eq_mod)
qed

lemma unat_mask4: "unat (x AND 15 :: u32) = unat x mod 16"
  using unat_low_bits [of x 4] by simp

lemma unat_mask5: "unat (x AND 0x1F :: u32) = unat x mod 32"
  using unat_low_bits [of x 5] by simp

lemma unat_mask7: "unat (x AND 127 :: u32) = unat x mod 128"
  using unat_low_bits [of x 7] by simp

lemma unat_mask10: "unat (x AND 0x3FF :: u32) = unat x mod 1024"
  using unat_low_bits [of x 10] by simp

lemma mod_pow32_128 [simp]: "(n mod 4294967296) mod (128 :: nat) = n mod 128"
  by (rule mod_mod_cancel) simp

lemma unat_add_of_nat_mod128:
  "unat (t + of_nat i :: u32) mod 128 = (unat t + i) mod 128"
proof -
  have "unat (t + of_nat i) = (unat t + i) mod 4294967296"
    by (simp add: unat_word_ariths unat_of_nat mod_add_right_eq)
  then show ?thesis by simp
qed

lemma word_diff_eq_of_nat: "(h :: u32) = t + of_nat (unat (h - t))"
  by simp

lemma unat_diff_succ:
  assumes "unat (h - t :: u32) < 4294967295"
  shows "unat (h + 1 - t) = Suc (unat (h - t))"
proof -
  have "h + 1 - t = (h - t) + 1" by simp
  then show ?thesis using assms by (simp only:) (simp add: unat_word_ariths)
qed

lemma unat_diff_pred:
  assumes "h \<noteq> (t :: u32)"
  shows "unat (h - (t + 1)) = unat (h - t) - 1"
proof -
  have ne: "h - t \<noteq> 0" using assms by simp
  have "h - (t + 1) = (h - t) - 1" by simp
  with unat_minus_one [OF ne] show ?thesis by (simp only:)
qed

lemma mod128_shift_neq:
  assumes "i < n" "n \<le> (127 :: nat)"
  shows "(t + i) mod 128 \<noteq> (t + n) mod 128"
proof
  assume "(t + i) mod 128 = (t + n) mod 128"
  then have "(n - i) mod 128 = 0"
    using assms(1) mod_eq_dvd_iff_nat [of "t + i" "t + n" 128] by auto
  with assms show False by simp
qed

lemma mod128_full_iff:
  assumes "n \<le> (127 :: nat)"
  shows "(t + Suc n) mod 128 = t mod 128 \<longleftrightarrow> n = 127"
proof
  assume "(t + Suc n) mod 128 = t mod 128"
  then have "128 dvd Suc n"
    using mod_eq_dvd_iff_nat [of t "t + Suc n" 128] by auto
  then have "128 \<le> Suc n" by (rule dvd_imp_le) simp
  with assms show "n = 127" by simp
next
  assume "n = 127"
  then show "(t + Suc n) mod 128 = t mod 128" by simp
qed

end
