(* ===== verification/Rx_Ring.thy ===== *)
theory Rx_Ring
  imports Prelude
begin

text \<open>
  The UART receive ring of \<open>kernel/drivers/uart/uart_core.c\<close>: 128 slots between the RX
  interrupt (producer) and \<open>sys_read\<close> (consumer). \<open>rx_head\<close> and \<open>rx_tail\<close> are 32-bit
  counters that run freely and wrap; only their low seven bits index the buffer.

  The interface the rest of the kernel relies on is the locale \<open>byte_fifo\<close>: a queue of
  bounded capacity that drops what does not fit. The ring is shown to implement it, also
  across the wrap-around of the counters, and the client lemmas about a burst of bytes and
  about draining the queue are proved once in the locale.
\<close>

section \<open>The ring\<close>

record rx_ring =
  rx_buf :: "u8 list"
  rx_head :: u32
  rx_tail :: u32

definition UART_RX_BUF_SIZE :: u32 where
  "UART_RX_BUF_SIZE = 128"

definition UART_RX_MASK :: u32 where
  "UART_RX_MASK = UART_RX_BUF_SIZE - 1"

text \<open>The static initial value: a zeroed buffer and two zero counters (.bss).\<close>

definition rx_ring_init :: rx_ring where
  "rx_ring_init = \<lparr>rx_buf = replicate 128 0, rx_head = 0, rx_tail = 0\<rparr>"

definition uart_rx_push :: "u8 \<Rightarrow> rx_ring \<Rightarrow> rx_ring" where
  "uart_rx_push c r =
     (let nxt = rx_head r + 1 in
      if (nxt AND UART_RX_MASK) \<noteq> (rx_tail r AND UART_RX_MASK)
      then r\<lparr>rx_buf := (rx_buf r)[unat (rx_head r AND UART_RX_MASK) := c],
             rx_head := nxt\<rparr>
      else r)"

definition uart_rx_empty :: "rx_ring \<Rightarrow> bool" where
  "uart_rx_empty r \<longleftrightarrow> rx_head r = rx_tail r"

text \<open>The C function returns an \<open>int\<close>: the byte, or -1 when the ring is empty.\<close>

definition uart_rx_pop :: "rx_ring \<Rightarrow> int \<times> rx_ring" where
  "uart_rx_pop r =
     (if rx_head r = rx_tail r then (-1, r)
      else (uint (rx_buf r ! unat (rx_tail r AND UART_RX_MASK)),
            r\<lparr>rx_tail := rx_tail r + 1\<rparr>))"

section \<open>Invariant and abstraction\<close>

definition ring_used :: "rx_ring \<Rightarrow> nat" where
  "ring_used r = unat (rx_head r - rx_tail r)"

definition ring_inv :: "rx_ring \<Rightarrow> bool" where
  "ring_inv r \<longleftrightarrow> length (rx_buf r) = 128 \<and> ring_used r \<le> 127"

text \<open>The bytes waiting in the ring, oldest first.\<close>

definition ring_list :: "rx_ring \<Rightarrow> u8 list" where
  "ring_list r = map (\<lambda>i. rx_buf r ! ((unat (rx_tail r) + i) mod 128)) [0..<ring_used r]"

lemma length_ring_list [simp]: "length (ring_list r) = ring_used r"
  by (simp add: ring_list_def)

lemma rx_mask [kconst]: "UART_RX_MASK = 127"
  by (simp add: UART_RX_MASK_def UART_RX_BUF_SIZE_def)

lemma ring_used_0_iff: "ring_used r = 0 \<longleftrightarrow> rx_head r = rx_tail r"
  by (simp add: ring_used_def unat_eq_0)

lemma head_slot: "unat (rx_head r AND UART_RX_MASK) = (unat (rx_tail r) + ring_used r) mod 128"
  using unat_add_of_nat_mod128 [of "rx_tail r" "ring_used r"]
  by (simp add: rx_mask unat_mask7 ring_used_def)

lemma tail_slot: "unat (rx_tail r AND UART_RX_MASK) = unat (rx_tail r) mod 128"
  by (simp add: rx_mask unat_mask7)

lemma full_test:
  assumes "ring_inv r"
  shows "((rx_head r + 1) AND UART_RX_MASK) = (rx_tail r AND UART_RX_MASK) \<longleftrightarrow> ring_used r = 127"
proof -
  have "rx_head r + 1 = rx_tail r + of_nat (Suc (ring_used r))"
    by (simp add: ring_used_def)
  then have "unat ((rx_head r + 1) AND UART_RX_MASK) = (unat (rx_tail r) + Suc (ring_used r)) mod 128"
    by (simp only: rx_mask unat_mask7 unat_add_of_nat_mod128)
  then show ?thesis
    using assms mod128_full_iff [of "ring_used r" "unat (rx_tail r)"]
    by (simp add: ring_inv_def tail_slot word_unat_eq_iff)
qed

lemma push_full: "ring_inv r \<Longrightarrow> ring_used r = 127 \<Longrightarrow> uart_rx_push c r = r"
  by (simp add: uart_rx_push_def full_test)

lemma push_used:
  assumes "ring_inv r" "ring_used r < 127"
  shows "ring_used (uart_rx_push c r) = Suc (ring_used r)"
  using assms unat_diff_succ [of "rx_head r" "rx_tail r"]
  by (simp add: uart_rx_push_def full_test) (simp add: ring_used_def)

lemma push_list:
  assumes "ring_inv r" "ring_used r < 127"
  shows "ring_list (uart_rx_push c r) = ring_list r @ [c]"
proof (rule nth_equalityI)
  show "length (ring_list (uart_rx_push c r)) = length (ring_list r @ [c])"
    using push_used [OF assms] by simp
next
  fix i assume "i < length (ring_list (uart_rx_push c r))"
  then have i: "i < Suc (ring_used r)" using push_used [OF assms] by simp
  have len: "length (rx_buf r) = 128" using assms(1) by (simp add: ring_inv_def)
  have push: "uart_rx_push c r =
      r\<lparr>rx_buf := (rx_buf r)[(unat (rx_tail r) + ring_used r) mod 128 := c], rx_head := rx_head r + 1\<rparr>"
    using assms by (simp add: uart_rx_push_def full_test head_slot)
  have "ring_list (uart_rx_push c r) ! i =
      (rx_buf r)[(unat (rx_tail r) + ring_used r) mod 128 := c] ! ((unat (rx_tail r) + i) mod 128)"
    using i unfolding ring_list_def push_used [OF assms] by (simp add: push del: upt_Suc)
  also have "\<dots> = (ring_list r @ [c]) ! i"
  proof (cases "i = ring_used r")
    case True
    then show ?thesis by (simp add: nth_append len)
  next
    case False
    with i have lt: "i < ring_used r" by simp
    then have "(unat (rx_tail r) + ring_used r) mod 128 \<noteq> (unat (rx_tail r) + i) mod 128"
      using assms mod128_shift_neq [of i "ring_used r" "unat (rx_tail r)"] by simp
    then show ?thesis using lt by (simp add: nth_append ring_list_def)
  qed
  finally show "ring_list (uart_rx_push c r) ! i = (ring_list r @ [c]) ! i" .
qed

lemma push_inv: "ring_inv r \<Longrightarrow> ring_inv (uart_rx_push c r)"
  using push_used [of r c] push_full [of r c]
  by (cases "ring_used r = 127") (auto simp: ring_inv_def uart_rx_push_def Let_def)

lemma pop_used: "rx_head r \<noteq> rx_tail r \<Longrightarrow> ring_used (snd (uart_rx_pop r)) = ring_used r - 1"
  by (simp add: uart_rx_pop_def ring_used_def unat_diff_pred)

lemma pop_inv: "ring_inv r \<Longrightarrow> ring_inv (snd (uart_rx_pop r))"
  using pop_used [of r]
  by (cases "rx_head r = rx_tail r") (auto simp: ring_inv_def uart_rx_pop_def)

lemma ring_list_Nil_iff [simp]: "ring_list r = [] \<longleftrightarrow> rx_head r = rx_tail r"
  by (metis length_0_conv length_ring_list ring_used_0_iff)

lemma pop_list:
  assumes "ring_list r = c # cs"
  shows "fst (uart_rx_pop r) = uint c" and "ring_list (snd (uart_rx_pop r)) = cs"
proof -
  have ne: "rx_head r \<noteq> rx_tail r" using assms by (metis list.discI ring_list_Nil_iff)
  then obtain m where m: "ring_used r = Suc m"
    by (metis not0_implies_Suc ring_used_0_iff)
  have split: "ring_list r = rx_buf r ! (unat (rx_tail r) mod 128)
      # map (\<lambda>i. rx_buf r ! ((unat (rx_tail r) + Suc i) mod 128)) [0..<m]"
    unfolding ring_list_def m by (simp add: upt_conv_Cons map_Suc_upt [symmetric] del: upt_Suc)
  show "fst (uart_rx_pop r) = uint c"
    using ne split assms by (simp add: uart_rx_pop_def tail_slot)
  have tl: "(unat (rx_tail r + 1) + i) mod 128 = (unat (rx_tail r) + Suc i) mod 128" for i
    using unat_add_of_nat_mod128 [of "rx_tail r" 1]
      mod_add_left_eq [of "unat (rx_tail r + 1)" 128 i] mod_add_left_eq [of "unat (rx_tail r) + 1" 128 i]
    by simp
  have "ring_list (snd (uart_rx_pop r)) =
      map (\<lambda>i. rx_buf r ! ((unat (rx_tail r) + Suc i) mod 128)) [0..<m]"
    using ne m pop_used [OF ne] tl by (simp add: ring_list_def) (simp add: uart_rx_pop_def)
  then show "ring_list (snd (uart_rx_pop r)) = cs" using split assms by simp
qed

section \<open>The interface: a bounded queue of bytes\<close>

locale byte_fifo =
  fixes push :: "u8 \<Rightarrow> 'q \<Rightarrow> 'q"
    and pop :: "'q \<Rightarrow> int \<times> 'q"
    and is_empty :: "'q \<Rightarrow> bool"
    and content :: "'q \<Rightarrow> u8 list"
    and invar :: "'q \<Rightarrow> bool"
    and cap :: nat
  assumes push_room: "invar q \<Longrightarrow> length (content q) < cap \<Longrightarrow> content (push c q) = content q @ [c]"
    and push_drop: "invar q \<Longrightarrow> length (content q) = cap \<Longrightarrow> push c q = q"
    and pop_none: "invar q \<Longrightarrow> content q = [] \<Longrightarrow> pop q = (-1, q)"
    and pop_some: "invar q \<Longrightarrow> content q = c # cs \<Longrightarrow>
      fst (pop q) = uint c \<and> content (snd (pop q)) = cs"
    and is_empty_iff: "invar q \<Longrightarrow> is_empty q \<longleftrightarrow> content q = []"
    and bound: "invar q \<Longrightarrow> length (content q) \<le> cap"
    and invar_push: "invar q \<Longrightarrow> invar (push c q)"
    and invar_pop: "invar q \<Longrightarrow> invar (snd (pop q))"
begin

lemma push_content: "invar q \<Longrightarrow> content (push c q) = take cap (content q @ [c])"
  using push_room [of q c] push_drop [of q c] bound [of q]
  by (cases "length (content q) = cap") auto

text \<open>A burst of bytes from the device: what fits is kept, in order.\<close>

lemma invar_pushes: "invar q \<Longrightarrow> invar (fold push bs q)"
  by (induction bs arbitrary: q) (auto intro: invar_push)

lemma pushes_content: "invar q \<Longrightarrow> content (fold push bs q) = take cap (content q @ bs)"
proof (induction bs arbitrary: q)
  case Nil
  then show ?case using bound [of q] by simp
next
  case (Cons b bs)
  then have "content (fold push (b # bs) q) = take cap (take cap (content q @ [b]) @ bs)"
    using push_content [of q b] invar_push [of q b] by simp
  then show ?case by (simp only: take_take_append)
qed

lemma pop_sign: "invar q \<Longrightarrow> fst (pop q) < 0 \<longleftrightarrow> content q = []"
  using pop_none [of q] pop_some [of q] by (cases "content q") auto

lemma pop_content: "invar q \<Longrightarrow> content (snd (pop q)) = tl (content q)"
  using pop_none [of q] pop_some [of q] by (cases "content q") auto

end

interpretation rx: byte_fifo uart_rx_push uart_rx_pop uart_rx_empty ring_list ring_inv 127
proof unfold_locales
  fix q :: rx_ring and c cs
  assume inv: "ring_inv q"
  show "length (ring_list q) < 127 \<Longrightarrow> ring_list (uart_rx_push c q) = ring_list q @ [c]"
    using inv push_list by simp
  show "length (ring_list q) = 127 \<Longrightarrow> uart_rx_push c q = q"
    using inv push_full by simp
  show "ring_list q = [] \<Longrightarrow> uart_rx_pop q = (-1, q)"
    by (simp add: uart_rx_pop_def)
  show "ring_list q = c # cs \<Longrightarrow>
      fst (uart_rx_pop q) = uint c \<and> ring_list (snd (uart_rx_pop q)) = cs"
    using pop_list by simp
  show "uart_rx_empty q \<longleftrightarrow> ring_list q = []" by (simp add: uart_rx_empty_def)
  show "length (ring_list q) \<le> 127" using inv by (simp add: ring_inv_def)
  show "ring_inv (uart_rx_push c q)" using inv by (rule push_inv)
  show "ring_inv (snd (uart_rx_pop q))" using inv by (rule pop_inv)
qed

lemma ring_inv_init [simp]: "ring_inv rx_ring_init"
  by (simp add: ring_inv_def rx_ring_init_def ring_used_def)

lemma ring_list_init [simp]: "ring_list rx_ring_init = []"
  by (simp add: rx_ring_init_def)

section \<open>Properties\<close>

text \<open>C27: The receive ring is a FIFO of 127 bytes. A burst of bytes from the interrupt handler is
  appended in order and cut at the capacity (the newest bytes are dropped, never the oldest),
  wherever the free-running 32-bit counters stand, their wrap-around included. \<open>uart_rx_pop\<close> takes the
  oldest byte, as a number from 0 to 255, and leaves the others in order; on an empty ring it returns -1 and
  changes nothing.\<close>

theorem ring_fifo:
  assumes "ring_inv r"
  shows "ring_inv (fold uart_rx_push bs r) \<and>
    ring_list (fold uart_rx_push bs r) = take 127 (ring_list r @ bs) \<and>
    (uart_rx_empty (fold uart_rx_push bs r) \<longleftrightarrow> ring_list r = [] \<and> bs = []) \<and>
    (case ring_list r of
       [] \<Rightarrow> uart_rx_pop r = (- 1, r)
     | c # cs \<Rightarrow> fst (uart_rx_pop r) = uint c \<and> ring_list (snd (uart_rx_pop r)) = cs \<and>
         ring_inv (snd (uart_rx_pop r)))"
proof -
  have "case ring_list r of [] \<Rightarrow> uart_rx_pop r = (- 1, r)
    | c # cs \<Rightarrow> fst (uart_rx_pop r) = uint c \<and> ring_list (snd (uart_rx_pop r)) = cs \<and> ring_inv (snd (uart_rx_pop r))"
    using rx.pop_none [OF assms] rx.pop_some [OF assms] rx.invar_pop [OF assms]
    by (auto split: list.split)
  then show ?thesis
    using rx.invar_pushes [OF assms, of bs] rx.pushes_content [OF assms, of bs]
      rx.is_empty_iff [OF rx.invar_pushes [OF assms, of bs]] ring_used_0_iff [of r] by auto
qed

theorem ring_fifo_witness:
  "ring_list (fold uart_rx_push [1, 2, 3] \<lparr>rx_buf = replicate 128 0, rx_head = 0xFFFFFFFF, rx_tail = 0xFFFFFFFF\<rparr>)
     = [1, 2, 3] \<and> fst (uart_rx_pop (fold uart_rx_push [0xC3, 7] rx_ring_init)) = 0xC3"
proof -
  have "ring_inv \<lparr>rx_buf = replicate 128 0, rx_head = 0xFFFFFFFF, rx_tail = 0xFFFFFFFF\<rparr>"
    by (simp add: ring_inv_def ring_used_def)
  from ring_fifo [OF this, of "[1, 2, 3]"]
  have "ring_list (fold uart_rx_push [1, 2, 3] \<lparr>rx_buf = replicate 128 0, rx_head = 0xFFFFFFFF, rx_tail = 0xFFFFFFFF\<rparr>) = [1, 2, 3]"
    by (simp add: ring_list_def ring_used_def)
  moreover have inv: "ring_inv (fold uart_rx_push [0xC3, 7] rx_ring_init)"
    by (rule rx.invar_pushes [OF ring_inv_init])
  have "ring_list (fold uart_rx_push [0xC3, 7] rx_ring_init) = [0xC3, 7]"
    using rx.pushes_content [OF ring_inv_init, of "[0xC3, 7]"] by (simp del: fold_simps)
  with ring_fifo [OF inv, of "[]"] have "fst (uart_rx_pop (fold uart_rx_push [0xC3, 7] rx_ring_init)) = 0xC3"
    by (simp del: fold_simps)
  ultimately show ?thesis by blast
qed

end
