(* ===== verification/Console.thy ===== *)
theory Console
  imports Prelude
begin

text \<open>
  The formatting half of \<open>kernel/drivers/uart/uart_core.c\<close>: \<open>uart_putc\<close>, \<open>uart_puts\<close>,
  \<open>uart_print_hex\<close>, \<open>uart_print_dec\<close>, \<open>uart_print_int\<close> and \<open>uart_printf\<close>. Each function
  is modelled by the bytes it hands to \<open>console->ops->putc\<close>, in order. The variable
  arguments of \<open>uart_printf\<close> are a list of tagged values; \<open>None\<close> is a run that leaves
  defined C behaviour (a conversion without a matching argument, a digit buffer written past
  its end, a format string read past its terminator).

  Decimal and hexadecimal output are related to the number they show by reading the digits
  back; the ten-byte digit buffer is shown to be large enough for every 32-bit value.
\<close>

section \<open>Characters and strings\<close>

definition uart_putc :: "u8 \<Rightarrow> u8 list" where
  "uart_putc c = (if c = 10 then [13] else []) @ [c]"

fun uart_puts :: "u8 list \<Rightarrow> u8 list" where
  "uart_puts [] = []"
| "uart_puts (c # s) = uart_putc c @ uart_puts s"

lemma uart_putc_plain [simp]: "c \<noteq> 10 \<Longrightarrow> uart_putc c = [c]"
  by (simp add: uart_putc_def)

lemma uart_putc_newline [simp]: "uart_putc 10 = [13, 10]"
  by (simp add: uart_putc_def)

lemma uart_puts_append: "uart_puts (s @ t) = uart_puts s @ uart_puts t"
  by (induction s) auto

lemma uart_puts_plain: "10 \<notin> set s \<Longrightarrow> uart_puts s = s"
  by (induction s) auto

section \<open>Decimal\<close>

text \<open>
  \<open>while (val > 0) { buf[i++] = '0' + (val % 10); val /= 10; }\<close> over a buffer of fixed
  size; the loop is shared by the kernel (\<open>char buf[10]\<close>) and by the user library
  (\<open>char buf[11]\<close>), which use the same code.
\<close>

function dec_fill :: "u32 \<Rightarrow> u8 list \<Rightarrow> nat \<Rightarrow> (u8 list \<times> nat) option" where
  "dec_fill v buf i =
     (if v > 0 then
        (if i < length buf
         then dec_fill (v div 10) (buf[i := 48 + ucast (v mod 10)]) (Suc i)
         else None)
      else Some (buf, i))"
  by pat_completeness auto
termination
proof (relation "measure (\<lambda>(v, buf, i). unat v)")
  show "wf (measure (\<lambda>(v :: u32, buf :: u8 list, i :: nat). unat v))" by simp
next
  fix v :: u32 and buf :: "u8 list" and i :: nat
  assume "0 < v"
  then have "0 < unat v" by (simp add: word_less_nat_alt)
  then show "((v div 10, buf[i := 48 + ucast (v mod 10)], Suc i), v, buf, i)
      \<in> measure (\<lambda>(v, buf, i). unat v)"
    by (simp add: unat_div)
qed

declare dec_fill.simps [simp del]

text \<open>\<open>while (--i >= 0) putc(buf[i]);\<close>\<close>

fun dec_emit :: "(u8 \<Rightarrow> 'o list) \<Rightarrow> u8 list \<Rightarrow> nat \<Rightarrow> 'o list" where
  "dec_emit out buf 0 = []"
| "dec_emit out buf (Suc i) = out (buf ! i) @ dec_emit out buf i"

definition uart_print_dec :: "u32 \<Rightarrow> u8 list option" where
  "uart_print_dec val =
     (if val = 0 then Some (uart_putc 48)
      else map_option (\<lambda>(buf, i). dec_emit uart_putc buf i) (dec_fill val (replicate 10 0) 0))"

definition uart_print_int :: "u32 \<Rightarrow> u8 list option" where
  "uart_print_int val =
     (if sint val < 0
      then map_option (\<lambda>o'. uart_putc 45 @ o')
             (uart_print_dec (word_of_int (- (sint val + 1)) + 1))
      else uart_print_dec val)"

text \<open>The reference: the decimal digits of a number, most significant first.\<close>

fun dec_digits :: "nat \<Rightarrow> u8 list" where
  "dec_digits n = (if n < 10 then [48 + of_nat n] else dec_digits (n div 10) @ [48 + of_nat (n mod 10)])"

declare dec_digits.simps [simp del]

text \<open>Reading a digit string back.\<close>

definition dec_value :: "u8 list \<Rightarrow> nat" where
  "dec_value ds = foldl (\<lambda>a d. a * 10 + unat (d - 48)) 0 ds"

lemma dec_value_snoc: "dec_value (ds @ [d]) = dec_value ds * 10 + unat (d - 48)"
  by (simp add: dec_value_def)

lemma unat_of_nat_small: "n < 256 \<Longrightarrow> unat (of_nat n :: u8) = n"
  by (simp add: unat_of_nat)

lemma dec_value_digits: "dec_value (dec_digits n) = n"
proof (induction n rule: dec_digits.induct)
  case (1 n)
  show ?case
  proof (cases "n < 10")
    case True
    then show ?thesis by (simp add: dec_digits.simps [of n] dec_value_def unat_of_nat_small)
  next
    case False
    have "n mod 10 < 10" by simp
    then have m: "n mod 10 < 256" by linarith
    from False have "dec_value (dec_digits n) = n div 10 * 10 + unat (of_nat (n mod 10) :: u8)"
      using "1" by (simp add: dec_digits.simps [of n] dec_value_snoc)
    then show ?thesis using m by (simp add: unat_of_nat_small)
  qed
qed

lemma dec_digits_no_newline: "10 \<notin> set (dec_digits n)"
proof (induction n rule: dec_digits.induct)
  case (1 n)
  have dig: "48 + of_nat m \<noteq> (10 :: u8)" if "m < 10" for m
  proof
    assume "48 + of_nat m = (10 :: u8)"
    from arg_cong [where f = unat, OF this] show False using that by (simp add: unat_word_ariths unat_of_nat)
  qed
  show ?case
  proof (cases "n < 10")
    case True
    then show ?thesis using dig [of n] by (simp add: dec_digits.simps [of n])
  next
    case False
    then show ?thesis using "1" dig [of "n mod 10"] by (simp add: dec_digits.simps [of n])
  qed
qed

lemma length_dec_digits: "n < 10 ^ Suc k \<Longrightarrow> length (dec_digits n) \<le> Suc k"
proof (induction k arbitrary: n)
  case 0
  then show ?case by (simp add: dec_digits.simps)
next
  case (Suc k)
  then have "n div 10 < 10 ^ Suc k" by (simp add: less_mult_imp_div_less)
  from Suc.IH [OF this] show ?case by (subst dec_digits.simps) simp
qed

lemma dec_emit_upd: "i \<le> j \<Longrightarrow> dec_emit out (buf[j := d]) i = dec_emit out buf i"
  by (induction i) auto

lemma digit_of_word: "48 + ucast (v mod 10 :: u32) = (48 + of_nat (unat v mod 10) :: u8)"
proof -
  have "ucast (v mod 10) = (of_nat (unat (v mod 10)) :: u8)" by (simp add: of_nat_unat)
  then show ?thesis by (simp add: unat_mod)
qed

text \<open>
  The loop, started at position \<open>i\<close>, leaves a buffer whose backwards emission is the digit
  string followed by what stood below \<open>i\<close>; it stays inside the buffer as long as the digits
  fit.
\<close>

lemma dec_fill_digits:
  assumes "v > 0" "i + length (dec_digits (unat v)) \<le> length buf"
  shows "\<exists>buf'. dec_fill v buf i = Some (buf', i + length (dec_digits (unat v))) \<and>
    dec_emit out buf' (i + length (dec_digits (unat v))) =
      concat (map out (dec_digits (unat v))) @ dec_emit out buf i"
  using assms
proof (induction v buf i rule: dec_fill.induct)
  case (1 v buf i)
  let ?d = "48 + ucast (v mod 10) :: u8" and ?n = "unat v"
  have pos: "1 \<le> length (dec_digits ?n)" by (subst dec_digits.simps) simp
  have i: "i < length buf" using "1.prems"(2) pos by linarith
  have step: "dec_fill v buf i = dec_fill (v div 10) (buf[i := ?d]) (Suc i)"
    using "1.prems"(1) i by (subst dec_fill.simps) simp
  show ?case
  proof (cases "?n < 10")
    case True
    then have "v div 10 = 0" by (simp add: word_unat_eq_iff unat_div)
    with True i step show ?thesis
      by (simp add: dec_fill.simps [of 0] dec_digits.simps [of ?n] dec_emit_upd digit_of_word)
  next
    case False
    have dig: "dec_digits ?n = dec_digits (unat (v div 10)) @ [?d]"
      using False by (subst dec_digits.simps) (simp add: unat_div digit_of_word)
    have "v div 10 > 0" using False by (simp add: word_less_nat_alt unat_div div_greater_zero_iff)
    then obtain buf' where
      "dec_fill (v div 10) (buf[i := ?d]) (Suc i) =
        Some (buf', Suc i + length (dec_digits (unat (v div 10))))"
      "dec_emit out buf' (Suc i + length (dec_digits (unat (v div 10)))) =
        concat (map out (dec_digits (unat (v div 10)))) @ dec_emit out (buf[i := ?d]) (Suc i)"
      using "1.IH" [OF "1.prems"(1) i] "1.prems"(2) dig by auto
    with step i dig show ?thesis by (auto simp: dec_emit_upd)
  qed
qed

lemma dec_digits_u32_bound: "length (dec_digits (unat (v :: u32))) \<le> 10"
proof -
  have "unat v < 10 ^ Suc 9" using unat_u32_less [of v] by simp
  from length_dec_digits [OF this] show ?thesis by simp
qed

lemma concat_putc_plain: "10 \<notin> set ds \<Longrightarrow> concat (map uart_putc ds) = ds"
  by (induction ds) auto

lemma uart_print_dec_eq: "uart_print_dec v = Some (dec_digits (unat v))"
proof (cases "v = 0")
  case True
  then show ?thesis by (simp add: uart_print_dec_def dec_digits.simps)
next
  case False
  then have "v > 0" by (simp add: word_gt_0)
  from dec_fill_digits [OF this, of 0 "replicate 10 0" uart_putc]
  obtain buf' where "dec_fill v (replicate 10 0) 0 = Some (buf', length (dec_digits (unat v)))"
    and "dec_emit uart_putc buf' (length (dec_digits (unat v))) = dec_digits (unat v)"
    using dec_digits_u32_bound [of v] by (auto simp: concat_putc_plain dec_digits_no_newline)
  with False show ?thesis by (simp add: uart_print_dec_def)
qed

section \<open>Hexadecimal\<close>

definition hex_lower :: "u8 list" where
  "hex_lower = bytes ''0123456789abcdef''"

definition hex_upper :: "u8 list" where
  "hex_upper = bytes ''0123456789ABCDEF''"

text \<open>\<open>for (i = ...; i >= 0; i -= 4) uart_putc(digits[(val >> i) & 0xFU]);\<close>\<close>

function hex_loop :: "u8 list \<Rightarrow> u32 \<Rightarrow> int \<Rightarrow> u8 list" where
  "hex_loop digits val i =
     (if i \<ge> 0 then uart_putc (digits ! unat (drop_bit (nat i) val AND 15)) @ hex_loop digits val (i - 4)
      else [])"
  by pat_completeness auto
termination
  by (relation "measure (\<lambda>(digits, val, i). nat (i + 4))") auto

declare hex_loop.simps [simp del]

definition uart_print_hex :: "u32 \<Rightarrow> u8 list" where
  "uart_print_hex val = uart_puts (bytes ''0x'') @ hex_loop hex_upper val 28"

text \<open>The search of \<open>%x\<close> for the first nibble to print.\<close>

function hex_start :: "u32 \<Rightarrow> int \<Rightarrow> int" where
  "hex_start uval i =
     (if i \<ge> 0 then
        (if drop_bit (nat i) uval AND 15 \<noteq> 0 \<or> i = 0 then i else hex_start uval (i - 4))
      else i)"
  by pat_completeness auto
termination
  by (relation "measure (\<lambda>(uval, i). nat (i + 4))") auto

declare hex_start.simps [simp del]

text \<open>Reading a hexadecimal string back.\<close>

definition nib_value :: "u8 \<Rightarrow> nat" where
  "nib_value c = (if c \<ge> 97 then unat (c - 87) else if c \<ge> 65 then unat (c - 55) else unat (c - 48))"

definition hex_value :: "u8 list \<Rightarrow> nat" where
  "hex_value cs = foldl (\<lambda>a c. a * 16 + nib_value c) 0 cs"

lemma hex_value_foldl:
  "foldl (\<lambda>a c. a * 16 + nib_value c) a cs = a * 16 ^ length cs + hex_value cs"
proof (induction cs arbitrary: a)
  case Nil
  show ?case by (simp add: hex_value_def)
next
  case (Cons c cs)
  show ?case
    using Cons [of "a * 16 + nib_value c"] Cons [of "nib_value c"]
    by (simp add: hex_value_def algebra_simps)
qed

lemma hex_value_Cons: "hex_value (c # cs) = nib_value c * 16 ^ length cs + hex_value cs"
  using hex_value_foldl [of "nib_value c" cs] by (simp add: hex_value_def)

lemma less_16_cases:
  "(n :: nat) < 16 \<Longrightarrow> n \<in> {0, 1, 2, 3, 4, 5, 6, 7, 8, 9, 10, 11, 12, 13, 14, 15}"
  by (simp only: insert_iff empty_iff) arith

definition hex_digits :: "u8 list \<Rightarrow> bool" where
  "hex_digits ds \<longleftrightarrow> (\<forall>n < 16. nib_value (ds ! n) = n \<and> ds ! n \<noteq> 10)"

lemma hex_digits_tables: "hex_digits hex_lower" "hex_digits hex_upper"
  by (auto simp: hex_digits_def hex_lower_def hex_upper_def nib_value_def dest!: less_16_cases)

lemma nibble_unat: "unat (drop_bit n v AND 15 :: u32) = unat v div 2 ^ n mod 16"
proof -
  have "take_bit 32 (unat v) = unat v" using unat_u32_less [of v] by (simp add: take_bit_eq_mod)
  then show ?thesis by (simp add: unat_mask4 unsigned_drop_bit_eq) (simp add: drop_bit_eq_div)
qed

lemma nibble_at: "unat (drop_bit (nat (4 * int k)) v AND 15 :: u32) = unat v div 16 ^ k mod 16"
proof -
  have "(2 :: nat) ^ nat (4 * int k) = 16 ^ k" by (simp add: nat_mult_distrib power_mult)
  then show ?thesis by (simp only: nibble_unat)
qed

lemma hex_loop_step:
  assumes "hex_digits ds"
  shows "hex_loop ds v (4 * int k) = ds ! (unat v div 16 ^ k mod 16) # hex_loop ds v (4 * (int k - 1))"
proof -
  have "ds ! (unat v div 16 ^ k mod 16) \<noteq> 10" using assms by (simp add: hex_digits_def)
  then show ?thesis
    using nibble_at [of k v] by (subst hex_loop.simps) (simp add: right_diff_distrib)
qed

lemma hex_loop_value:
  assumes "hex_digits ds"
  shows "length (hex_loop ds v (4 * int k)) = Suc k \<and>
    hex_value (hex_loop ds v (4 * int k)) = unat v mod 16 ^ Suc k"
proof (induction k)
  case 0
  show ?case
    using hex_loop_step [OF assms, of v 0] assms
    by (simp add: hex_loop.simps [of _ _ "-4"] hex_value_def hex_digits_def)
next
  case (Suc k)
  let ?q = "unat v div 16 ^ Suc k mod 16"
  have q: "nib_value (ds ! ?q) = ?q" using assms by (simp add: hex_digits_def)
  have "hex_loop ds v (4 * int (Suc k)) = ds ! ?q # hex_loop ds v (4 * int k)"
    using hex_loop_step [OF assms, of v "Suc k"] by simp
  moreover have "?q * 16 ^ Suc k + unat v mod 16 ^ Suc k = unat v mod 16 ^ Suc (Suc k)"
    using mod_mult2_eq [of "unat v" "16 ^ Suc k" 16] by (simp add: mult.commute)
  ultimately show ?case using Suc q by (simp add: hex_value_Cons del: power_Suc)
qed

text \<open>The first nibble that \<open>%x\<close> prints: everything above it is zero.\<close>

lemma hex_start_value:
  "\<exists>j \<le> k. hex_start v (4 * int k) = 4 * int j \<and> unat v mod 16 ^ Suc k = unat v mod 16 ^ Suc j \<and>
     (j = 0 \<or> 16 ^ j \<le> unat v)"
proof (induction k)
  case 0
  have "hex_start v 0 = 0" by (subst hex_start.simps) simp
  then show ?case by simp
next
  case (Suc k)
  let ?q = "unat v div 16 ^ Suc k mod 16"
  have nib: "drop_bit (nat (4 * int (Suc k))) v AND 15 \<noteq> 0 \<longleftrightarrow> ?q \<noteq> 0"
    using nibble_at [of "Suc k" v] by (metis unat_eq_zero)
  show ?case
  proof (cases "?q = 0")
    case True
    have eq: "hex_start v (4 * int (Suc k)) = hex_start v (4 * int k)"
      using nib True by (subst hex_start.simps) simp
    have "unat v mod 16 ^ Suc (Suc k) = unat v mod 16 ^ Suc k"
      using mod_mult2_eq [of "unat v" "16 ^ Suc k" 16] True by (simp add: mult.commute)
    with Suc eq show ?thesis by (metis le_SucI)
  next
    case False
    have "hex_start v (4 * int (Suc k)) = 4 * int (Suc k)"
      using nib False by (subst hex_start.simps) simp
    moreover have "16 ^ Suc k \<le> unat v"
      using False by (metis div_less mod_0 not_less)
    ultimately show ?thesis by blast
  qed
qed

section \<open>The format interpreter\<close>

datatype va = VInt u32 | VStr "u8 list"

definition emit :: "u8 list \<Rightarrow> u8 list option \<Rightarrow> u8 list option" where
  "emit out r = map_option (\<lambda>o'. out @ o') r"

text \<open>
  One conversion character after a \<open>%\<close>: the bytes it prints and the arguments left. A
  missing argument or one of the wrong kind is undefined in C.
\<close>

definition printf_conv :: "u8 \<Rightarrow> va list \<Rightarrow> (u8 list \<times> va list) option" where
  "printf_conv d ap =
     (if d = 99 then (case ap of VInt v # ap' \<Rightarrow> Some (uart_putc (ucast v), ap') | _ \<Rightarrow> None)
      else if d = 115 then (case ap of VStr s # ap' \<Rightarrow> Some (uart_puts s, ap') | _ \<Rightarrow> None)
      else if d = 100 then (case ap of VInt v # ap' \<Rightarrow> map_option (\<lambda>o'. (o', ap')) (uart_print_int v) | _ \<Rightarrow> None)
      else if d = 117 then (case ap of VInt v # ap' \<Rightarrow> map_option (\<lambda>o'. (o', ap')) (uart_print_dec v) | _ \<Rightarrow> None)
      else if d = 120 then (case ap of VInt v # ap' \<Rightarrow> Some (hex_loop hex_lower v (hex_start v 28), ap') | _ \<Rightarrow> None)
      else if d = 112 then (case ap of VInt v # ap' \<Rightarrow> Some (uart_puts (bytes ''0x'') @ hex_loop hex_lower v 28, ap') | _ \<Rightarrow> None)
      else if d = 37 then Some (uart_putc 37, ap)
      else Some (uart_putc 37 @ uart_putc d, ap))"

text \<open>
  The loop over the format. After a \<open>%\<close> at the very end of the string the C code prints
  the terminator and steps over it, reading on past the string: \<open>None\<close>.
\<close>

function uart_printf :: "u8 list \<Rightarrow> va list \<Rightarrow> u8 list option" where
  "uart_printf [] ap = Some []"
| "uart_printf (c # fmt) ap =
     (if c \<noteq> 37 then emit (uart_putc c) (uart_printf fmt ap)
      else if take 3 fmt = [48, 56, 120] then
        (case ap of
           VInt v # ap' \<Rightarrow> emit (hex_loop hex_lower v 28) (uart_printf (drop 3 fmt) ap')
         | _ \<Rightarrow> None)
      else (case fmt of
              [] \<Rightarrow> None
            | d # rest \<Rightarrow>
                (case printf_conv d ap of
                   None \<Rightarrow> None
                 | Some (out, ap') \<Rightarrow> emit out (uart_printf rest ap'))))"
  by pat_completeness auto
termination
  by (relation "measure (\<lambda>(fmt, ap). length fmt)") auto

lemma emit_Some [simp]: "emit out (Some o') = Some (out @ o')"
  by (simp add: emit_def)

lemma emit_None [simp]: "emit out None = None"
  by (simp add: emit_def)

lemma uart_print_int_eq:
  "uart_print_int v =
     Some ((if sint v < 0 then [45] else []) @ dec_digits (nat \<bar>sint v\<bar>))"
proof (cases "sint v < 0")
  case False
  have "unat v = nat (sint v)"
  proof -
    have "uint (word_of_int (sint v) :: u32) = sint v"
      using False sint_lt [of v] by (simp only: uint_word_of_int) simp
    then show ?thesis by (simp add: unat_eq_nat_uint)
  qed
  with False show ?thesis by (simp add: uart_print_int_def uart_print_dec_eq)
next
  case True
  have "word_of_int (- (sint v + 1)) + 1 = (word_of_int (- sint v) :: u32)" by simp
  moreover have "uint (word_of_int (- sint v) :: u32) = - sint v"
    using True sint_ge [of v] by (simp only: uint_word_of_int) simp
  ultimately have "unat (word_of_int (- (sint v + 1)) + 1 :: u32) = nat (- sint v)"
    by (metis nat_uint_eq)
  with True show ?thesis by (simp add: uart_print_int_def uart_print_dec_eq)
qed

section \<open>Properties\<close>

lemma hd_dec_digits: "hd (dec_digits n) = 48 \<longleftrightarrow> n = 0"
proof (induction n rule: dec_digits.induct)
  case (1 n)
  have ne: "dec_digits m \<noteq> []" for m by (subst dec_digits.simps) simp
  show ?case
  proof (cases "n < 10")
    case True
    then have "unat (of_nat n :: u8) = n" by (simp add: unat_of_nat_small)
    then have "(of_nat n :: u8) = 0 \<longleftrightarrow> n = 0" by (cases "n = 0") auto
    then show ?thesis using True by (simp add: dec_digits.simps [of n])
  next
    case False
    then show ?thesis using 1 ne by (simp add: dec_digits.simps [of n] div_eq_0_iff)
  qed
qed

text \<open>\<open>uart_print_dec\<close> prints every 32-bit value as its decimal digits, most significant
  first and without leading zeros; its ten-byte buffer is never overrun.\<close>

lemma print_dec_correct:
  "\<exists>out. uart_print_dec v = Some out \<and> dec_value out = unat v \<and> length out \<le> 10 \<and> (hd out = 48 \<longleftrightarrow> v = 0)"
  using dec_value_digits dec_digits_u32_bound hd_dec_digits
  by (simp add: uart_print_dec_eq unat_eq_zero)

text \<open>\<open>uart_print_int\<close> prints every signed 32-bit value, the least one included, as a minus
  sign where it is negative and the decimal digits of its absolute value.\<close>

lemma print_int_correct:
  "\<exists>ds. uart_print_int v = Some ((if sint v < 0 then [45] else []) @ ds) \<and> int (dec_value ds) = \<bar>sint v\<bar>"
  by (simp add: uart_print_int_eq dec_value_digits)

text \<open>\<open>uart_print_hex\<close>, \<open>%08x\<close>, \<open>%p\<close> and \<open>%x\<close> print the value they are given: eight digits
  for the first three, and for \<open>%x\<close> as many as are needed.\<close>

lemma print_hex_correct:
  "(\<exists>ds. uart_print_hex v = bytes ''0x'' @ ds \<and> length ds = 8 \<and> hex_value ds = unat v) \<and>
   (\<exists>ds. uart_printf (bytes ''%08x'') [VInt v] = Some ds \<and> length ds = 8 \<and> hex_value ds = unat v) \<and>
   (\<exists>ds. uart_printf (bytes ''%p'') [VInt v] = Some (bytes ''0x'' @ ds) \<and> length ds = 8 \<and> hex_value ds = unat v) \<and>
   (\<exists>ds. uart_printf (bytes ''%x'') [VInt v] = Some ds \<and> hex_value ds = unat v \<and>
      (length ds = 1 \<or> 16 ^ (length ds - 1) \<le> unat v))"
proof -
  have m: "unat v mod 16 ^ Suc 7 = unat v" using unat_u32_less [of v] by simp
  have full: "length (hex_loop ds v 28) = 8 \<and> hex_value (hex_loop ds v 28) = unat v" if "hex_digits ds" for ds
    using hex_loop_value [OF that, of v 7] m by simp
  obtain j where j: "hex_start v 28 = 4 * int j" "unat v mod 16 ^ Suc j = unat v" "j = 0 \<or> 16 ^ j \<le> unat v"
    using hex_start_value [of 7 v] m by auto
  have "hex_value (hex_loop hex_lower v (hex_start v 28)) = unat v \<and>
      length (hex_loop hex_lower v (hex_start v 28)) = Suc j"
    using hex_loop_value [OF hex_digits_tables(1), of v j] j by simp
  then show ?thesis
    using full [OF hex_digits_tables(1)] full [OF hex_digits_tables(2)] j(3)
    by (simp add: uart_print_hex_def printf_conv_def)
qed

text \<open>A format string that ends in a lone \<open>%\<close> takes \<open>uart_printf\<close> past its terminator: after
  any text without conversions, the run has no defined result.\<close>

lemma printf_trailing_percent:
  assumes "37 \<notin> set s"
  shows "uart_printf (s @ [37]) ap = None"
  using assms by (induction s) auto

end
