(* ===== verification/Board.thy ===== *)
theory Board
  imports Prelude
begin

text \<open>
  Build-time constants: the shared layout of \<open>kernel/include/platform.h\<close> and the two
  board headers \<open>kernel/platform/qemu/board.h\<close> and \<open>kernel/platform/bbb/board.h\<close>. The
  Makefile's \<open>PLATFORM\<close> picks one board; the model keeps the choice as a parameter, so a
  theorem that quantifies over \<open>platform\<close> speaks about both builds.
\<close>

section \<open>Shared layout (platform.h)\<close>

definition KERNEL_VIRT_BASE :: u32 where
  "KERNEL_VIRT_BASE = 0xC0000000"

definition USER_VIRT_BASE :: u32 where
  "USER_VIRT_BASE = 0x40000000"

definition USER_REGION_SIZE :: u32 where
  "USER_REGION_SIZE = 0x00100000"

definition USER_STACK_TOP :: u32 where
  "USER_STACK_TOP = USER_VIRT_BASE + USER_REGION_SIZE"

definition NUM_PROCESSES :: u32 where
  "NUM_PROCESSES = 3"

definition KSTACK_SIZE :: u32 where
  "KSTACK_SIZE = 8192"

lemmas [kconst] = KERNEL_VIRT_BASE_def USER_VIRT_BASE_def USER_REGION_SIZE_def
  NUM_PROCESSES_def KSTACK_SIZE_def

lemma USER_STACK_TOP_val [kconst]: "USER_STACK_TOP = 0x40100000"
  by (simp add: USER_STACK_TOP_def USER_VIRT_BASE_def USER_REGION_SIZE_def)

section \<open>Boards (board.h)\<close>

text \<open>
  \<open>TIMER_BASE\<close> is \<open>TIMER0_BASE\<close> on QEMU and \<open>TIMER2_BASE\<close> on the BeagleBone;
  \<open>INTC_CPU_BASE\<close> and \<open>INTC_DIST_BASE\<close> are the two halves of the GIC on QEMU and the one
  block \<open>INTC_BASE\<close> on the BeagleBone.
\<close>

record board =
  PLATFORM_NAME :: "u8 list"
  RAM_BASE :: u32
  RAM_SIZE :: u32
  KERNEL_PHYS_BASE :: u32
  PHYS_OFFSET :: u32
  UART0_BASE :: u32
  TIMER_BASE :: u32
  INTC_CPU_BASE :: u32
  INTC_DIST_BASE :: u32
  TIMER_CLK_HZ :: u32
  IRQ_TIMER :: u32
  IRQ_UART0 :: u32
  USER_PHYS_BASE :: u32
  USER_PHYS_STRIDE :: u32

definition qemu_board :: board where
  "qemu_board = \<lparr>
     PLATFORM_NAME = bytes ''QEMU realview-pb-a8'',
     RAM_BASE = 0x70000000,
     RAM_SIZE = 128 * 1024 * 1024,
     KERNEL_PHYS_BASE = 0x70100000,
     PHYS_OFFSET = 0xC0000000 - 0x70000000,
     UART0_BASE = 0x10009000,
     TIMER_BASE = 0x10011000,
     INTC_CPU_BASE = 0x1E000000,
     INTC_DIST_BASE = 0x1E001000,
     TIMER_CLK_HZ = 1000000,
     IRQ_TIMER = 36,
     IRQ_UART0 = 44,
     USER_PHYS_BASE = 0x70000000 + 0x00200000,
     USER_PHYS_STRIDE = 0x00100000\<rparr>"

definition bbb_board :: board where
  "bbb_board = \<lparr>
     PLATFORM_NAME = bytes ''BeagleBone Black (AM335x)'',
     RAM_BASE = 0x80000000,
     RAM_SIZE = 512 * 1024 * 1024,
     KERNEL_PHYS_BASE = 0x80000000,
     PHYS_OFFSET = 0xC0000000 - 0x80000000,
     UART0_BASE = 0x44E09000,
     TIMER_BASE = 0x48040000,
     INTC_CPU_BASE = 0x48200000,
     INTC_DIST_BASE = 0x48200000,
     TIMER_CLK_HZ = 24000000,
     IRQ_TIMER = 68,
     IRQ_UART0 = 72,
     USER_PHYS_BASE = 0x80000000 + 0x00200000,
     USER_PHYS_STRIDE = 0x00100000\<rparr>"

datatype platform = Qemu | Bbb

fun board_of :: "platform \<Rightarrow> board" where
  "board_of Qemu = qemu_board"
| "board_of Bbb = bbb_board"

lemmas board_defs = qemu_board_def bbb_board_def

text \<open>The physical slot of process \<open>i\<close>: one megabyte each, consecutive, inside RAM.\<close>

definition user_slot :: "platform \<Rightarrow> nat \<Rightarrow> u32" where
  "user_slot pl i = USER_PHYS_BASE (board_of pl) + of_nat i * USER_PHYS_STRIDE (board_of pl)"

lemma less_3_cases: "(i :: nat) < 3 \<Longrightarrow> i = 0 \<or> i = 1 \<or> i = 2"
  by arith

lemma all_less_3: "(\<forall>i < (3 :: nat). P i) \<longleftrightarrow> P 0 \<and> P 1 \<and> P 2"
  using less_3_cases by auto

lemma unat_user_slot:
  "i < 3 \<Longrightarrow> unat (user_slot pl i) = unat (RAM_BASE (board_of pl)) + (2 + i) * 1048576"
  by (cases pl; drule less_3_cases) (auto simp: user_slot_def board_defs)

end
