(* ===== verification/Pgtable.thy ===== *)
theory Pgtable
  imports Board
begin

text \<open>
  The page-table builder: \<open>kernel/arch/arm/mm/pgtable.c\<close>, the table part of
  \<open>kernel/arch/arm/mm/mmu.c\<close>, \<open>kernel/include/mmu.h\<close> and the two \<open>periph_map.c\<close>. An L1
  table is a function from its index (0 to 4095) to the 32-bit descriptor; every C loop over
  a table is a recursion over the iteration count that performs the iterations in the order
  of the loop.

  \<open>section_lookup\<close> reads a table the way \<open>mmu.h\<close> documents the descriptor fields (type,
  AP bits, section base); it is how the theorems say what an address resolves to. The
  theorems give the boot table and the per-process tables in closed form and derive from them the
  NULL guard, the high-half alias, the fault on physical addresses once the identity map is
  dropped, and the isolation of the user window.
\<close>

section \<open>Descriptors (mmu.h)\<close>

definition PDE_TYPE_SECTION :: u32 where "PDE_TYPE_SECTION = 2"
definition PDE_B :: u32 where "PDE_B = push_bit 2 1"
definition PDE_C :: u32 where "PDE_C = push_bit 3 1"
definition PDE_XN :: u32 where "PDE_XN = push_bit 4 1"
definition PDE_DOMAIN :: "u32 \<Rightarrow> u32" where "PDE_DOMAIN n = push_bit 5 n"
definition PDE_AP0 :: u32 where "PDE_AP0 = push_bit 10 1"
definition PDE_AP1 :: u32 where "PDE_AP1 = push_bit 11 1"
definition PDE_AP2 :: u32 where "PDE_AP2 = push_bit 15 1"
definition PDE_AP_KERN_RW :: u32 where "PDE_AP_KERN_RW = PDE_AP0"
definition PDE_AP_KERN_USER_RW :: u32 where "PDE_AP_KERN_USER_RW = PDE_AP0 OR PDE_AP1"

definition PDE_KERNEL_MEM :: u32 where
  "PDE_KERNEL_MEM = PDE_TYPE_SECTION OR PDE_C OR PDE_B OR PDE_AP_KERN_RW OR PDE_DOMAIN 0"

definition PDE_DEVICE :: u32 where
  "PDE_DEVICE = PDE_TYPE_SECTION OR PDE_AP_KERN_RW OR PDE_DOMAIN 0 OR PDE_XN"

definition PDE_USER_TEXT :: u32 where
  "PDE_USER_TEXT = PDE_TYPE_SECTION OR PDE_C OR PDE_B OR PDE_AP_KERN_USER_RW OR PDE_DOMAIN 0"

definition PGD_ENTRIES :: nat where "PGD_ENTRIES = 4096"
definition VA_KERNEL_BASE :: u32 where "VA_KERNEL_BASE = 0xC0000000"

lemmas pde_defs = PDE_TYPE_SECTION_def PDE_B_def PDE_C_def PDE_XN_def PDE_DOMAIN_def PDE_AP0_def
  PDE_AP1_def PDE_AP2_def PDE_AP_KERN_RW_def PDE_AP_KERN_USER_RW_def

lemma pde_vals [kconst]:
  "PDE_KERNEL_MEM = 0x40E" "PDE_DEVICE = 0x412" "PDE_USER_TEXT = 0xC0E"
  by (simp_all add: PDE_KERNEL_MEM_def PDE_DEVICE_def PDE_USER_TEXT_def pde_defs)

section \<open>Building tables (pgtable.c)\<close>

type_synonym pgd = "nat \<Rightarrow> u32"

definition map_section :: "pgd \<Rightarrow> u32 \<Rightarrow> u32 \<Rightarrow> u32 \<Rightarrow> pgd" where
  "map_section pgd va pa attrs = pgd(unat (drop_bit 20 va) := (pa AND 0xFFF00000) OR attrs)"

text \<open>Iterations \<open>0, \<dots>, n - 1\<close> of the loop of \<open>pgtable_map_range\<close>.\<close>

fun map_range_loop :: "nat \<Rightarrow> pgd \<Rightarrow> u32 \<Rightarrow> u32 \<Rightarrow> u32 \<Rightarrow> pgd" where
  "map_range_loop 0 pgd va pa attrs = pgd"
| "map_range_loop (Suc i) pgd va pa attrs =
     map_section (map_range_loop i pgd va pa attrs)
       (va + push_bit 20 (of_nat i)) (pa + push_bit 20 (of_nat i)) attrs"

definition pgtable_map_range :: "pgd \<Rightarrow> u32 \<Rightarrow> u32 \<Rightarrow> u32 \<Rightarrow> u32 \<Rightarrow> pgd" where
  "pgtable_map_range pgd va pa size_bytes attrs =
     (let count = unat (drop_bit 20 size_bytes) in map_range_loop count pgd va pa attrs)"

definition qemu_map_peripherals :: "pgd \<Rightarrow> pgd" where
  "qemu_map_peripherals pgd =
     (let pgd = pgtable_map_range pgd 0x10000000 0x10000000 (push_bit 20 2) PDE_DEVICE in
      pgtable_map_range pgd 0x1E000000 0x1E000000 (push_bit 20 1) PDE_DEVICE)"

definition bbb_map_peripherals :: "pgd \<Rightarrow> pgd" where
  "bbb_map_peripherals pgd =
     (let pgd = pgtable_map_range pgd 0x44E00000 0x44E00000 (push_bit 20 1) PDE_DEVICE in
      pgtable_map_range pgd 0x48000000 0x48000000 (push_bit 20 16) PDE_DEVICE)"

fun platform_map_peripherals :: "platform \<Rightarrow> pgd \<Rightarrow> pgd" where
  "platform_map_peripherals Qemu = qemu_map_peripherals"
| "platform_map_peripherals Bbb = bbb_map_peripherals"

definition mmu_build_boot_pgd :: "platform \<Rightarrow> pgd \<Rightarrow> pgd" where
  "mmu_build_boot_pgd pl pgd =
     (let b = board_of pl;
          pgd = pgtable_map_range pgd (RAM_BASE b) (RAM_BASE b) (RAM_SIZE b) PDE_KERNEL_MEM;
          pgd = pgtable_map_range pgd VA_KERNEL_BASE (RAM_BASE b) (RAM_SIZE b) PDE_KERNEL_MEM
      in platform_map_peripherals pl pgd)"

fun zero_loop :: "nat \<Rightarrow> pgd \<Rightarrow> pgd" where
  "zero_loop 0 pgd = pgd"
| "zero_loop (Suc i) pgd = (zero_loop i pgd)(i := 0)"

fun copy_loop :: "nat \<Rightarrow> pgd \<Rightarrow> nat \<Rightarrow> nat \<Rightarrow> pgd \<Rightarrow> pgd" where
  "copy_loop 0 boot_pgd ident_lo ident_hi pgd = pgd"
| "copy_loop (Suc i) boot_pgd ident_lo ident_hi pgd =
     (let pgd = copy_loop i boot_pgd ident_lo ident_hi pgd in
      if boot_pgd i = 0 then pgd
      else if i \<ge> ident_lo \<and> i < ident_hi then pgd
      else pgd(i := boot_pgd i))"

definition pgtable_build_for_proc :: "platform \<Rightarrow> pgd \<Rightarrow> pgd \<Rightarrow> u32 \<Rightarrow> pgd" where
  "pgtable_build_for_proc pl boot_pgd pgd user_pa =
     (let b = board_of pl;
          ident_lo = unat (drop_bit 20 (RAM_BASE b));
          ident_hi = unat (drop_bit 20 (RAM_BASE b + RAM_SIZE b));
          pgd = zero_loop PGD_ENTRIES pgd;
          pgd = copy_loop PGD_ENTRIES boot_pgd ident_lo ident_hi pgd
      in pgd(unat (drop_bit 20 USER_VIRT_BASE) := (user_pa AND 0xFFF00000) OR PDE_USER_TEXT))"

section \<open>Dropping the identity map (mmu.c)\<close>

function drop_loop :: "nat \<Rightarrow> nat \<Rightarrow> pgd \<Rightarrow> pgd" where
  "drop_loop i end_idx boot_pgd =
     (if i < end_idx then drop_loop (Suc i) end_idx (boot_pgd(i := 0)) else boot_pgd)"
  by pat_completeness auto
termination
  by (relation "measure (\<lambda>(i, e, p). e - i)") auto

declare drop_loop.simps [simp del]

text \<open>The table update of \<open>mmu_drop_identity\<close>; the TLB flush and barriers have no table effect.\<close>

definition drop_identity :: "platform \<Rightarrow> pgd \<Rightarrow> pgd" where
  "drop_identity pl boot_pgd =
     (let b = board_of pl;
          start_idx = unat (drop_bit 20 (RAM_BASE b));
          end_idx = unat (drop_bit 20 (RAM_BASE b + RAM_SIZE b))
      in drop_loop start_idx end_idx boot_pgd)"

section \<open>What a table means\<close>

definition sec_index :: "u32 \<Rightarrow> nat" where
  "sec_index va = unat va div 1048576"

text \<open>
  The descriptor fields documented in \<open>mmu.h\<close>: type \<open>10\<close> is a section, AP[1] grants the
  user read and write access, bits 31 to 20 are the physical base. \<open>user\<close> says whether the
  access is made from USR mode.
\<close>

definition section_lookup :: "bool \<Rightarrow> pgd \<Rightarrow> u32 \<Rightarrow> u32 option" where
  "section_lookup user pgd va =
     (let d = pgd (sec_index va) in
      if d AND 3 \<noteq> PDE_TYPE_SECTION then None
      else if user \<and> d AND PDE_AP1 = 0 then None
      else Some ((d AND 0xFFF00000) OR (va AND 0x000FFFFF)))"

lemma sec_index_less: "sec_index va < 4096"
  using unat_u32_less [of va] by (simp add: sec_index_def less_mult_imp_div_less)

lemma unat_drop20: "unat (drop_bit 20 va :: u32) = sec_index va"
proof -
  have "take_bit 32 (unat va) = unat va" using unat_u32_less [of va] by (simp add: take_bit_eq_mod)
  then show ?thesis by (simp add: sec_index_def unsigned_drop_bit_eq) (simp add: drop_bit_eq_div)
qed

lemma unat_add_sections:
  assumes "unat va + i * 1048576 < 4294967296"
  shows "unat (va + push_bit 20 (of_nat i) :: u32) = unat va + i * 1048576"
  using assms by (simp add: push_bit_eq_mult unat_word_ariths unat_of_nat mod_mult_right_eq)

lemma sec_index_add:
  assumes "unat va + i * 1048576 < 4294967296"
  shows "sec_index (va + push_bit 20 (of_nat i)) = sec_index va + i"
  using assms by (simp add: sec_index_def unat_add_sections)

lemma map_range_loop_eq:
  assumes "unat va + n * 1048576 \<le> 4294967296"
  shows "map_range_loop n pgd va pa attrs =
    (\<lambda>j. if sec_index va \<le> j \<and> j < sec_index va + n
         then ((pa + push_bit 20 (of_nat (j - sec_index va))) AND 0xFFF00000) OR attrs
         else pgd j)"
  using assms
proof (induction n)
  case 0
  show ?case by (auto simp: fun_eq_iff)
next
  case (Suc n)
  then have "sec_index (va + push_bit 20 (of_nat n)) = sec_index va + n"
    by (simp add: sec_index_add)
  with Suc show ?case by (auto simp: map_section_def unat_drop20 fun_eq_iff)
qed

lemma zero_loop_eq: "zero_loop n pgd = (\<lambda>j. if j < n then 0 else pgd j)"
  by (induction n) (auto simp: fun_eq_iff)

lemma copy_loop_eq:
  "copy_loop n boot lo hi pgd =
    (\<lambda>j. if j < n \<and> boot j \<noteq> 0 \<and> \<not> (lo \<le> j \<and> j < hi) then boot j else pgd j)"
  by (induction n) (auto simp: fun_eq_iff Let_def less_Suc_eq)

lemma drop_loop_eq:
  "drop_loop i e pgd = (\<lambda>j. if i \<le> j \<and> j < e then 0 else pgd j)"
proof (induction i e pgd rule: drop_loop.induct)
  case (1 i e pgd)
  show ?case
  proof (cases "i < e")
    case True
    then have "drop_loop i e pgd = drop_loop (Suc i) e (pgd(i := 0))"
      by (subst drop_loop.simps) simp
    also note "1" [OF True]
    finally show ?thesis using True by auto
  next
    case False
    then show ?thesis by (subst drop_loop.simps) (auto simp: fun_eq_iff)
  qed
qed

section \<open>Closed forms\<close>

text \<open>The descriptor of section number \<open>a\<close> with attributes \<open>attrs\<close>.\<close>

definition sec_desc :: "nat \<Rightarrow> u32 \<Rightarrow> u32" where
  "sec_desc a attrs = push_bit 20 (of_nat a) OR attrs"

lemma base_mask: "push_bit 20 (x :: u32) AND 0xFFF00000 = push_bit 20 x"
proof -
  have "push_bit 20 x AND push_bit 20 (mask 12) = push_bit 20 x"
    by (rule bit_word_eqI) (auto simp: bit_simps)
  moreover have "push_bit 20 (mask 12) = (0xFFF00000 :: u32)" by (simp add: mask_eq_decr_exp)
  ultimately show ?thesis by (simp only:)
qed

lemma unat_sec: "a < 4096 \<Longrightarrow> unat (push_bit 20 (of_nat a) :: u32) = a * 1048576"
  by (simp add: push_bit_eq_mult unat_word_ariths unat_of_nat)

lemma sec_index_sec: "a < 4096 \<Longrightarrow> sec_index (push_bit 20 (of_nat a)) = a"
  by (simp add: sec_index_def unat_sec)

lemma push_bit_20_add: "push_bit 20 (of_nat a) + push_bit 20 (of_nat b) = (push_bit 20 (of_nat (a + b)) :: u32)"
  by (simp add: push_bit_eq_mult distrib_right)

lemma map_range_aligned:
  assumes "v + n \<le> 4096" "0 < v"
  shows "pgtable_map_range pgd (push_bit 20 (of_nat v)) (push_bit 20 (of_nat p)) (push_bit 20 (of_nat n)) attrs =
    (\<lambda>j. if v \<le> j \<and> j < v + n then sec_desc (p + (j - v)) attrs else pgd j)"
proof (cases "v = 4096")
  case True
  with assms show ?thesis by (auto simp: pgtable_map_range_def fun_eq_iff)
next
  case False
  with assms have v: "v < 4096" and n: "n < 4096" by simp_all
  have "unat (push_bit 20 (of_nat v) :: u32) + n * 1048576 \<le> 4294967296"
    using assms by (simp add: unat_sec v)
  then show ?thesis
    unfolding pgtable_map_range_def Let_def unat_drop20 sec_index_sec [OF n]
    by (subst map_range_loop_eq)
      (auto simp: fun_eq_iff sec_index_sec [OF v] push_bit_20_add base_mask sec_desc_def
        simp del: of_nat_add of_nat_diff)
qed

text \<open>First section and number of sections of RAM, and the peripheral sections, per board.\<close>

fun ram_sec :: "platform \<Rightarrow> nat" where
  "ram_sec Qemu = 0x700"
| "ram_sec Bbb = 0x800"

fun ram_secs :: "platform \<Rightarrow> nat" where
  "ram_secs Qemu = 128"
| "ram_secs Bbb = 512"

fun is_periph :: "platform \<Rightarrow> nat \<Rightarrow> bool" where
  "is_periph Qemu j \<longleftrightarrow> j = 0x100 \<or> j = 0x101 \<or> j = 0x1E0"
| "is_periph Bbb j \<longleftrightarrow> j = 0x44E \<or> (0x480 \<le> j \<and> j < 0x490)"

definition kernel_desc :: "platform \<Rightarrow> nat \<Rightarrow> u32" where
  "kernel_desc pl j =
     (if 0xC00 \<le> j \<and> j < 0xC00 + ram_secs pl then sec_desc (ram_sec pl + (j - 0xC00)) PDE_KERNEL_MEM
      else if is_periph pl j then sec_desc j PDE_DEVICE
      else 0)"

definition boot_desc :: "platform \<Rightarrow> nat \<Rightarrow> u32" where
  "boot_desc pl j =
     (if ram_sec pl \<le> j \<and> j < ram_sec pl + ram_secs pl then sec_desc j PDE_KERNEL_MEM
      else kernel_desc pl j)"

lemma map_range_qemu:
  "pgtable_map_range pgd 0x70000000 0x70000000 0x8000000 a =
     (\<lambda>j. if 0x700 \<le> j \<and> j < 0x780 then sec_desc (0x700 + (j - 0x700)) a else pgd j)"
  "pgtable_map_range pgd 0xC0000000 0x70000000 0x8000000 a =
     (\<lambda>j. if 0xC00 \<le> j \<and> j < 0xC80 then sec_desc (0x700 + (j - 0xC00)) a else pgd j)"
  "pgtable_map_range pgd 0x10000000 0x10000000 0x200000 a =
     (\<lambda>j. if 0x100 \<le> j \<and> j < 0x102 then sec_desc (0x100 + (j - 0x100)) a else pgd j)"
  "pgtable_map_range pgd 0x1E000000 0x1E000000 0x100000 a =
     (\<lambda>j. if 0x1E0 \<le> j \<and> j < 0x1E1 then sec_desc (0x1E0 + (j - 0x1E0)) a else pgd j)"
  using map_range_aligned [of "0x700" "0x80" pgd "0x700" a] map_range_aligned [of "0xC00" "0x80" pgd "0x700" a]
    map_range_aligned [of "0x100" 2 pgd "0x100" a] map_range_aligned [of "0x1E0" 1 pgd "0x1E0" a]
  by simp_all

lemma map_range_bbb:
  "pgtable_map_range pgd 0x80000000 0x80000000 0x20000000 a =
     (\<lambda>j. if 0x800 \<le> j \<and> j < 0xA00 then sec_desc (0x800 + (j - 0x800)) a else pgd j)"
  "pgtable_map_range pgd 0xC0000000 0x80000000 0x20000000 a =
     (\<lambda>j. if 0xC00 \<le> j \<and> j < 0xE00 then sec_desc (0x800 + (j - 0xC00)) a else pgd j)"
  "pgtable_map_range pgd 0x44E00000 0x44E00000 0x100000 a =
     (\<lambda>j. if 0x44E \<le> j \<and> j < 0x44F then sec_desc (0x44E + (j - 0x44E)) a else pgd j)"
  "pgtable_map_range pgd 0x48000000 0x48000000 0x1000000 a =
     (\<lambda>j. if 0x480 \<le> j \<and> j < 0x490 then sec_desc (0x480 + (j - 0x480)) a else pgd j)"
  using map_range_aligned [of "0x800" "0x200" pgd "0x800" a] map_range_aligned [of "0xC00" "0x200" pgd "0x800" a]
    map_range_aligned [of "0x44E" 1 pgd "0x44E" a] map_range_aligned [of "0x480" 16 pgd "0x480" a]
  by simp_all

lemma boot_pgd_closed: "mmu_build_boot_pgd pl (\<lambda>_. 0) = boot_desc pl"
proof (cases pl)
  case Qemu
  show ?thesis unfolding Qemu
    by (simp add: mmu_build_boot_pgd_def Let_def qemu_board_def VA_KERNEL_BASE_def
        qemu_map_peripherals_def)
      (auto simp: map_range_qemu fun_eq_iff boot_desc_def kernel_desc_def)
next
  case Bbb
  show ?thesis unfolding Bbb
    by (simp add: mmu_build_boot_pgd_def Let_def bbb_board_def VA_KERNEL_BASE_def
        bbb_map_peripherals_def)
      (auto simp: map_range_bbb fun_eq_iff boot_desc_def kernel_desc_def)
qed

lemma ident_bounds:
  "unat (drop_bit 20 (RAM_BASE (board_of pl))) = ram_sec pl"
  "unat (drop_bit 20 (RAM_BASE (board_of pl) + RAM_SIZE (board_of pl))) = ram_sec pl + ram_secs pl"
  by (cases pl; simp add: board_defs)+

lemma drop_identity_closed: "drop_identity pl (boot_desc pl) = kernel_desc pl"
proof -
  have "kernel_desc pl j = 0" if "ram_sec pl \<le> j" "j < ram_sec pl + ram_secs pl" for j
    using that by (cases pl) (auto simp: kernel_desc_def)
  then show ?thesis
    by (auto simp: drop_identity_def Let_def ident_bounds drop_loop_eq boot_desc_def fun_eq_iff)
qed

text \<open>The table of a process: the kernel half and the peripherals, and the user section.\<close>

definition proc_desc :: "platform \<Rightarrow> u32 \<Rightarrow> nat \<Rightarrow> u32" where
  "proc_desc pl user_pa j =
     (if j = 0x400 then (user_pa AND 0xFFF00000) OR PDE_USER_TEXT else kernel_desc pl j)"

lemma proc_pgd_closed:
  assumes "j < 4096"
  shows "pgtable_build_for_proc pl (boot_desc pl) pgd user_pa j = proc_desc pl user_pa j"
proof -
  have out: "kernel_desc pl j = 0" if "ram_sec pl \<le> j" "j < ram_sec pl + ram_secs pl"
    using that by (cases pl) (auto simp: kernel_desc_def)
  then show ?thesis using assms
    by (auto simp: pgtable_build_for_proc_def Let_def ident_bounds zero_loop_eq copy_loop_eq
        PGD_ENTRIES_def proc_desc_def boot_desc_def USER_VIRT_BASE_def)
qed

section \<open>Reading descriptors\<close>

lemma push20_low: "m AND 0xFFF00000 = 0 \<Longrightarrow> push_bit 20 x AND m = (0 :: u32)"
proof -
  assume m: "m AND 0xFFF00000 = 0"
  have "push_bit 20 x AND m = (push_bit 20 x AND 0xFFF00000) AND m" by (simp only: base_mask)
  also have "\<dots> = push_bit 20 x AND (m AND 0xFFF00000)" by (simp only: and.assoc and.commute and.left_commute)
  finally show ?thesis using m by simp
qed

lemma lookup_sec_desc:
  assumes "pgd (sec_index va) = sec_desc a attrs" "attrs AND 0xFFF00000 = 0" "attrs AND 3 = 2"
  shows "section_lookup user pgd va =
    (if user \<and> attrs AND PDE_AP1 = 0 then None
     else Some (push_bit 20 (of_nat a) OR (va AND 0xFFFFF)))"
  using assms push20_low [of 3 "of_nat a"] push20_low [of PDE_AP1 "of_nat a"]
  by (simp add: section_lookup_def Let_def sec_desc_def PDE_TYPE_SECTION_def bit.conj_disj_distrib2
      base_mask PDE_AP1_def)

lemma lookup_fault: "pgd (sec_index va) = 0 \<Longrightarrow> section_lookup user pgd va = None"
  by (simp add: section_lookup_def PDE_TYPE_SECTION_def)

lemma unat_mask20: "unat (va AND 0xFFFFF :: u32) = unat va mod 1048576"
proof -
  have "(0xFFFFF :: u32) = mask 20" by (simp add: mask_eq_decr_exp)
  then have "va AND 0xFFFFF = take_bit 20 va" by (simp only: take_bit_eq_mask)
  then have "unat (va AND 0xFFFFF) = take_bit 20 (unat va)" by (simp add: unsigned_take_bit_eq)
  then show ?thesis by (simp add: take_bit_eq_mod)
qed

lemma unat_sec_off:
  assumes "a < 4096"
  shows "unat (push_bit 20 (of_nat a) OR (va AND 0xFFFFF) :: u32) = a * 1048576 + unat va mod 1048576"
proof -
  have "push_bit 20 (of_nat a) AND (va AND 0xFFFFF) = (0 :: u32)"
    by (rule push20_low) (simp add: and.assoc)
  then have "push_bit 20 (of_nat a) OR (va AND 0xFFFFF) = push_bit 20 (of_nat a) + (va AND 0xFFFFF)"
    by (simp add: disjunctive_add_eq_or)
  moreover have "a * 1048576 + unat va mod 1048576 < 4294967296"
  proof -
    have "a * 1048576 \<le> 4095 * 1048576" using assms by (intro mult_right_mono) simp_all
    moreover have "unat va mod 1048576 < 1048576" by simp
    ultimately show ?thesis by simp
  qed
  ultimately show ?thesis
    using assms by (simp add: unat_word_ariths unat_sec unat_mask20)
qed

text \<open>The physical address a section maps a virtual address to, as a difference of sections.\<close>

lemma sec_off_eq:
  assumes "a < 4096"
    and "unat (va + delta :: u32) = a * 1048576 + unat va mod 1048576"
  shows "push_bit 20 (of_nat a) OR (va AND 0xFFFFF) = va + delta"
  using assms by (simp add: word_unat_eq_iff unat_sec_off)

lemma sec_index_iff:
  "sec_index va = j \<longleftrightarrow> j * 1048576 \<le> unat va \<and> unat va < Suc j * 1048576"
  by (auto simp: sec_index_def div_nat_eqI dividend_less_times_div)

lemma kernel_desc_0: "kernel_desc pl 0 = 0"
  by (cases pl) (simp_all add: kernel_desc_def)

lemma sec_desc_lookups [simp]:
  "pgd (sec_index va) = sec_desc a PDE_KERNEL_MEM \<Longrightarrow>
     section_lookup user pgd va = (if user then None else Some (push_bit 20 (of_nat a) OR (va AND 0xFFFFF)))"
  "pgd (sec_index va) = sec_desc a PDE_DEVICE \<Longrightarrow>
     section_lookup user pgd va = (if user then None else Some (push_bit 20 (of_nat a) OR (va AND 0xFFFFF)))"
  "pgd (sec_index va) = sec_desc a PDE_USER_TEXT \<Longrightarrow>
     section_lookup user pgd va = Some (push_bit 20 (of_nat a) OR (va AND 0xFFFFF))"
  by (simp_all add: lookup_sec_desc pde_vals PDE_AP1_def)

text \<open>Nothing of the kernel's part of a table is open to user mode.\<close>

lemma kernel_desc_user: "pgd (sec_index va) = kernel_desc pl (sec_index va) \<Longrightarrow> section_lookup True pgd va = None"
  by (auto simp: kernel_desc_def lookup_fault split: if_splits)

text \<open>The high half resolves to RAM, one \<open>PHYS_OFFSET\<close> below.\<close>

definition in_alias :: "platform \<Rightarrow> u32 \<Rightarrow> bool" where
  "in_alias pl va \<longleftrightarrow> VA_KERNEL_BASE \<le> va \<and> va - VA_KERNEL_BASE < RAM_SIZE (board_of pl)"

lemma in_alias_index:
  "in_alias pl va \<Longrightarrow> 0xC00 \<le> sec_index va \<and> sec_index va < 0xC00 + ram_secs pl"
  by (cases pl) (auto simp: in_alias_def VA_KERNEL_BASE_def board_defs sec_index_def word_le_nat_alt
      word_less_nat_alt unat_sub)

lemma alias_lookup:
  assumes "in_alias pl va" "pgd (sec_index va) = kernel_desc pl (sec_index va)"
  shows "section_lookup False pgd va = Some (va - PHYS_OFFSET (board_of pl))"
proof -
  let ?a = "ram_sec pl + (sec_index va - 0xC00)"
  have idx: "0xC00 \<le> sec_index va" "sec_index va < 0xC00 + ram_secs pl"
    using in_alias_index [OF assms(1)] by simp_all
  then have "pgd (sec_index va) = sec_desc ?a PDE_KERNEL_MEM"
    using assms(2) by (simp add: kernel_desc_def)
  then have l: "section_lookup False pgd va = Some (push_bit 20 (of_nat ?a) OR (va AND 0xFFFFF))"
    by (rule sec_desc_lookups(1) [THEN trans]) simp
  have "?a < 4096" using idx by (cases pl) auto
  moreover have "unat (va - PHYS_OFFSET (board_of pl)) = ?a * 1048576 + unat va mod 1048576"
  proof -
    have "unat va = sec_index va * 1048576 + unat va mod 1048576"
      by (simp add: sec_index_def)
    moreover have "unat (va - PHYS_OFFSET (board_of pl)) = unat va - unat (PHYS_OFFSET (board_of pl))"
      using assms(1) by (cases pl) (auto simp: in_alias_def VA_KERNEL_BASE_def board_defs unat_sub word_le_nat_alt)
    ultimately show ?thesis using idx by (cases pl) (auto simp: board_defs)
  qed
  ultimately show ?thesis using l sec_off_eq [of ?a va "- PHYS_OFFSET (board_of pl)"] by simp
qed

text \<open>The user window resolves to the section of the process.\<close>

definition in_user_window :: "u32 \<Rightarrow> bool" where
  "in_user_window va \<longleftrightarrow> USER_VIRT_BASE \<le> va \<and> va < USER_VIRT_BASE + USER_REGION_SIZE"

lemma in_user_window_index: "in_user_window va \<longleftrightarrow> sec_index va = 0x400"
  by (auto simp: in_user_window_def kconst sec_index_iff word_le_nat_alt word_less_nat_alt)

lemma user_slot_desc:
  assumes "i < 3"
  shows "(user_slot pl i AND 0xFFF00000) OR PDE_USER_TEXT = sec_desc (ram_sec pl + 2 + i) PDE_USER_TEXT"
  using less_3_cases [OF assms] by (cases pl) (auto simp: user_slot_def board_defs sec_desc_def)

lemma user_window_lookup:
  assumes "i < 3" "in_user_window va" "pgd (sec_index va) = proc_desc pl (user_slot pl i) (sec_index va)"
  shows "section_lookup user pgd va = Some (user_slot pl i + (va - USER_VIRT_BASE))"
proof -
  let ?a = "ram_sec pl + 2 + i"
  have idx: "sec_index va = 0x400" using assms(2) by (simp add: in_user_window_index)
  then have "pgd (sec_index va) = sec_desc ?a PDE_USER_TEXT"
    using assms(1,3) by (simp add: proc_desc_def user_slot_desc)
  then have l: "section_lookup user pgd va = Some (push_bit 20 (of_nat ?a) OR (va AND 0xFFFFF))"
    by (rule sec_desc_lookups(3))
  have a: "?a < 4096" using assms(1) by (cases pl) auto
  have u: "unat va = 0x400 * 1048576 + unat va mod 1048576"
    using idx div_mult_mod_eq [of "unat va" 1048576] by (simp add: sec_index_def)
  have "unat (user_slot pl i + (va - USER_VIRT_BASE)) = ?a * 1048576 + unat va mod 1048576"
  proof -
    have "unat (va - USER_VIRT_BASE) = unat va mod 1048576"
      using u by (simp add: unat_sub word_le_nat_alt USER_VIRT_BASE_def)
    moreover have "unat (RAM_BASE (board_of pl)) = ram_sec pl * 1048576"
      by (cases pl) (simp_all add: board_defs)
    moreover have "?a * 1048576 + unat va mod 1048576 < 4294967296"
      unfolding unat_sec_off [OF a, of va, symmetric] by (rule unat_u32_less)
    ultimately show ?thesis using assms(1)
      by (simp add: unat_word_ariths(1) unat_user_slot distrib_right del: add_diff_eq)
  qed
  then have "push_bit 20 (of_nat ?a) OR (va AND 0xFFFFF) = user_slot pl i + (va - USER_VIRT_BASE)"
    using unat_sec_off [OF a, of va] by (simp add: word_unat_eq_iff)
  with l show ?thesis by simp
qed

section \<open>Properties\<close>

text \<open>C26: The table that \<open>pgtable_build_for_proc\<close> builds from the boot table gives user mode exactly
  one megabyte: every address of the user window goes to the process's own slot at the same
  offset, and every other address (the kernel, the peripherals, page zero) faults.\<close>

theorem user_table_exact:
  assumes "i < 3"
  shows "section_lookup True
      (pgtable_build_for_proc pl (mmu_build_boot_pgd pl (\<lambda>_. 0)) pgd (user_slot pl i)) va =
    (if in_user_window va then Some (user_slot pl i + (va - USER_VIRT_BASE)) else None)"
proof -
  let ?t = "pgtable_build_for_proc pl (mmu_build_boot_pgd pl (\<lambda>_. 0)) pgd (user_slot pl i)"
  have t: "?t (sec_index va) = proc_desc pl (user_slot pl i) (sec_index va)"
    by (simp add: boot_pgd_closed proc_pgd_closed sec_index_less)
  show ?thesis
  proof (cases "in_user_window va")
    case True
    then show ?thesis using user_window_lookup [of i va ?t pl True] assms t by simp
  next
    case False
    then have "?t (sec_index va) = kernel_desc pl (sec_index va)"
      using t by (simp add: proc_desc_def in_user_window_index)
    then show ?thesis using False kernel_desc_user [of ?t va pl] by simp
  qed
qed

theorem user_table_exact_witness:
  "section_lookup True (pgtable_build_for_proc Bbb (mmu_build_boot_pgd Bbb (\<lambda>_. 0)) (\<lambda>_. 0) (user_slot Bbb 2)) 0x40012345
     = Some 0x80412345 \<and>
   section_lookup True (pgtable_build_for_proc Bbb (mmu_build_boot_pgd Bbb (\<lambda>_. 0)) (\<lambda>_. 0) (user_slot Bbb 2)) 0xC0000000
     = None"
  using user_table_exact [of 2 Bbb "\<lambda>_. 0" "0x40012345"] user_table_exact [of 2 Bbb "\<lambda>_. 0" "0xC0000000"]
  by (simp add: in_user_window_def kconst user_slot_def board_defs)

definition in_ram :: "platform \<Rightarrow> u32 \<Rightarrow> bool" where
  "in_ram pl va \<longleftrightarrow> RAM_BASE (board_of pl) \<le> va \<and> va - RAM_BASE (board_of pl) < RAM_SIZE (board_of pl)"

lemma in_ram_index:
  "in_ram pl va \<Longrightarrow> ram_sec pl \<le> sec_index va \<and> sec_index va < ram_sec pl + ram_secs pl"
  by (cases pl)
    (auto simp: in_ram_def board_defs sec_index_def word_le_nat_alt word_less_nat_alt unat_sub)

lemma kernel_desc_ident:
  "ram_sec pl \<le> j \<Longrightarrow> j < ram_sec pl + ram_secs pl \<Longrightarrow> kernel_desc pl j = 0"
  by (cases pl) (auto simp: kernel_desc_def)

lemma sec_index_small: "unat va < 0x100000 \<Longrightarrow> sec_index va = 0"
  by (simp add: sec_index_def)

text \<open>In the same table the kernel sees RAM through the high alias, one \<open>PHYS_OFFSET\<close> up, while
  page zero and the physical (identity) addresses of RAM fault even for the kernel.\<close>

lemma kernel_view_of_proc_table:
  assumes "t = pgtable_build_for_proc pl (mmu_build_boot_pgd pl (\<lambda>_. 0)) pgd (user_slot pl i)"
  shows "(in_alias pl va \<longrightarrow> section_lookup False t va = Some (va - PHYS_OFFSET (board_of pl))) \<and>
    (unat va < 0x100000 \<longrightarrow> section_lookup False t va = None) \<and>
    (in_ram pl va \<longrightarrow> section_lookup False t va = None)"
proof -
  have t: "t (sec_index va) = (if sec_index va = 0x400 then (user_slot pl i AND 0xFFF00000) OR PDE_USER_TEXT
      else kernel_desc pl (sec_index va))"
    using sec_index_less [of va] by (simp add: assms boot_pgd_closed proc_pgd_closed proc_desc_def)
  have "section_lookup False t va = Some (va - PHYS_OFFSET (board_of pl))" if "in_alias pl va"
    using in_alias_index [OF that] t by (intro alias_lookup [OF that]) simp
  moreover have "section_lookup False t va = None" if "unat va < 0x100000"
    using t sec_index_small [OF that] by (intro lookup_fault) (simp add: kernel_desc_0)
  moreover have "section_lookup False t va = None" if "in_ram pl va"
    using t in_ram_index [OF that] kernel_desc_ident [of pl "sec_index va"]
    by (intro lookup_fault) (cases pl; simp)
  ultimately show ?thesis by blast
qed

lemma ident_lookup:
  assumes "in_ram pl va"
  shows "section_lookup False (boot_desc pl) va = Some va"
proof -
  have "boot_desc pl (sec_index va) = sec_desc (sec_index va) PDE_KERNEL_MEM"
    using in_ram_index [OF assms] by (simp add: boot_desc_def)
  then have "section_lookup False (boot_desc pl) va = Some (push_bit 20 (of_nat (sec_index va)) OR (va AND 0xFFFFF))"
    by (rule sec_desc_lookups(1) [THEN trans]) simp
  moreover have "push_bit 20 (of_nat (sec_index va)) OR (va AND 0xFFFFF) = va + 0"
    by (rule sec_off_eq) (simp_all add: sec_index_less, simp add: sec_index_def)
  ultimately show ?thesis by simp
qed

text \<open>The boot table maps RAM twice, at its physical address and at the high alias; after
  \<open>mmu_drop_identity\<close> every physical address of RAM faults and the alias is unchanged.\<close>

lemma identity_dropped:
  assumes "in_ram pl va"
  shows "section_lookup False (mmu_build_boot_pgd pl (\<lambda>_. 0)) va = Some va \<and>
    section_lookup False (drop_identity pl (mmu_build_boot_pgd pl (\<lambda>_. 0))) va = None \<and>
    (\<forall>hi. in_alias pl hi \<longrightarrow>
       section_lookup False (mmu_build_boot_pgd pl (\<lambda>_. 0)) hi = Some (hi - PHYS_OFFSET (board_of pl)) \<and>
       section_lookup False (drop_identity pl (mmu_build_boot_pgd pl (\<lambda>_. 0))) hi
         = Some (hi - PHYS_OFFSET (board_of pl)))"
proof -
  have "section_lookup False (kernel_desc pl) va = None"
    using in_ram_index [OF assms] by (intro lookup_fault kernel_desc_ident) simp_all
  moreover have "boot_desc pl (sec_index hi) = kernel_desc pl (sec_index hi)" if "in_alias pl hi" for hi
    using in_alias_index [OF that] by (cases pl) (auto simp: boot_desc_def)
  ultimately show ?thesis
    using ident_lookup [OF assms] by (auto simp: boot_pgd_closed drop_identity_closed intro: alias_lookup)
qed

end
