(* ===== verification/Kstate.thy ===== *)
theory Kstate
  imports Rx_Ring Console Pgtable
begin

text \<open>
  The data of the kernel: the process control block of \<open>kernel/include/proc.h\<close>, the saved
  exception frame of \<open>kernel/include/exception.h\<close>, and one record that holds every static
  variable of the kernel core together with the machine state it works on (TTBR0, the banked
  USR registers, physical memory, kernel stack words).

  Three fields stand for what the C code keeps on the kernel stacks. \<open>frames\<close> is the
  exception frame of each process. \<open>conts\<close> is the point at which a process that gave up the
  CPU continues when \<open>context_switch\<close> comes back to it: the return address and callee-saved
  registers that \<open>context_switch\<close> pushes, read as the C statement they return to. \<open>ub\<close>
  records that a format string was printed without a matching argument, which C leaves
  undefined.
\<close>

section \<open>Processes (proc.h)\<close>

datatype task_state = TASK_READY | TASK_RUNNING | TASK_BLOCKED | TASK_DEAD

text \<open>\<open>c_r\<close> holds r0 to r12.\<close>

record proc_context =
  c_r :: "u32 list"
  c_sp_svc :: u32
  c_lr_svc :: u32
  c_spsr :: u32
  c_sp_usr :: u32
  c_lr_usr :: u32

record process =
  p_ctx :: proc_context
  p_pid :: u32
  p_state :: task_state
  p_name :: "u8 list"
  p_pgd :: u32
  p_pgd_pa :: u32
  p_kstack_base :: u32
  p_kstack_size :: u32
  p_user_entry :: u32
  p_user_stack_top :: u32
  p_user_phys_base :: u32

text \<open>The frame pushed by the exception entry stubs: \<open>e_r\<close> holds r0 to r12.\<close>

record exception_context =
  e_spsr :: u32
  e_r :: "u32 list"
  e_lr :: u32

text \<open>
  Where a switched-out process resumes:
  \<^item> \<open>K_first_entry\<close>: \<open>ret_from_first_entry\<close>, into USR mode for the first time;
  \<^item> \<open>K_user_return\<close>: after \<open>schedule()\<close> at the tail of \<open>handle_svc\<close> or \<open>handle_irq\<close>, back
    to USR mode through the saved frame;
  \<^item> \<open>K_sys_read buf len\<close>: after \<open>scheduler_block_on_input()\<close> in the loop of \<open>sys_read\<close>,
    with nothing read yet;
  \<^item> \<open>K_user_fault\<close>: after \<open>schedule()\<close> in \<open>user_fault_kill\<close>.
\<close>

datatype kcont = K_first_entry | K_user_return | K_sys_read u32 u32 | K_user_fault

text \<open>The functions the kernel registers as callbacks.\<close>

datatype irq_handler = H_timer_irq | H_uart_rx_irq
datatype timer_handler = H_scheduler_tick

section \<open>The kernel state\<close>

record kernel =
  processes :: "process list"
  current :: "nat option"
  need_reschedule :: bool
  switch_count :: u32
  blocked_reader :: "nat option"
  wake_hint :: "nat option"
  rx_q :: rx_ring
  tx :: "u8 list"
  tick_count :: u32
  user_handler :: "timer_handler option"
  irq_table :: "nat \<Rightarrow> irq_handler option"
  eoi_log :: "u32 list"
  boot_pgd :: pgd
  proc_pgd :: "nat \<Rightarrow> pgd"
  ttbr0 :: u32
  sp_usr :: u32
  lr_usr :: u32
  pmem :: "u32 \<Rightarrow> u8"
  kstack :: "u32 \<Rightarrow> u32"
  conts :: "nat \<Rightarrow> kcont"
  frames :: "nat \<Rightarrow> exception_context"
  ub :: bool

text \<open>Access to the process table through an index, the model of a \<open>process_t *\<close>.\<close>

definition pstate :: "kernel \<Rightarrow> nat \<Rightarrow> task_state" where
  "pstate k i = p_state (processes k ! i)"

definition upd_proc :: "nat \<Rightarrow> (process \<Rightarrow> process) \<Rightarrow> kernel \<Rightarrow> kernel" where
  "upd_proc i f k = k\<lparr>processes := (processes k)[i := f (processes k ! i)]\<rparr>"

definition set_state :: "nat \<Rightarrow> task_state \<Rightarrow> kernel \<Rightarrow> kernel" where
  "set_state i st = upd_proc i (\<lambda>p. p\<lparr>p_state := st\<rparr>)"

text \<open>\<open>uart_printf\<close> on the kernel's console.\<close>

definition kprintf :: "u8 list \<Rightarrow> va list \<Rightarrow> kernel \<Rightarrow> kernel" where
  "kprintf fmt args k =
     (case uart_printf fmt args of
        Some out \<Rightarrow> k\<lparr>tx := tx k @ out\<rparr>
      | None \<Rightarrow> k\<lparr>ub := True\<rparr>)"

section \<open>Memory through the active table\<close>

text \<open>
  The table TTBR0 points at: that of the process whose \<open>pgd_pa\<close>, with the walk attributes
  \<open>0x4A\<close>, is in the register, and \<open>boot_pgd\<close> before the first switch.
\<close>

definition TTBR_ATTRS :: u32 where
  "TTBR_ATTRS = 0x4A"

definition active_pgd :: "kernel \<Rightarrow> pgd" where
  "active_pgd k =
     (case find (\<lambda>i. p_pgd_pa (processes k ! i) OR TTBR_ATTRS = ttbr0 k) [0..<length (processes k)] of
        Some i \<Rightarrow> proc_pgd k i
      | None \<Rightarrow> boot_pgd k)"

text \<open>Byte access from kernel mode; \<open>None\<close> is a data abort taken in the kernel.\<close>

definition vload :: "u32 \<Rightarrow> kernel \<Rightarrow> u8 option" where
  "vload va k = map_option (pmem k) (section_lookup False (active_pgd k) va)"

definition vstore :: "u32 \<Rightarrow> u8 \<Rightarrow> kernel \<Rightarrow> kernel option" where
  "vstore va b k =
     map_option (\<lambda>pa. k\<lparr>pmem := (pmem k)(pa := b)\<rparr>) (section_lookup False (active_pgd k) va)"

section \<open>Lemmas on the state\<close>

lemma upd_proc_simps [simp]:
  "current (upd_proc i f k) = current k"
  "need_reschedule (upd_proc i f k) = need_reschedule k"
  "switch_count (upd_proc i f k) = switch_count k"
  "blocked_reader (upd_proc i f k) = blocked_reader k"
  "wake_hint (upd_proc i f k) = wake_hint k"
  "rx_q (upd_proc i f k) = rx_q k" "tx (upd_proc i f k) = tx k"
  "tick_count (upd_proc i f k) = tick_count k"
  "user_handler (upd_proc i f k) = user_handler k"
  "irq_table (upd_proc i f k) = irq_table k" "eoi_log (upd_proc i f k) = eoi_log k"
  "boot_pgd (upd_proc i f k) = boot_pgd k" "proc_pgd (upd_proc i f k) = proc_pgd k"
  "ttbr0 (upd_proc i f k) = ttbr0 k" "sp_usr (upd_proc i f k) = sp_usr k"
  "lr_usr (upd_proc i f k) = lr_usr k" "pmem (upd_proc i f k) = pmem k"
  "kstack (upd_proc i f k) = kstack k" "conts (upd_proc i f k) = conts k"
  "frames (upd_proc i f k) = frames k" "ub (upd_proc i f k) = ub k"
  by (simp_all add: upd_proc_def)

lemma length_upd_proc [simp]: "length (processes (upd_proc i f k)) = length (processes k)"
  by (simp add: upd_proc_def)

lemma nth_upd_proc:
  "i < length (processes k) \<Longrightarrow>
   processes (upd_proc i f k) ! j = (if j = i then f (processes k ! i) else processes k ! j)"
  by (simp add: upd_proc_def nth_list_update)

lemma set_state_simps [simp]:
  "current (set_state i st k) = current k"
  "need_reschedule (set_state i st k) = need_reschedule k"
  "blocked_reader (set_state i st k) = blocked_reader k"
  "wake_hint (set_state i st k) = wake_hint k"
  "rx_q (set_state i st k) = rx_q k" "tx (set_state i st k) = tx k"
  "proc_pgd (set_state i st k) = proc_pgd k" "ttbr0 (set_state i st k) = ttbr0 k"
  "pmem (set_state i st k) = pmem k" "conts (set_state i st k) = conts k"
  "frames (set_state i st k) = frames k" "ub (set_state i st k) = ub k"
  "boot_pgd (set_state i st k) = boot_pgd k" "kstack (set_state i st k) = kstack k"
  "length (processes (set_state i st k)) = length (processes k)"
  by (simp_all add: set_state_def)

lemma pstate_set_state [simp]:
  "i < length (processes k) \<Longrightarrow> pstate (set_state i st k) j = (if j = i then st else pstate k j)"
  by (simp add: pstate_def set_state_def nth_upd_proc)

text \<open>What identifies a process and where it lives: fixed at boot, never written again.\<close>

definition pcb_static :: "process \<Rightarrow> (u32 \<times> u8 list \<times> u32 \<times> u32) \<times> (u32 \<times> u32 \<times> u32 \<times> u32 \<times> u32)" where
  "pcb_static p = ((p_pid p, p_name p, p_pgd p, p_pgd_pa p),
     (p_kstack_base p, p_kstack_size p, p_user_entry p, p_user_stack_top p, p_user_phys_base p))"

definition statics :: "kernel \<Rightarrow> _ list" where
  "statics k = map pcb_static (processes k)"

lemma statics_upd_proc:
  "i < length (processes k) \<Longrightarrow> (\<And>p. pcb_static (f p) = pcb_static p) \<Longrightarrow> statics (upd_proc i f k) = statics k"
  by (simp add: statics_def upd_proc_def list_eq_iff_nth_eq nth_list_update)

lemma statics_set_state [simp]: "statics (set_state i st k) = statics k"
proof (cases "i < length (processes k)")
  case True
  then show ?thesis by (simp add: set_state_def statics_upd_proc pcb_static_def)
next
  case False
  then show ?thesis by (simp add: set_state_def upd_proc_def statics_def list_update_beyond)
qed

end
