(* ===== verification/Sched.thy ===== *)
theory Sched
  imports Kstate
begin

text \<open>
  The scheduler, \<open>kernel/sched/scheduler.c\<close>, with the context switch it performs. A pointer
  to a process is its index in the table. \<open>schedule\<close> takes the continuation of its caller,
  which is what \<open>context_switch\<close> leaves on the outgoing stack, and returns whether control
  left for another process.

  The choice of the next process is stated through the locale \<open>round_robin\<close>: the ring walk
  of \<open>schedule\<close> satisfies its laws, and the bound on how long a runnable process waits is
  proved from the laws alone.
\<close>

section \<open>Requests\<close>

definition scheduler_tick :: "kernel \<Rightarrow> kernel" where
  "scheduler_tick k = k\<lparr>need_reschedule := True\<rparr>"

definition scheduler_request_resched :: "kernel \<Rightarrow> kernel" where
  "scheduler_request_resched k = k\<lparr>need_reschedule := True\<rparr>"

section \<open>Switching\<close>

text \<open>
  \<open>context_switch\<close>: save side (skipped for \<open>prev = NULL\<close>), then TTBR0 and the banked USR
  registers of the next process.
\<close>

definition context_switch :: "nat option \<Rightarrow> nat \<Rightarrow> kcont \<Rightarrow> kernel \<Rightarrow> kernel" where
  "context_switch prev nxt rc k =
     (let k = (case prev of
                 None \<Rightarrow> k
               | Some p \<Rightarrow>
                   (upd_proc p (\<lambda>q. q\<lparr>p_ctx := (p_ctx q)\<lparr>c_sp_usr := sp_usr k, c_lr_usr := lr_usr k\<rparr>\<rparr>) k)
                     \<lparr>conts := (conts k)(p := rc)\<rparr>)
      in k\<lparr>ttbr0 := p_pgd_pa (processes k ! nxt) OR TTBR_ATTRS,
           sp_usr := c_sp_usr (p_ctx (processes k ! nxt)),
           lr_usr := c_lr_usr (p_ctx (processes k ! nxt))\<rparr>)"

definition perform_switch :: "nat \<Rightarrow> nat \<Rightarrow> kcont \<Rightarrow> kernel \<Rightarrow> kernel" where
  "perform_switch prev cand rc k =
     (let k = k\<lparr>switch_count := switch_count k + 1\<rparr>;
          k = (if pstate k prev = TASK_RUNNING then set_state prev TASK_READY k else k);
          k = set_state cand TASK_RUNNING k;
          k = k\<lparr>current := Some cand\<rparr>
      in context_switch (Some prev) cand rc k)"

definition runnable :: "task_state \<Rightarrow> bool" where
  "runnable st \<longleftrightarrow> st = TASK_READY \<or> st = TASK_RUNNING"

text \<open>The loop of \<open>schedule\<close> over the ring, \<open>ok\<close> being the test on the candidate's state.\<close>

function ring_walk :: "(nat \<Rightarrow> bool) \<Rightarrow> nat \<Rightarrow> u32 \<Rightarrow> u32 \<Rightarrow> nat option" where
  "ring_walk ok prev start i =
     (if i < NUM_PROCESSES then
        (let idx = (start + i) mod NUM_PROCESSES; cand = unat idx in
         if cand = prev then ring_walk ok prev start (i + 1)
         else if \<not> ok cand then ring_walk ok prev start (i + 1)
         else Some cand)
      else None)"
  by pat_completeness auto
termination
proof (relation "measure (\<lambda>(ok, prev, start, i). 3 - unat i)")
  have "3 - unat (i + 1) < 3 - unat i" if "i < (3 :: u32)" for i
  proof -
    have lt: "unat i < 3" using that by (simp add: word_less_nat_alt)
    then have "unat (i + 1) = Suc (unat i)" by (simp add: unat_word_ariths)
    with lt show ?thesis by simp
  qed
  then show "\<And>ok prev start i x cand. i < NUM_PROCESSES \<Longrightarrow>
      x = (start + i) mod NUM_PROCESSES \<Longrightarrow> cand = unat x \<Longrightarrow> cand = prev \<Longrightarrow>
      ((ok, prev, start, i + 1), ok, prev, start, i) \<in> measure (\<lambda>(ok, prev, start, i). 3 - unat i)"
    and "\<And>ok prev start i x cand. i < NUM_PROCESSES \<Longrightarrow>
      x = (start + i) mod NUM_PROCESSES \<Longrightarrow> cand = unat x \<Longrightarrow> cand \<noteq> prev \<Longrightarrow> \<not> ok cand \<Longrightarrow>
      ((ok, prev, start, i + 1), ok, prev, start, i) \<in> measure (\<lambda>(ok, prev, start, i). 3 - unat i)"
    by (simp_all add: NUM_PROCESSES_def)
qed simp

declare ring_walk.simps [simp del]

definition schedule :: "kcont \<Rightarrow> kernel \<Rightarrow> kernel \<times> bool" where
  "schedule rc k =
     (case current k of
        None \<Rightarrow> (k, False)
      | Some prev \<Rightarrow>
          if \<not> need_reschedule k then (k, False)
          else
            (let k = k\<lparr>need_reschedule := False\<rparr>;
                 hint = wake_hint k;
                 k = k\<lparr>wake_hint := None\<rparr>;
                 walk = (let start = (p_pid (processes k ! prev) + 1) mod NUM_PROCESSES in
                         case ring_walk (\<lambda>c. runnable (pstate k c)) prev start 0 of
                           Some cand \<Rightarrow> (perform_switch prev cand rc k, True)
                         | None \<Rightarrow> (k, False))
             in case hint of
                  Some h \<Rightarrow>
                    if h \<noteq> prev \<and> runnable (pstate k h) then (perform_switch prev h rc k, True)
                    else walk
                | None \<Rightarrow> walk))"

section \<open>Blocking and waking\<close>

definition scheduler_block_on_input :: "kcont \<Rightarrow> kernel \<Rightarrow> kernel \<times> bool" where
  "scheduler_block_on_input rc k =
     (case current k of
        None \<Rightarrow> (k, False)
      | Some c \<Rightarrow>
          (let k = set_state c TASK_BLOCKED k;
               k = k\<lparr>blocked_reader := Some c\<rparr>;
               k = k\<lparr>need_reschedule := True\<rparr>
           in schedule rc k))"

definition scheduler_wake_reader :: "kernel \<Rightarrow> kernel" where
  "scheduler_wake_reader k =
     (case blocked_reader k of
        None \<Rightarrow> k
      | Some p \<Rightarrow>
          if pstate k p = TASK_BLOCKED then
            (set_state p TASK_READY k)
              \<lparr>blocked_reader := None, wake_hint := Some p, need_reschedule := True\<rparr>
          else k)"

section \<open>The round-robin contract\<close>

text \<open>How far \<open>b\<close> is from \<open>a\<close> going up around a ring of \<open>n\<close> slots.\<close>

definition ring_dist :: "nat \<Rightarrow> nat \<Rightarrow> nat \<Rightarrow> nat" where
  "ring_dist n a b = (if a \<le> b then b - a else b + n - a)"

lemma ring_dist_pos: "a < n \<Longrightarrow> b < n \<Longrightarrow> a \<noteq> b \<Longrightarrow> 0 < ring_dist n a b \<and> ring_dist n a b < n"
  by (auto simp: ring_dist_def)

lemma ring_dist_sub:
  assumes "a < n" "b < n" "c < n" "ring_dist n a b \<le> ring_dist n a c"
  shows "ring_dist n b c = ring_dist n a c - ring_dist n a b"
  using assms by (simp add: ring_dist_def split: if_splits)

locale round_robin =
  fixes n :: nat
    and pick :: "(nat \<Rightarrow> bool) \<Rightarrow> nat \<Rightarrow> nat option"
  assumes pick_sound: "cur < n \<Longrightarrow> pick ok cur = Some c \<Longrightarrow> c < n \<and> c \<noteq> cur \<and> ok c"
    and pick_none: "cur < n \<Longrightarrow> pick ok cur = None \<longleftrightarrow> (\<forall>c < n. c \<noteq> cur \<longrightarrow> \<not> ok c)"
    and pick_nearest: "cur < n \<Longrightarrow> pick ok cur = Some c \<Longrightarrow> d < n \<Longrightarrow> d \<noteq> cur \<Longrightarrow> ok d \<Longrightarrow>
      ring_dist n cur c \<le> ring_dist n cur d"
begin

text \<open>The process that runs after \<open>m\<close> successive choices.\<close>

fun turns :: "nat \<Rightarrow> (nat \<Rightarrow> bool) \<Rightarrow> nat \<Rightarrow> nat" where
  "turns 0 ok cur = cur"
| "turns (Suc m) ok cur = (case pick ok cur of None \<Rightarrow> cur | Some c \<Rightarrow> turns m ok c)"

lemma pick_some: "cur < n \<Longrightarrow> d < n \<Longrightarrow> d \<noteq> cur \<Longrightarrow> ok d \<Longrightarrow> \<exists>c. pick ok cur = Some c"
  using pick_none [of cur ok] by (cases "pick ok cur") auto

text \<open>A runnable process is reached after at most as many choices as it is slots away.\<close>

lemma reached:
  assumes "cur < n" "d < n" "d \<noteq> cur" "ok d"
  shows "\<exists>m. 0 < m \<and> m \<le> ring_dist n cur d \<and> turns m ok cur = d"
  using assms
proof (induction "ring_dist n cur d" arbitrary: cur rule: less_induct)
  case less
  from pick_some [of cur d ok] less.prems obtain c where c: "pick ok cur = Some c" by auto
  have cn: "c < n" "c \<noteq> cur" using pick_sound [OF less.prems(1) c] by simp_all
  have near: "ring_dist n cur c \<le> ring_dist n cur d"
    using pick_nearest [of cur ok c d] less.prems c by simp
  have pos: "0 < ring_dist n cur c" "0 < ring_dist n cur d"
    using ring_dist_pos [OF less.prems(1) cn(1)] ring_dist_pos [OF less.prems(1,2)] less.prems(3) cn(2)
    by simp_all
  show ?case
  proof (cases "c = d")
    case True
    then have "turns 1 ok cur = d" using c by simp
    then show ?thesis using pos by (intro exI [of _ 1]) simp
  next
    case False
    have sub: "ring_dist n c d = ring_dist n cur d - ring_dist n cur c"
      by (rule ring_dist_sub [OF less.prems(1) cn(1) less.prems(2) near])
    then have "ring_dist n c d < ring_dist n cur d" using pos by simp
    from less.hyps [OF this cn(1) less.prems(2) False [symmetric] less.prems(4)]
    obtain m where "0 < m" "m \<le> ring_dist n c d" "turns m ok c = d" by blast
    then show ?thesis using c sub pos by (intro exI [of _ "Suc m"]) simp
  qed
qed

end

section \<open>The ring walk implements it\<close>

definition sched_pick :: "(nat \<Rightarrow> bool) \<Rightarrow> nat \<Rightarrow> nat option" where
  "sched_pick ok cur = ring_walk ok cur ((of_nat cur + 1) mod NUM_PROCESSES) 0"

lemma ring_walk_unroll:
  "ring_walk ok prev start 0 =
     (let c0 = unat (start mod 3); c1 = unat ((start + 1) mod 3); c2 = unat ((start + 2) mod 3) in
      if c0 \<noteq> prev \<and> ok c0 then Some c0
      else if c1 \<noteq> prev \<and> ok c1 then Some c1
      else if c2 \<noteq> prev \<and> ok c2 then Some c2
      else None)"
  by (simp add: ring_walk.simps [of ok prev start 0] ring_walk.simps [of ok prev start 1]
      ring_walk.simps [of ok prev start 2] ring_walk.simps [of ok prev start 3] NUM_PROCESSES_def Let_def)

lemma sched_pick_cases:
  "sched_pick ok 0 = (if ok 1 then Some 1 else if ok 2 then Some 2 else None)"
  "sched_pick ok (Suc 0) = (if ok 2 then Some 2 else if ok 0 then Some 0 else None)"
  "sched_pick ok 2 = (if ok 0 then Some 0 else if ok 1 then Some 1 else None)"
  by (simp_all add: sched_pick_def ring_walk_unroll NUM_PROCESSES_def)

interpretation rr: round_robin 3 sched_pick
proof unfold_locales
  fix cur :: nat and ok c
  assume cur: "cur < 3"
  note cases3 = less_3_cases [OF cur]
  show "sched_pick ok cur = Some c \<Longrightarrow> c < 3 \<and> c \<noteq> cur \<and> ok c"
    using cases3 by (auto simp: sched_pick_cases split: if_splits)
  show "sched_pick ok cur = None \<longleftrightarrow> (\<forall>c < 3. c \<noteq> cur \<longrightarrow> \<not> ok c)"
    using cases3 by (auto simp: sched_pick_cases all_less_3 split: if_splits)
  show "sched_pick ok cur = Some c \<Longrightarrow> d < 3 \<Longrightarrow> d \<noteq> cur \<Longrightarrow> ok d \<Longrightarrow>
      ring_dist 3 cur c \<le> ring_dist 3 cur d" for d
    using cases3 less_3_cases [of d] by (auto simp: sched_pick_cases ring_dist_def split: if_splits)
qed

section \<open>Effects of a switch\<close>

lemma context_switch_frame [frame]:
  "current (context_switch p n rc k) = current k"
  "need_reschedule (context_switch p n rc k) = need_reschedule k"
  "switch_count (context_switch p n rc k) = switch_count k"
  "blocked_reader (context_switch p n rc k) = blocked_reader k"
  "wake_hint (context_switch p n rc k) = wake_hint k"
  "rx_q (context_switch p n rc k) = rx_q k" "tx (context_switch p n rc k) = tx k"
  "tick_count (context_switch p n rc k) = tick_count k"
  "user_handler (context_switch p n rc k) = user_handler k"
  "irq_table (context_switch p n rc k) = irq_table k"
  "eoi_log (context_switch p n rc k) = eoi_log k"
  "boot_pgd (context_switch p n rc k) = boot_pgd k"
  "proc_pgd (context_switch p n rc k) = proc_pgd k"
  "pmem (context_switch p n rc k) = pmem k" "kstack (context_switch p n rc k) = kstack k"
  "frames (context_switch p n rc k) = frames k" "ub (context_switch p n rc k) = ub k"
  "length (processes (context_switch p n rc k)) = length (processes k)"
  by (cases p; simp add: context_switch_def Let_def)+

lemma context_switch_conts:
  "conts (context_switch p n rc k) = (case p of None \<Rightarrow> conts k | Some q \<Rightarrow> (conts k)(q := rc))"
  by (cases p) (simp_all add: context_switch_def Let_def)

lemma context_switch_statics:
  "case_option True (\<lambda>q. q < length (processes k)) p \<Longrightarrow> statics (context_switch p n rc k) = statics k"
  using statics_upd_proc [where k = k]
  by (cases p) (simp_all add: context_switch_def Let_def statics_def pcb_static_def
      list_eq_iff_nth_eq nth_upd_proc)

lemma context_switch_pstate:
  "case_option True (\<lambda>q. q < length (processes k)) p \<Longrightarrow> pstate (context_switch p n rc k) i = pstate k i"
  by (cases p) (simp_all add: context_switch_def Let_def pstate_def nth_upd_proc)

lemma context_switch_ttbr0:
  "case_option True (\<lambda>q. q < length (processes k)) p \<Longrightarrow>
   ttbr0 (context_switch p n rc k) = p_pgd_pa (processes k ! n) OR TTBR_ATTRS"
  by (cases p) (simp_all add: context_switch_def Let_def nth_upd_proc)

lemma statics_nth:
  assumes "statics k' = statics k" "i < length (processes k)"
  shows "pcb_static (processes k' ! i) = pcb_static (processes k ! i)"
proof -
  have "length (processes k') = length (processes k)"
    using assms(1) by (metis length_map statics_def)
  then show ?thesis using assms nth_map [of i "processes k'" pcb_static] nth_map [of i "processes k" pcb_static]
    by (simp add: statics_def)
qed

lemma statics_fields:
  assumes "statics k' = statics k" "i < length (processes k)"
  shows "p_pid (processes k' ! i) = p_pid (processes k ! i)"
    and "p_name (processes k' ! i) = p_name (processes k ! i)"
    and "p_pgd_pa (processes k' ! i) = p_pgd_pa (processes k ! i)"
    and "p_user_phys_base (processes k' ! i) = p_user_phys_base (processes k ! i)"
  using statics_nth [OF assms] by (simp_all add: pcb_static_def)

lemma statics_length: "statics k' = statics k \<Longrightarrow> length (processes k') = length (processes k)"
  by (metis length_map statics_def)

lemma perform_switch_frame [frame]:
  "current (perform_switch p n rc k) = Some n"
  "need_reschedule (perform_switch p n rc k) = need_reschedule k"
  "switch_count (perform_switch p n rc k) = switch_count k + 1"
  "blocked_reader (perform_switch p n rc k) = blocked_reader k"
  "wake_hint (perform_switch p n rc k) = wake_hint k"
  "rx_q (perform_switch p n rc k) = rx_q k" "tx (perform_switch p n rc k) = tx k"
  "boot_pgd (perform_switch p n rc k) = boot_pgd k"
  "proc_pgd (perform_switch p n rc k) = proc_pgd k"
  "pmem (perform_switch p n rc k) = pmem k" "frames (perform_switch p n rc k) = frames k"
  "ub (perform_switch p n rc k) = ub k"
  "conts (perform_switch p n rc k) = (conts k)(p := rc)"
  by (simp_all add: perform_switch_def Let_def frame context_switch_conts set_state_def)

lemma perform_switch_effect:
  assumes "p < length (processes k)" "n < length (processes k)" "p \<noteq> n"
  shows "statics (perform_switch p n rc k) = statics k"
    and "pstate (perform_switch p n rc k) i =
      (if i = n then TASK_RUNNING
       else if i = p \<and> pstate k p = TASK_RUNNING then TASK_READY else pstate k i)"
    and "ttbr0 (perform_switch p n rc k) = p_pgd_pa (processes k ! n) OR TTBR_ATTRS"
proof -
  let ?k1 = "k\<lparr>switch_count := switch_count k + 1\<rparr>"
  let ?k2 = "if pstate ?k1 p = TASK_RUNNING then set_state p TASK_READY ?k1 else ?k1"
  let ?k3 = "(set_state n TASK_RUNNING ?k2)\<lparr>current := Some n\<rparr>"
  have ps: "perform_switch p n rc k = context_switch (Some p) n rc ?k3"
    by (simp add: perform_switch_def Let_def)
  have len: "length (processes ?k3) = length (processes k)" by simp
  have st: "statics ?k3 = statics k"
    using statics_set_state [of n TASK_RUNNING ?k2] statics_set_state [of p TASK_READY ?k1]
    by (simp add: statics_def split: if_splits)
  show "statics (perform_switch p n rc k) = statics k"
    unfolding ps using assms st by (simp add: context_switch_statics len)
  show "pstate (perform_switch p n rc k) i =
      (if i = n then TASK_RUNNING
       else if i = p \<and> pstate k p = TASK_RUNNING then TASK_READY else pstate k i)"
    unfolding ps using assms by (simp add: context_switch_pstate len) (simp add: pstate_def set_state_def nth_upd_proc)
  show "ttbr0 (perform_switch p n rc k) = p_pgd_pa (processes k ! n) OR TTBR_ATTRS"
    unfolding ps using assms statics_fields(3) [OF st] by (simp add: context_switch_ttbr0 len)
qed

section \<open>The invariant of the scheduler\<close>

text \<open>
  Three processes whose pids are their indices; a current process, the only one that can be
  RUNNING, whose page table is in TTBR0; and wait slot and hint inside the table.
\<close>

definition sched_inv :: "kernel \<Rightarrow> bool" where
  "sched_inv k \<longleftrightarrow>
     length (processes k) = 3 \<and>
     (\<forall>i < 3. p_pid (processes k ! i) = of_nat i) \<and>
     (case current k of
        None \<Rightarrow> False
      | Some c \<Rightarrow> c < 3 \<and> (\<forall>i < 3. pstate k i = TASK_RUNNING \<longrightarrow> i = c) \<and>
          ttbr0 k = p_pgd_pa (processes k ! c) OR TTBR_ATTRS) \<and>
     pred_option (\<lambda>b. b < 3) (blocked_reader k) \<and>
     pred_option (\<lambda>h. h < 3) (wake_hint k)"

lemma sched_invD:
  assumes "sched_inv k"
  obtains c where "current k = Some c" "c < 3" "length (processes k) = 3"
    "\<And>i. i < 3 \<Longrightarrow> p_pid (processes k ! i) = of_nat i"
    "\<And>i. i < 3 \<Longrightarrow> pstate k i = TASK_RUNNING \<Longrightarrow> i = c"
    "ttbr0 k = p_pgd_pa (processes k ! c) OR TTBR_ATTRS"
    "pred_option (\<lambda>b. b < 3) (blocked_reader k)" "pred_option (\<lambda>h. h < 3) (wake_hint k)"
  using assms unfolding sched_inv_def by (auto split: option.splits)

text \<open>The process \<open>schedule\<close> switches to: the woken one first, else the ring walk.\<close>

definition sched_target :: "kernel \<Rightarrow> nat \<Rightarrow> nat option" where
  "sched_target k c =
     (case wake_hint k of
        Some h \<Rightarrow> if h \<noteq> c \<and> runnable (pstate k h) then Some h
                  else sched_pick (\<lambda>i. runnable (pstate k i)) c
      | None \<Rightarrow> sched_pick (\<lambda>i. runnable (pstate k i)) c)"

lemma schedule_eq:
  assumes "sched_inv k" "current k = Some c"
  shows "schedule rc k =
    (if need_reschedule k then
       (case sched_target k c of
          Some t \<Rightarrow> (perform_switch c t rc (k\<lparr>need_reschedule := False, wake_hint := None\<rparr>), True)
        | None \<Rightarrow> (k\<lparr>need_reschedule := False, wake_hint := None\<rparr>, False))
     else (k, False))"
proof -
  have c: "c < 3" "p_pid (processes k ! c) = of_nat c"
    using assms by (auto elim!: sched_invD)
  then show ?thesis
    using assms(2)
    by (auto simp: schedule_def Let_def sched_target_def sched_pick_def pstate_def split: option.splits)
qed

lemma sched_target_sound:
  assumes "sched_inv k" "current k = Some c" "sched_target k c = Some t"
  shows "t < 3 \<and> t \<noteq> c \<and> runnable (pstate k t)"
proof -
  have "c < 3" "pred_option (\<lambda>h. h < 3) (wake_hint k)" using assms by (auto elim!: sched_invD)
  then show ?thesis
    using assms(3) rr.pick_sound [of c "\<lambda>i. runnable (pstate k i)" t]
    by (auto simp: sched_target_def split: option.splits if_splits)
qed

lemma sched_target_None:
  assumes "sched_inv k" "current k = Some c"
  shows "sched_target k c = None \<longleftrightarrow> (\<forall>i < 3. i \<noteq> c \<longrightarrow> \<not> runnable (pstate k i))"
proof -
  have "c < 3" "pred_option (\<lambda>h. h < 3) (wake_hint k)" using assms by (auto elim!: sched_invD)
  then show ?thesis
    using rr.pick_none [of c "\<lambda>i. runnable (pstate k i)"]
    by (auto simp: sched_target_def split: option.splits)
qed

text \<open>The invariant, from what a new state keeps of an old one.\<close>

lemma sched_inv_transfer:
  assumes "sched_inv k" "statics k' = statics k" "current k' = Some t" "t < 3"
    and run: "\<And>i. i < 3 \<Longrightarrow> pstate k' i = TASK_RUNNING \<Longrightarrow> i = t"
    and "ttbr0 k' = p_pgd_pa (processes k ! t) OR TTBR_ATTRS"
    and "pred_option (\<lambda>b. b < 3) (blocked_reader k')" "pred_option (\<lambda>h. h < 3) (wake_hint k')"
  shows "sched_inv k'"
proof -
  have len: "length (processes k) = 3" and pid: "\<forall>i < 3. p_pid (processes k ! i) = of_nat i"
    using assms(1) by (simp_all add: sched_inv_def)
  have "length (processes k') = 3" using statics_length [OF assms(2)] len by simp
  moreover have "\<forall>i < 3. p_pid (processes k' ! i) = of_nat i"
    using statics_fields(1) [OF assms(2)] len pid by simp
  moreover have "ttbr0 k' = p_pgd_pa (processes k' ! t) OR TTBR_ATTRS"
    using statics_fields(3) [OF assms(2), of t] len assms(4,6) by simp
  moreover have "\<forall>i < 3. pstate k' i = TASK_RUNNING \<longrightarrow> i = t" using run by blast
  ultimately show ?thesis
    unfolding sched_inv_def using assms(3,4,7,8) by (simp only: option.case simp_thms)
qed

lemma sched_inv_switch:
  assumes "sched_inv k" "current k = Some c" "t < 3" "t \<noteq> c"
  shows "sched_inv (perform_switch c t rc (k\<lparr>need_reschedule := False, wake_hint := None\<rparr>))"
proof -
  let ?k = "k\<lparr>need_reschedule := False, wake_hint := None\<rparr>"
  define k' where "k' = perform_switch c t rc ?k"
  obtain c: "c < 3" and len: "length (processes k) = 3"
    and run: "\<And>i. i < 3 \<Longrightarrow> pstate k i = TASK_RUNNING \<Longrightarrow> i = c"
    and br: "pred_option (\<lambda>b. b < 3) (blocked_reader k)"
    using assms(1,2) by (auto elim!: sched_invD)
  have st: "statics k' = statics k"
    and ps: "pstate k' i = (if i = t then TASK_RUNNING
      else if i = c \<and> pstate k c = TASK_RUNNING then TASK_READY else pstate k i)"
    and tt: "ttbr0 k' = p_pgd_pa (processes k ! t) OR TTBR_ATTRS" for i
    using perform_switch_effect [of c ?k t rc] assms c len
    by (simp_all add: statics_def pstate_def k'_def)
  have fr: "current k' = Some t" "blocked_reader k' = blocked_reader k" "wake_hint k' = None"
    by (simp_all add: k'_def frame)
  have "i = t" if "i < 3" "pstate k' i = TASK_RUNNING" for i
  proof (rule ccontr)
    assume "i \<noteq> t"
    with ps [of i] that have "i \<noteq> c" "pstate k i = TASK_RUNNING" by (auto split: if_splits)
    with run [OF that(1)] show False by simp
  qed
  then have "sched_inv k'"
    by (rule sched_inv_transfer [OF assms(1) st fr(1) assms(3) _ tt]) (simp_all add: fr br)
  then show ?thesis by (simp add: k'_def)
qed

lemma sched_inv_reset: "sched_inv k \<Longrightarrow> sched_inv (k\<lparr>need_reschedule := b, wake_hint := None\<rparr>)"
  by (auto simp: sched_inv_def pstate_def split: option.splits)

lemma schedule_inv: "sched_inv k \<Longrightarrow> sched_inv (fst (schedule rc k))"
proof -
  assume inv: "sched_inv k"
  then obtain c where c: "current k = Some c" by (auto elim!: sched_invD)
  then show ?thesis
    using inv sched_inv_switch [OF inv c] sched_target_sound [OF inv c] sched_inv_reset [OF inv]
    by (auto simp: schedule_eq [OF inv c] split: option.splits)
qed

lemma schedule_frame [frame]:
  assumes "sched_inv k"
  shows "rx_q (fst (schedule rc k)) = rx_q k" "tx (fst (schedule rc k)) = tx k"
    "boot_pgd (fst (schedule rc k)) = boot_pgd k" "proc_pgd (fst (schedule rc k)) = proc_pgd k"
    "pmem (fst (schedule rc k)) = pmem k" "frames (fst (schedule rc k)) = frames k"
    "ub (fst (schedule rc k)) = ub k" "blocked_reader (fst (schedule rc k)) = blocked_reader k"
    "\<not> need_reschedule (fst (schedule rc k))"
    "need_reschedule k \<Longrightarrow> wake_hint (fst (schedule rc k)) = None"
proof -
  obtain c where "current k = Some c" using assms by (auto elim!: sched_invD)
  note eq = schedule_eq [OF assms this, of rc]
  show "rx_q (fst (schedule rc k)) = rx_q k" "tx (fst (schedule rc k)) = tx k"
    "boot_pgd (fst (schedule rc k)) = boot_pgd k" "proc_pgd (fst (schedule rc k)) = proc_pgd k"
    "pmem (fst (schedule rc k)) = pmem k" "frames (fst (schedule rc k)) = frames k"
    "ub (fst (schedule rc k)) = ub k" "blocked_reader (fst (schedule rc k)) = blocked_reader k"
    "\<not> need_reschedule (fst (schedule rc k))"
    "need_reschedule k \<Longrightarrow> wake_hint (fst (schedule rc k)) = None"
    by (auto simp: eq frame split: option.splits)
qed

lemma schedule_statics:
  assumes "sched_inv k"
  shows "statics (fst (schedule rc k)) = statics k"
proof -
  obtain c where c: "current k = Some c" "c < 3" "length (processes k) = 3"
    using assms by (auto elim!: sched_invD)
  let ?k = "k\<lparr>need_reschedule := False, wake_hint := None\<rparr>"
  have same: "statics ?k = statics k" by (simp add: statics_def)
  show ?thesis
    using perform_switch_effect(1) [of c ?k _ rc] sched_target_sound [OF assms c(1)] c same
    by (auto simp: schedule_eq [OF assms c(1)] split: option.splits)
qed

lemma schedule_pstate:
  assumes "sched_inv k" "current k = Some c"
  shows "pstate (fst (schedule rc k)) i =
    (if snd (schedule rc k) then
       (if Some i = current (fst (schedule rc k)) then TASK_RUNNING
        else if i = c \<and> pstate k c = TASK_RUNNING then TASK_READY else pstate k i)
     else pstate k i)"
proof -
  have c: "c < 3" "length (processes k) = 3" using assms by (auto elim!: sched_invD)
  let ?k = "k\<lparr>need_reschedule := False, wake_hint := None\<rparr>"
  have same: "pstate ?k j = pstate k j" for j by (simp add: pstate_def)
  show ?thesis
    using perform_switch_effect(2) [of c ?k _ rc i] sched_target_sound [OF assms] c same
    by (auto simp: schedule_eq [OF assms] frame split: option.splits)
qed

lemma schedule_away:
  assumes "sched_inv k" "current k = Some c" "schedule rc k = (k', True)"
  obtains t where "sched_target k c = Some t" "t < 3" "t \<noteq> c" "runnable (pstate k t)"
    "current k' = Some t" "pstate k' t = TASK_RUNNING" "conts k' = (conts k)(c := rc)"
proof -
  from assms(3) obtain t where t: "sched_target k c = Some t" and need: "need_reschedule k"
    and k': "k' = perform_switch c t rc (k\<lparr>need_reschedule := False, wake_hint := None\<rparr>)"
    by (auto simp: schedule_eq [OF assms(1,2)] split: if_splits option.splits)
  have "current k' = Some t" "conts k' = (conts k)(c := rc)" by (simp_all add: k' frame)
  moreover have "pstate k' t = TASK_RUNNING"
    using schedule_pstate [OF assms(1,2), of rc t] assms(3) calculation by simp
  ultimately show ?thesis using that t sched_target_sound [OF assms(1,2) t] by blast
qed

lemma schedule_stay:
  assumes "sched_inv k" "current k = Some c" "schedule rc k = (k', False)"
  shows "current k' = Some c" "conts k' = conts k" "\<And>i. pstate k' i = pstate k i"
    "need_reschedule k \<Longrightarrow> \<forall>i < 3. i \<noteq> c \<longrightarrow> \<not> runnable (pstate k i)"
proof -
  show "current k' = Some c" "conts k' = conts k" "\<And>i. pstate k' i = pstate k i"
    using assms by (auto simp: schedule_eq [OF assms(1,2)] pstate_def split: if_splits option.splits)
  show "need_reschedule k \<Longrightarrow> \<forall>i < 3. i \<noteq> c \<longrightarrow> \<not> runnable (pstate k i)"
    using assms(3) sched_target_None [OF assms(1,2)]
    by (auto simp: schedule_eq [OF assms(1,2)] split: option.splits)
qed

section \<open>The other operations keep the invariant\<close>

lemma sched_inv_request [simp]:
  "sched_inv (scheduler_request_resched k) = sched_inv k"
  "sched_inv (scheduler_tick k) = sched_inv k"
  by (simp_all add: sched_inv_def scheduler_request_resched_def scheduler_tick_def pstate_def
      cong: option.case_cong)

lemma sched_inv_set_state:
  assumes "sched_inv k" "i < 3" "st = TASK_RUNNING \<Longrightarrow> current k = Some i"
  shows "sched_inv (set_state i st k)"
proof -
  obtain c where c: "current k = Some c" "c < 3" "length (processes k) = 3"
    and run: "\<And>i. i < 3 \<Longrightarrow> pstate k i = TASK_RUNNING \<Longrightarrow> i = c"
    and tt: "ttbr0 k = p_pgd_pa (processes k ! c) OR TTBR_ATTRS"
    and br: "pred_option (\<lambda>b. b < 3) (blocked_reader k)" "pred_option (\<lambda>h. h < 3) (wake_hint k)"
    using assms(1) by (auto elim!: sched_invD)
  have run': "j = c" if "j < 3" "pstate (set_state i st k) j = TASK_RUNNING" for j
  proof (cases "j = i")
    case True
    then have "st = TASK_RUNNING" using that(2) c(3) assms(2) by simp
    then show ?thesis using assms(3) c(1) True by simp
  next
    case False
    then have "pstate k j = TASK_RUNNING" using that(2) c(3) assms(2) by simp
    then show ?thesis by (rule run [OF that(1)])
  qed
  show ?thesis
    by (rule sched_inv_transfer [OF assms(1) statics_set_state _ c(2) run'])
      (use tt c br in \<open>simp_all\<close>)
qed

lemma sched_inv_block_slot:
  "sched_inv k \<Longrightarrow> pred_option (\<lambda>b. b < 3) br \<Longrightarrow> sched_inv (k\<lparr>blocked_reader := br, need_reschedule := nr\<rparr>)"
  by (simp add: sched_inv_def pstate_def cong: option.case_cong)

lemma sched_inv_hint_slot:
  "sched_inv k \<Longrightarrow> pred_option (\<lambda>b. b < 3) h \<Longrightarrow>
   sched_inv (k\<lparr>blocked_reader := None, wake_hint := h, need_reschedule := nr\<rparr>)"
  by (simp add: sched_inv_def pstate_def cong: option.case_cong)

definition blocking :: "nat \<Rightarrow> kernel \<Rightarrow> kernel" where
  "blocking c k = (set_state c TASK_BLOCKED k)\<lparr>blocked_reader := Some c, need_reschedule := True\<rparr>"

lemma block_eq:
  "current k = Some c \<Longrightarrow> scheduler_block_on_input rc k = schedule rc (blocking c k)"
  by (simp add: scheduler_block_on_input_def blocking_def Let_def)

lemma blocking_inv: "sched_inv k \<Longrightarrow> c < 3 \<Longrightarrow> sched_inv (blocking c k)"
  unfolding blocking_def by (intro sched_inv_block_slot sched_inv_set_state) auto

lemma blocking_simps [simp]:
  "current (blocking c k) = current k" "need_reschedule (blocking c k)"
  "blocked_reader (blocking c k) = Some c" "rx_q (blocking c k) = rx_q k" "tx (blocking c k) = tx k"
  "pmem (blocking c k) = pmem k" "frames (blocking c k) = frames k" "ub (blocking c k) = ub k"
  "proc_pgd (blocking c k) = proc_pgd k" "boot_pgd (blocking c k) = boot_pgd k"
  "conts (blocking c k) = conts k" "wake_hint (blocking c k) = wake_hint k"
  by (simp_all add: blocking_def)

lemma statics_blocking [simp]: "statics (blocking c k) = statics k"
  using statics_set_state [of c TASK_BLOCKED k] by (simp add: blocking_def statics_def)

lemma blocking_pstate:
  "c < length (processes k) \<Longrightarrow> pstate (blocking c k) i = (if i = c then TASK_BLOCKED else pstate k i)"
  using pstate_set_state [of c k TASK_BLOCKED i] by (simp add: blocking_def pstate_def)

lemma wake_reader_inv: "sched_inv k \<Longrightarrow> sched_inv (scheduler_wake_reader k)"
proof -
  assume inv: "sched_inv k"
  then have br: "pred_option (\<lambda>b. b < 3) (blocked_reader k)" by (auto elim!: sched_invD)
  show ?thesis
  proof (cases "blocked_reader k")
    case None
    then show ?thesis using inv by (simp add: scheduler_wake_reader_def)
  next
    case (Some p)
    then have "p < 3" using br by simp
    then show ?thesis using inv Some
      by (auto simp: scheduler_wake_reader_def intro!: sched_inv_hint_slot sched_inv_set_state)
  qed
qed

end
