(* ===== verification/Kmem.thy ===== *)
theory Kmem
  imports Sched
begin

text \<open>
  User memory as the kernel sees it during a system call: \<open>valid_user_ptr\<close> of
  \<open>kernel/syscall/syscall.c\<close>, and the translation of the 1 MB user window through the table
  that TTBR0 points at. The invariant \<open>kinv\<close> collects what every handler relies on and keeps.
\<close>

section \<open>The pointer validator\<close>

definition valid_user_ptr :: "u32 \<Rightarrow> u32 \<Rightarrow> bool" where
  "valid_user_ptr p len =
     (let addr = p; end = addr + len in
      if end < addr then False
      else if addr < USER_VIRT_BASE then False
      else if end > USER_VIRT_BASE + USER_REGION_SIZE then False
      else True)"

lemma valid_user_ptr_iff:
  "valid_user_ptr p len \<longleftrightarrow> 0x40000000 \<le> unat p \<and> unat p + unat len \<le> 0x40100000"
proof (cases "unat p + unat len < 4294967296")
  case True
  then have "unat (p + len) = unat p + unat len" by (simp add: unat_word_ariths)
  then show ?thesis
    by (auto simp: valid_user_ptr_def Let_def kconst word_less_nat_alt word_le_nat_alt)
next
  case False
  then have "unat (p + len) = unat p + unat len - 4294967296"
    using unat_u32_less [of p] unat_u32_less [of len]
    by (simp add: unat_word_ariths) (subst mod_if, simp)
  then show ?thesis using False unat_u32_less [of p] unat_u32_less [of len]
    by (auto simp: valid_user_ptr_def Let_def kconst word_less_nat_alt)
qed

lemma valid_user_ptr_window:
  assumes "valid_user_ptr p len" "i < len"
  shows "in_user_window (p + i)"
proof -
  have "unat p + unat i < 0x40100000" "0x40000000 \<le> unat p"
    using assms by (auto simp: valid_user_ptr_iff word_less_nat_alt)
  then show ?thesis
    by (auto simp: in_user_window_def kconst word_less_nat_alt word_le_nat_alt unat_word_ariths)
qed

section \<open>The invariant of the kernel\<close>

text \<open>Distinct tables for distinct processes, each with the user section of its owner.\<close>

definition mem_inv :: "platform \<Rightarrow> kernel \<Rightarrow> bool" where
  "mem_inv pl k \<longleftrightarrow>
     (\<forall>i < 3. \<forall>j < 4096. proc_pgd k i j = proc_desc pl (user_slot pl i) j) \<and>
     (\<forall>i < 3. \<forall>j < 3. p_pgd_pa (processes k ! i) OR TTBR_ATTRS = p_pgd_pa (processes k ! j) OR TTBR_ATTRS
        \<longrightarrow> i = j)"

text \<open>A reader parked in \<open>sys_read\<close> keeps a validated, non-empty buffer.\<close>

fun cont_ok :: "kcont \<Rightarrow> bool" where
  "cont_ok (K_sys_read buf len) \<longleftrightarrow> 0 < len \<and> valid_user_ptr buf len"
| "cont_ok _ \<longleftrightarrow> True"

text \<open>
  A process that is switched out in \<open>user_fault_kill\<close> is DEAD, so it is never continued there.
\<close>

definition cont_inv :: "kernel \<Rightarrow> bool" where
  "cont_inv k \<longleftrightarrow>
     (\<forall>i < 3. cont_ok (conts k i)) \<and>
     (\<forall>i < 3. Some i \<noteq> current k \<longrightarrow> conts k i = K_user_fault \<longrightarrow> pstate k i = TASK_DEAD)"

definition kinv :: "platform \<Rightarrow> kernel \<Rightarrow> bool" where
  "kinv pl k \<longleftrightarrow> sched_inv k \<and> ring_inv (rx_q k) \<and> mem_inv pl k \<and> cont_inv k \<and> \<not> ub k"

lemma kinvD:
  assumes "kinv pl k"
  shows "sched_inv k" "ring_inv (rx_q k)" "mem_inv pl k" "cont_inv k" "\<not> ub k"
  using assms by (simp_all add: kinv_def)

section \<open>Access to the user window\<close>

text \<open>The physical address of a user virtual address of process \<open>c\<close>.\<close>

definition upa :: "platform \<Rightarrow> nat \<Rightarrow> u32 \<Rightarrow> u32" where
  "upa pl c va = user_slot pl c + (va - USER_VIRT_BASE)"

lemma upa_add: "upa pl c (va + x) = upa pl c va + x"
  by (simp add: upa_def)

lemma active_pgd_current:
  assumes "sched_inv k" "mem_inv pl k" "current k = Some c"
  shows "active_pgd k = proc_pgd k c"
proof -
  from assms(1,3) have c: "c < 3" "length (processes k) = 3"
    and tt: "ttbr0 k = p_pgd_pa (processes k ! c) OR TTBR_ATTRS"
    by (auto elim!: sched_invD)
  have uniq: "p_pgd_pa (processes k ! i) OR TTBR_ATTRS = ttbr0 k \<longleftrightarrow> i = c" if "i < 3" for i
    using assms(2) that c(1) by (auto simp: mem_inv_def tt)
  have "find (\<lambda>i. p_pgd_pa (processes k ! i) OR TTBR_ATTRS = ttbr0 k) [0..<3] = Some c"
    using less_3_cases [OF c(1)] uniq [of 0] uniq [of 1] uniq [of 2]
    by (auto simp: upt_rec [of _ 3] numeral_2_eq_2)
  then show ?thesis by (simp add: active_pgd_def c(2))
qed

lemma user_access:
  assumes "sched_inv k" "mem_inv pl k" "current k = Some c" "in_user_window va"
  shows "vload va k = Some (pmem k (upa pl c va))"
    and "vstore va b k = Some (k\<lparr>pmem := (pmem k)(upa pl c va := b)\<rparr>)"
proof -
  have "c < 3" using assms(1,3) by (auto elim!: sched_invD)
  moreover have "proc_pgd k c (sec_index va) = proc_desc pl (user_slot pl c) (sec_index va)"
    using assms(2) sec_index_less [of va] calculation by (simp add: mem_inv_def)
  ultimately have "section_lookup False (active_pgd k) va = Some (upa pl c va)"
    unfolding active_pgd_current [OF assms(1-3)] upa_def
    by (intro user_window_lookup [OF _ assms(4)])
  then show "vload va k = Some (pmem k (upa pl c va))"
    and "vstore va b k = Some (k\<lparr>pmem := (pmem k)(upa pl c va := b)\<rparr>)"
    by (simp_all add: vload_def vstore_def)
qed

text \<open>Distinct processes, distinct physical bytes; no user byte below the slots.\<close>

lemma unat_upa:
  assumes "c < 3" "in_user_window va"
  shows "unat (upa pl c va) = unat (RAM_BASE (board_of pl)) + (2 + c) * 1048576 + unat va mod 1048576"
proof -
  have w: "0x40000000 \<le> unat va" "unat va < 0x40100000"
    using assms(2) by (simp_all add: in_user_window_def kconst word_le_nat_alt word_less_nat_alt)
  then have "unat (va - USER_VIRT_BASE) = unat va - 0x40000000"
    by (simp add: unat_sub word_le_nat_alt USER_VIRT_BASE_def)
  also have "\<dots> = unat va mod 1048576"
    using w by (simp add: le_mod_geq mod_nat_eqI [of "unat va - 0x40000000"])
  finally have off: "unat (va - USER_VIRT_BASE) = unat va mod 1048576" .
  have "unat (RAM_BASE (board_of pl)) \<le> 0x80000000" by (cases pl) (simp_all add: board_defs)
  moreover have "unat va mod 1048576 < 1048576" by simp
  moreover have "(2 + c) * 1048576 \<le> 4 * 1048576" using assms(1) by simp
  ultimately show ?thesis
    by (simp add: upa_def unat_word_ariths(1) unat_user_slot [OF assms(1)] off)
qed

lemma upa_disjoint:
  assumes "c < 3" "d < 3" "in_user_window va" "in_user_window vb" "upa pl c va = upa pl d vb"
  shows "c = d \<and> va = vb"
proof -
  have e: "(2 + c) * 1048576 + unat va mod 1048576 = (2 + d) * 1048576 + unat vb mod 1048576"
    using unat_upa [OF assms(1,3), of pl] unat_upa [OF assms(2,4), of pl] assms(5) by simp
  have "(x * 1048576 + y mod 1048576) div 1048576 = x" for x y :: nat by simp
  with e have "2 + c = 2 + d" by metis
  then have "c = d" by simp
  moreover from this have "va = vb" using assms(5) by (simp add: upa_def)
  ultimately show ?thesis by simp
qed

section \<open>Runs of bytes\<close>

fun store_bytes :: "u32 \<Rightarrow> u8 list \<Rightarrow> (u32 \<Rightarrow> u8) \<Rightarrow> u32 \<Rightarrow> u8" where
  "store_bytes a [] m = m"
| "store_bytes a (b # bs) m = store_bytes (a + 1) bs (m(a := b))"

lemma store_bytes_append:
  "store_bytes a (bs @ cs) m = store_bytes (a + of_nat (length bs)) cs (store_bytes a bs m)"
  by (induction bs arbitrary: a m) (simp_all add: ac_simps)

lemma store_bytes_other:
  "(\<And>i. i < length bs \<Longrightarrow> x \<noteq> a + of_nat i) \<Longrightarrow> store_bytes a bs m x = m x"
proof (induction bs arbitrary: a m)
  case (Cons b bs)
  have "x \<noteq> a" using Cons.prems [of 0] by simp
  moreover have "x \<noteq> (a + 1) + of_nat i" if "i < length bs" for i
    using Cons.prems [of "Suc i"] that by (simp add: ac_simps)
  ultimately show ?case by (simp add: Cons.IH)
qed simp

lemma store_bytes_nth:
  assumes "length bs \<le> 4294967296" "i < length bs"
  shows "store_bytes a bs m (a + of_nat i) = bs ! i"
  using assms
proof (induction bs arbitrary: a m i)
  case (Cons b bs)
  show ?case
  proof (cases i)
    case 0
    have "a \<noteq> (a + 1) + of_nat j" if "j < length bs" for j
    proof
      assume "a = (a + 1) + of_nat j"
      then have "(of_nat (Suc j) :: u32) = 0" by (simp add: algebra_simps)
      then have "unat (of_nat (Suc j) :: u32) = 0" by simp
      then show False using that Cons.prems(1)
        by (simp add: unat_of_nat del: of_nat_Suc)
    qed
    then show ?thesis using 0 by (simp add: store_bytes_other)
  next
    case (Suc j)
    then show ?thesis using Cons.IH [of j "a + 1"] Cons.prems by (simp add: ac_simps)
  qed
qed simp

section \<open>Changes that keep the invariant\<close>

lemma sched_inv_pmem [simp]: "sched_inv (k\<lparr>pmem := m\<rparr>) = sched_inv k"
  "sched_inv (k\<lparr>tx := o'\<rparr>) = sched_inv k" "sched_inv (k\<lparr>rx_q := q\<rparr>) = sched_inv k"
  "sched_inv (k\<lparr>frames := f\<rparr>) = sched_inv k"
  by (simp_all add: sched_inv_def pstate_def cong: option.case_cong)

lemma mem_inv_upds [simp]: "mem_inv pl (k\<lparr>pmem := m\<rparr>) = mem_inv pl k"
  "mem_inv pl (k\<lparr>tx := o'\<rparr>) = mem_inv pl k" "mem_inv pl (k\<lparr>rx_q := q\<rparr>) = mem_inv pl k"
  "mem_inv pl (k\<lparr>frames := f\<rparr>) = mem_inv pl k"
  by (simp_all add: mem_inv_def)

lemma cont_inv_upds [simp]: "cont_inv (k\<lparr>pmem := m\<rparr>) = cont_inv k"
  "cont_inv (k\<lparr>tx := o'\<rparr>) = cont_inv k" "cont_inv (k\<lparr>rx_q := q\<rparr>) = cont_inv k"
  "cont_inv (k\<lparr>frames := f\<rparr>) = cont_inv k"
  by (simp_all add: cont_inv_def pstate_def)

lemma kinv_upds [simp]: "kinv pl (k\<lparr>pmem := m\<rparr>) = kinv pl k"
  "kinv pl (k\<lparr>tx := o'\<rparr>) = kinv pl k" "kinv pl (k\<lparr>frames := f\<rparr>) = kinv pl k"
  "kinv pl k \<Longrightarrow> kinv pl (k\<lparr>rx_q := q\<rparr>) = ring_inv q"
  by (auto simp: kinv_def)

text \<open>The translation tables are a function of the static data.\<close>

lemma mem_inv_statics:
  assumes "mem_inv pl k" "statics k' = statics k" "proc_pgd k' = proc_pgd k" "length (processes k) = 3"
  shows "mem_inv pl k'"
  using assms(1) statics_fields(3) [OF assms(2)] assms(3,4) by (simp add: mem_inv_def)

end
