(* ===== verification/Syscall.thy ===== *)
theory Syscall
  imports Kmem
begin

text \<open>
  The system calls, \<open>kernel/syscall/syscall.c\<close>. A handler ends in one of three ways: it
  returns a value (\<open>Ret\<close>), it leaves the CPU to another process through
  \<open>scheduler_block_on_input\<close> (\<open>Away\<close>), or the kernel takes a data abort on a user address
  (\<open>Abort\<close>, with the state at the call or at the failing access). A handler that never does any of these has the value \<open>None\<close>: \<open>sys_read\<close> is a
  \<open>partial_function\<close>, because its loop retries for as long as the ring is empty and no other
  process can run.
\<close>

section \<open>Results\<close>

datatype sysres = Ret u32 kernel | Away kernel | Abort kernel

definition E_BADCALL :: u32 where "E_BADCALL = -1"
definition E_FAULT :: u32 where "E_FAULT = -2"

text \<open>The pid that \<open>current ? current->pid : d\<close> denotes.\<close>

definition current_pid :: "u32 \<Rightarrow> kernel \<Rightarrow> u32" where
  "current_pid d k = (case current k of Some c \<Rightarrow> p_pid (processes k ! c) | None \<Rightarrow> d)"

section \<open>Handlers\<close>

function write_loop :: "u32 \<Rightarrow> u32 \<Rightarrow> u32 \<Rightarrow> kernel \<Rightarrow> kernel option" where
  "write_loop buf len i k =
     (if i < len then
        (case vload (buf + i) k of
           None \<Rightarrow> None
         | Some c \<Rightarrow> write_loop buf len (i + 1) (k\<lparr>tx := tx k @ uart_putc c\<rparr>))
      else Some k)"
  by pat_completeness auto
termination
  by (relation "measure (\<lambda>(buf, len, i, k). unat len - unat i)") (simp_all add: count_up_decreases)

declare write_loop.simps [simp del]

definition sys_write :: "u32 \<Rightarrow> u32 \<Rightarrow> u32 \<Rightarrow> kernel \<Rightarrow> sysres" where
  "sys_write fd buf_addr len k =
     (if \<not> valid_user_ptr buf_addr len then Ret E_FAULT k
      else (case write_loop buf_addr len 0 k of
              None \<Rightarrow> Abort k
            | Some k' \<Rightarrow> Ret len k'))"

definition sys_getpid :: "kernel \<Rightarrow> sysres" where
  "sys_getpid k = Ret (current_pid (-1) k) k"

definition sys_yield :: "kernel \<Rightarrow> sysres" where
  "sys_yield k = Ret 0 (scheduler_request_resched k)"

definition sys_exit :: "kernel \<Rightarrow> sysres" where
  "sys_exit k =
     (let k = (case current k of
                 None \<Rightarrow> k
               | Some c \<Rightarrow>
                   set_state c TASK_DEAD
                     (kprintf (bytes ''[EXIT]  pid=%u name=%s'' @ [10])
                        [VInt (p_pid (processes k ! c)), VStr (p_name (processes k ! c))] k))
      in Ret 0 (scheduler_request_resched k))"

text \<open>The loop of \<open>sys_read\<close>, entered with \<open>n\<close> bytes already copied.\<close>

partial_function (option) sys_read_loop :: "u32 \<Rightarrow> u32 \<Rightarrow> u32 \<Rightarrow> kernel \<Rightarrow> sysres option" where
  "sys_read_loop buf len n k =
     (if n < len then
        (case uart_rx_pop (rx_q k) of
           (c, q) \<Rightarrow>
             if c < 0 then
               (if n > 0 then Some (Ret n (k\<lparr>rx_q := q\<rparr>))
                else (case scheduler_block_on_input (K_sys_read buf len) (k\<lparr>rx_q := q\<rparr>) of
                        (k', away) \<Rightarrow> if away then Some (Away k') else sys_read_loop buf len n k'))
             else (case vstore (buf + n) (word_of_int c) (k\<lparr>rx_q := q\<rparr>) of
                     None \<Rightarrow> Some (Abort (k\<lparr>rx_q := q\<rparr>))
                   | Some k' \<Rightarrow> sys_read_loop buf len (n + 1) k'))
      else Some (Ret n k))"

definition sys_read :: "u32 \<Rightarrow> u32 \<Rightarrow> u32 \<Rightarrow> kernel \<Rightarrow> sysres option" where
  "sys_read fd buf_addr len k =
     (if len = 0 then Some (Ret 0 k)
      else if \<not> valid_user_ptr buf_addr len then Some (Ret E_FAULT k)
      else sys_read_loop buf_addr len 0 k)"

subsection \<open>sys_ps\<close>

fun state_name :: "task_state \<Rightarrow> u8 list" where
  "state_name TASK_READY = bytes ''READY  ''"
| "state_name TASK_RUNNING = bytes ''RUNNING''"
| "state_name TASK_BLOCKED = bytes ''BLOCKED''"
| "state_name TASK_DEAD = bytes ''DEAD   ''"

text \<open>\<open>for (c = s; *c && n + 1 < size; c++) out[n++] = *c;\<close>\<close>

fun ps_str :: "u32 \<Rightarrow> u32 \<Rightarrow> u8 list \<Rightarrow> u32 \<Rightarrow> kernel \<Rightarrow> (u32 \<times> kernel) option" where
  "ps_str out sz [] n k = Some (n, k)"
| "ps_str out sz (c # s) n k =
     (if n + 1 < sz then
        (case vstore (out + n) c k of
           None \<Rightarrow> None
         | Some k' \<Rightarrow> ps_str out sz s (n + 1) k')
      else Some (n, k))"

text \<open>
  One iteration of the loop over the table. The first component of the result says that the
  iteration left the loop with \<open>break\<close>.
\<close>

definition ps_char :: "u32 \<Rightarrow> u32 \<Rightarrow> u8 \<Rightarrow> bool \<times> u32 \<times> kernel \<Rightarrow> (bool \<times> u32 \<times> kernel) option" where
  "ps_char out sz c = (\<lambda>(brk, n, k).
     if brk then Some (True, n, k)
     else if n + 1 \<ge> sz then Some (True, n, k)
     else map_option (\<lambda>k'. (False, n + 1, k')) (vstore (out + n) c k))"

definition ps_text :: "u32 \<Rightarrow> u32 \<Rightarrow> u8 list \<Rightarrow> bool \<times> u32 \<times> kernel \<Rightarrow> (bool \<times> u32 \<times> kernel) option" where
  "ps_text out sz s = (\<lambda>(brk, n, k).
     if brk then Some (True, n, k)
     else map_option (\<lambda>(n', k'). (False, n', k')) (ps_str out sz s n k))"

definition ps_entry :: "u32 \<Rightarrow> u32 \<Rightarrow> process \<Rightarrow> u32 \<Rightarrow> kernel \<Rightarrow> (bool \<times> u32 \<times> kernel) option" where
  "ps_entry out sz p n k =
     Option.bind (ps_char out sz (48 + ucast (p_pid p)) (False, n, k)) (\<lambda>r.
     Option.bind (ps_char out sz 32 r) (\<lambda>r.
     Option.bind (ps_text out sz (p_name p) r) (\<lambda>r.
     Option.bind (ps_char out sz 32 r) (\<lambda>r.
     Option.bind (ps_text out sz (state_name (p_state p)) r) (\<lambda>r.
     ps_char out sz 10 r)))))"

function ps_loop :: "u32 \<Rightarrow> u32 \<Rightarrow> u32 \<Rightarrow> u32 \<Rightarrow> kernel \<Rightarrow> (u32 \<times> kernel) option" where
  "ps_loop out sz i n k =
     (if i < NUM_PROCESSES then
        (case ps_entry out sz (processes k ! unat i) n k of
           None \<Rightarrow> None
         | Some (brk, n', k') \<Rightarrow>
             if brk then Some (n', k') else ps_loop out sz (i + 1) n' k')
      else Some (n, k))"
  by pat_completeness auto
termination
  by (relation "measure (\<lambda>(out, sz, i, n, k). unat NUM_PROCESSES - unat i)")
    (simp_all add: count_up_decreases)

declare ps_loop.simps [simp del]

definition sys_ps :: "u32 \<Rightarrow> u32 \<Rightarrow> kernel \<Rightarrow> sysres" where
  "sys_ps buf_addr sz k =
     (if \<not> valid_user_ptr buf_addr sz then Ret E_FAULT k
      else (case ps_loop buf_addr sz 0 0 k of
              None \<Rightarrow> Abort k
            | Some (n, k') \<Rightarrow> Ret n k'))"

subsection \<open>sys_kill and sys_ticks\<close>

definition sys_kill :: "u32 \<Rightarrow> kernel \<Rightarrow> sysres" where
  "sys_kill pid k =
     (if pid \<ge> NUM_PROCESSES then Ret E_BADCALL k
      else
        (let p = unat pid in
         if pstate k p = TASK_DEAD then Ret 0 k
         else
           (let k = kprintf (bytes ''[KILL] pid=%u name=%s killed by pid=%u via sys_kill'' @ [10])
                      [VInt (p_pid (processes k ! p)), VStr (p_name (processes k ! p)),
                       VInt (current_pid 99 k)] k;
                k = set_state p TASK_DEAD k
            in Ret 0 (scheduler_request_resched k))))"

definition timer_get_ticks :: "kernel \<Rightarrow> u32" where
  "timer_get_ticks k = tick_count k"

definition sys_ticks :: "kernel \<Rightarrow> sysres" where
  "sys_ticks k = Ret (timer_get_ticks k) k"

section \<open>Dispatch\<close>

text \<open>Numbers of \<open>kernel/include/syscall.h\<close>.\<close>

definition SYS_WRITE :: u32 where [simp]: "SYS_WRITE = 0"
definition SYS_GETPID :: u32 where [simp]: "SYS_GETPID = 1"
definition SYS_YIELD :: u32 where [simp]: "SYS_YIELD = 2"
definition SYS_EXIT :: u32 where [simp]: "SYS_EXIT = 3"
definition SYS_READ :: u32 where [simp]: "SYS_READ = 4"
definition SYS_PS :: u32 where [simp]: "SYS_PS = 5"
definition SYS_KILL :: u32 where [simp]: "SYS_KILL = 6"
definition SYS_TICKS :: u32 where [simp]: "SYS_TICKS = 7"

definition NR_SYSCALLS :: u32 where "NR_SYSCALLS = 8"

text \<open>\<open>syscall_table[num](a0, a1, a2, a3)\<close> for a number below \<open>NR_SYSCALLS\<close>.\<close>

definition syscall_table :: "u32 \<Rightarrow> u32 \<Rightarrow> u32 \<Rightarrow> u32 \<Rightarrow> u32 \<Rightarrow> kernel \<Rightarrow> sysres option" where
  "syscall_table num a0 a1 a2 a3 k =
     (if num = SYS_WRITE then Some (sys_write a0 a1 a2 k)
      else if num = SYS_GETPID then Some (sys_getpid k)
      else if num = SYS_YIELD then Some (sys_yield k)
      else if num = SYS_EXIT then Some (sys_exit k)
      else if num = SYS_READ then sys_read a0 a1 a2 k
      else if num = SYS_PS then Some (sys_ps a0 a1 k)
      else if num = SYS_KILL then Some (sys_kill a0 k)
      else Some (sys_ticks k))"

text \<open>\<open>ctx->r[0] = ret\<close> on the frame of the process that made the call.\<close>

definition set_ret :: "nat \<Rightarrow> u32 \<Rightarrow> kernel \<Rightarrow> kernel" where
  "set_ret c v k =
     k\<lparr>frames := (frames k)(c := (frames k c)\<lparr>e_r := (e_r (frames k c))[0 := v]\<rparr>)\<rparr>"

datatype dispatched = Returned kernel | Switched kernel | Aborted kernel

fun deliver :: "nat \<Rightarrow> sysres \<Rightarrow> dispatched" where
  "deliver c (Ret v k) = Returned (set_ret c v k)"
| "deliver c (Away k) = Switched k"
| "deliver c (Abort k) = Aborted k"

definition syscall_dispatch :: "nat \<Rightarrow> kernel \<Rightarrow> dispatched option" where
  "syscall_dispatch c k =
     (let r = e_r (frames k c); num = r ! 7 in
      if num \<ge> NR_SYSCALLS then Some (Returned (set_ret c E_BADCALL k))
      else map_option (deliver c) (syscall_table num (r ! 0) (r ! 1) (r ! 2) (r ! 3) k))"

section \<open>Reading and writing the caller's memory\<close>

text \<open>The bytes of process \<open>c\<close> at a user address.\<close>

definition uread :: "platform \<Rightarrow> nat \<Rightarrow> u32 \<Rightarrow> nat \<Rightarrow> kernel \<Rightarrow> u8 list" where
  "uread pl c va n k = map (\<lambda>j. pmem k (upa pl c (va + of_nat j))) [0..<n]"

lemma length_uread [simp]: "length (uread pl c va n k) = n"
  by (simp add: uread_def)

lemma uread_store:
  assumes "length bs \<le> 1048576"
  shows "uread pl c va (length bs) (k\<lparr>pmem := store_bytes (upa pl c va) bs m\<rparr>) = bs"
  using assms by (auto simp: uread_def upa_add store_bytes_nth intro!: nth_equalityI)

lemma write_loop_eq:
  assumes "sched_inv k" "mem_inv pl k" "current k = Some c" "valid_user_ptr buf len"
  shows "write_loop buf len i k =
    Some (k\<lparr>tx := tx k @ uart_puts (map (\<lambda>j. pmem k (upa pl c (buf + of_nat j))) [unat i..<unat len])\<rparr>)"
  using assms
proof (induction buf len i k rule: write_loop.induct)
  case (1 buf len i k)
  show ?case
  proof (cases "i < len")
    case True
    have w: "in_user_window (buf + i)" by (rule valid_user_ptr_window [OF 1(5) True])
    note ld = user_access(1) [OF 1(2-4) w]
    have "[unat i..<unat len] = unat i # [unat (i + 1)..<unat len]"
      using True by (simp add: unat_inc upt_conv_Cons word_less_nat_alt)
    then show ?thesis
      using 1(1) [OF True ld] 1(2-5) True ld
      by (simp add: write_loop.simps [of buf len i k])
  next
    case False
    then show ?thesis by (simp add: write_loop.simps [of buf len i k] word_less_nat_alt)
  qed
qed

lemma sys_write_eq:
  assumes "kinv pl k" "current k = Some c" "valid_user_ptr buf len"
  shows "sys_write fd buf len k = Ret len (k\<lparr>tx := tx k @ uart_puts (uread pl c buf (unat len) k)\<rparr>)"
  using write_loop_eq [OF kinvD(1,3) [OF assms(1)] assms(2,3), of 0] assms(3)
  by (simp add: sys_write_def uread_def)

section \<open>sys_ps\<close>

text \<open>The listing, before it is cut to the caller's buffer.\<close>

definition ps_line :: "process \<Rightarrow> u8 list" where
  "ps_line p = (48 + ucast (p_pid p)) # 32 # p_name p @ 32 # state_name (p_state p) @ [10]"

definition ps_listing :: "kernel \<Rightarrow> u8 list" where
  "ps_listing k = concat (map ps_line (processes k))"

lemma ps_str_full: "\<not> n + 1 < sz \<Longrightarrow> ps_str out sz s n k = Some (n, k)"
  by (cases s) auto

lemma ps_str_append:
  "ps_str out sz (s @ t) n k =
     Option.bind (ps_str out sz s n k) (\<lambda>(n', k'). ps_str out sz t n' k')"
  by (induction s arbitrary: n k) (auto simp: ps_str_full split: option.splits)

text \<open>
  A step of the table loop copies its bytes like \<open>ps_str\<close>, whether or not it breaks: once a
  break has happened the buffer is full and further copies do nothing.
\<close>

definition tracks :: "u32 \<Rightarrow> u32 \<Rightarrow> u8 list \<Rightarrow> u32 \<Rightarrow> kernel \<Rightarrow> (bool \<times> u32 \<times> kernel) option \<Rightarrow> bool" where
  "tracks out sz s n k r \<longleftrightarrow>
     map_option snd r = ps_str out sz s n k \<and>
     (\<forall>n' k'. r = Some (True, n', k') \<longrightarrow> \<not> n' + 1 < sz)"

lemma tracks_char:
  "(brk \<longrightarrow> \<not> n + 1 < sz) \<Longrightarrow> tracks out sz [c] n k (ps_char out sz c (brk, n, k))"
  by (auto simp: tracks_def ps_char_def not_le split: option.splits)

lemma tracks_text:
  "(brk \<longrightarrow> \<not> n + 1 < sz) \<Longrightarrow> tracks out sz s n k (ps_text out sz s (brk, n, k))"
  by (auto simp: tracks_def ps_text_def ps_str_full option.map_comp comp_def case_prod_unfold
      option.map_ident)

lemma tracks_bind:
  assumes "tracks out sz s n k r"
    and "\<And>brk n' k'. (brk \<longrightarrow> \<not> n' + 1 < sz) \<Longrightarrow> tracks out sz t n' k' (f (brk, n', k'))"
  shows "tracks out sz (s @ t) n k (Option.bind r f)"
proof (cases r)
  case None
  then show ?thesis using assms(1) by (auto simp: tracks_def ps_str_append)
next
  case (Some x)
  obtain brk n' k' where x: "x = (brk, n', k')" by (cases x)
  have "ps_str out sz s n k = Some (n', k')" "brk \<longrightarrow> \<not> n' + 1 < sz"
    using assms(1) Some x by (auto simp: tracks_def)
  then show ?thesis using assms(2) [of brk n' k'] Some x by (simp add: tracks_def ps_str_append)
qed

lemma tracks_entry: "tracks out sz (ps_line p) n k (ps_entry out sz p n k)"
proof -
  have "ps_line p = [48 + ucast (p_pid p)] @ [32] @ p_name p @ [32] @ state_name (p_state p) @ [10]"
    by (simp add: ps_line_def)
  then show ?thesis
    unfolding ps_entry_def by (simp only:) (intro tracks_bind tracks_char tracks_text; simp)
qed

lemma ps_str_processes: "ps_str out sz s n k = Some (n', k') \<Longrightarrow> processes k' = processes k"
  by (induction s arbitrary: n k) (auto simp: vstore_def split: if_splits option.splits)

lemma ps_loop_eq:
  "length (processes k) = 3 \<Longrightarrow>
   ps_loop out sz i n k = ps_str out sz (concat (map ps_line (drop (unat i) (processes k)))) n k"
proof (induction out sz i n k rule: ps_loop.induct)
  case (1 out sz i n k)
  show ?case
  proof (cases "i < NUM_PROCESSES")
    case True
    then have i: "unat i < 3" by (simp add: word_less_nat_alt kconst)
    let ?p = "processes k ! unat i"
    have split: "drop (unat i) (processes k) = ?p # drop (unat (i + 1)) (processes k)"
      using i 1(2) by (simp add: unat_inc [OF True] Cons_nth_drop_Suc)
    note tr = tracks_entry [of out sz ?p n k]
    show ?thesis
    proof (cases "ps_entry out sz ?p n k")
      case None
      then have "ps_str out sz (ps_line ?p) n k = None" using tr by (auto simp: tracks_def)
      then show ?thesis using True None
        by (simp add: split ps_str_append) (simp add: ps_loop.simps [of out sz i n k])
    next
      case (Some x)
      obtain brk n' k' where x: "x = (brk, n', k')" by (cases x)
      have st: "ps_str out sz (ps_line ?p) n k = Some (n', k')" and full: "brk \<longrightarrow> \<not> n' + 1 < sz"
        using tr Some x by (auto simp: tracks_def)
      have pk: "processes k' = processes k" by (rule ps_str_processes [OF st])
      show ?thesis
      proof (cases brk)
        case True
        then show ?thesis using \<open>i < NUM_PROCESSES\<close> Some x st full
          by (simp add: split ps_str_append) (simp add: ps_loop.simps [of out sz i n k] ps_str_full)
      next
        case False
        then show ?thesis using \<open>i < NUM_PROCESSES\<close> Some x st 1 pk
          by (simp add: split ps_str_append) (simp add: ps_loop.simps [of out sz i n k])
      qed
    qed
  next
    case False
    then have "3 \<le> unat i" by (simp add: word_less_nat_alt kconst)
    then show ?thesis using False 1(2) by (simp add: ps_loop.simps [of out sz i n k])
  qed
qed

lemma ps_str_eq:
  assumes "sched_inv k" "mem_inv pl k" "current k = Some c" "valid_user_ptr out sz" "n < sz \<or> n = 0"
  shows "ps_str out sz s n k =
    (let w = take (unat sz - 1 - unat n) s in
     Some (n + of_nat (length w), k\<lparr>pmem := store_bytes (upa pl c (out + n)) w (pmem k)\<rparr>))"
  using assms
proof (induction s arbitrary: n k)
  case Nil
  then show ?case by simp
next
  case (Cons b s)
  show ?case
  proof (cases "n + 1 < sz")
    case True
    have n: "n < sz" using Cons.prems(5) True
      by (auto simp: word_less_nat_alt)
    have w: "in_user_window (out + n)" by (rule valid_user_ptr_window [OF Cons.prems(4) n])
    have lt: "unat n + 1 < unat sz" using True by (simp add: word_less_nat_alt unat_inc [OF n])
    then have split: "take (unat sz - Suc (unat n)) (b # s) = b # take (unat sz - 1 - unat (n + 1)) s"
      by (simp add: take_Cons' unat_inc [OF n])
    show ?thesis
      using Cons.IH [of "k\<lparr>pmem := (pmem k)(upa pl c (out + n) := b)\<rparr>" "n + 1"] Cons.prems(1-4) True
        user_access(2) [OF Cons.prems(1-3) w, of b] split
      by (simp add: Let_def upa_add add.assoc fun_upd_def)
  next
    case False
    have "unat sz - Suc (unat n) = 0"
    proof (cases "n < sz")
      case True
      then show ?thesis using False by (simp add: word_less_nat_alt unat_inc [OF True])
    next
      case False
      then show ?thesis by (simp add: word_less_nat_alt)
    qed
    then show ?thesis using False by (simp add: Let_def)
  qed
qed

lemma sys_ps_eq:
  assumes "kinv pl k" "current k = Some c" "valid_user_ptr buf sz"
  shows "sys_ps buf sz k =
    (let w = take (unat sz - 1) (ps_listing k) in
     Ret (of_nat (length w)) (k\<lparr>pmem := store_bytes (upa pl c buf) w (pmem k)\<rparr>))"
proof -
  have "length (processes k) = 3" using kinvD(1) [OF assms(1)] by (auto elim!: sched_invD)
  then show ?thesis
    using ps_str_eq [OF kinvD(1,3) [OF assms(1)] assms(2,3), of 0 "ps_listing k"] assms(3)
    by (simp add: sys_ps_def ps_loop_eq ps_listing_def Let_def)
qed

section \<open>sys_read\<close>

text \<open>The copy phase: once a byte is there, the loop drains the ring and returns.\<close>

lemma kernel_upd_self: "k\<lparr>rx_q := rx_q k, pmem := pmem k\<rparr> = k" "k\<lparr>rx_q := rx_q k\<rparr> = k"
  by (cases k; simp)+

lemma sys_read_copy:
  assumes "sched_inv k" "mem_inv pl k" "ring_inv (rx_q k)" "current k = Some c"
    and "valid_user_ptr buf len" "n \<le> len" "ring_list (rx_q k) = cs" "0 < n \<or> cs \<noteq> []"
    and "w = take (unat len - unat n) cs"
  shows "\<exists>q. sys_read_loop buf len n k =
      Some (Ret (n + of_nat (length w)) (k\<lparr>rx_q := q, pmem := store_bytes (upa pl c (buf + n)) w (pmem k)\<rparr>))
    \<and> ring_inv q \<and> ring_list q = drop (length w) cs"
  using assms
proof (induction cs arbitrary: n k w)
  case Nil
  then have "uart_rx_pop (rx_q k) = (-1, rx_q k)" using rx.pop_none by simp
  then show ?case using Nil
    by (intro exI [of _ "rx_q k"]) (auto simp: sys_read_loop.simps [of buf len n k] kernel_upd_self)
next
  case (Cons b cs)
  show ?case
  proof (cases "n < len")
    case True
    obtain q where q: "uart_rx_pop (rx_q k) = (uint b, q)" "ring_list q = cs" "ring_inv q"
      using rx.pop_some [OF Cons.prems(3,7)] rx.invar_pop [OF Cons.prems(3)]
      by (cases "uart_rx_pop (rx_q k)") auto
    have win: "in_user_window (buf + n)" by (rule valid_user_ptr_window [OF Cons.prems(5) True])
    define k' where "k' = k\<lparr>rx_q := q, pmem := (pmem k)(upa pl c (buf + n) := b)\<rparr>"
    have vs: "vstore (buf + n) b (k\<lparr>rx_q := q\<rparr>) = Some k'"
      using user_access(2) [of "k\<lparr>rx_q := q\<rparr>" pl c "buf + n" b] Cons.prems win by (simp add: k'_def)
    have inv: "sched_inv k'" "mem_inv pl k'" "ring_inv (rx_q k')" "current k' = Some c"
      "ring_list (rx_q k') = cs" using Cons.prems q by (simp_all add: k'_def)
    have n1: "unat (n + 1) = Suc (unat n)" "n + 1 \<le> len" "0 < n + 1"
      using True unat_inc [OF True] by (simp_all add: word_less_nat_alt word_le_nat_alt)
    have step: "sys_read_loop buf len n k = sys_read_loop buf len (n + 1) k'"
      using True q(1) vs by (simp add: sys_read_loop.simps [of buf len n k])
    have w: "w = b # take (unat len - unat (n + 1)) cs"
      using Cons.prems(9) True n1(1) by (simp add: take_Cons' word_less_nat_alt)
    obtain q' where "sys_read_loop buf len (n + 1) k' =
        Some (Ret (n + 1 + of_nat (length (tl w)))
          (k'\<lparr>rx_q := q', pmem := store_bytes (upa pl c (buf + (n + 1))) (tl w) (pmem k')\<rparr>))"
      "ring_inv q'" "ring_list q' = drop (length (tl w)) cs"
      using Cons.IH [OF inv(1-4) Cons.prems(5) n1(2) inv(5) disjI1 [OF n1(3)], of "tl w"] w by auto
    then show ?thesis
      by (intro exI [of _ q']) (simp add: step w k'_def upa_add add.assoc fun_upd_def)
  next
    case False
    then have "w = []" using Cons.prems(9) by (simp add: word_less_nat_alt)
    moreover have "sys_read_loop buf len n k = Some (Ret n k)"
      using False by (subst sys_read_loop.simps) simp
    ultimately show ?thesis using Cons.prems(3,7)
      by (intro exI [of _ "rx_q k"]) (simp add: kernel_upd_self)
  qed
qed

text \<open>The waiting phase: one attempt to give the CPU away, then the loop again.\<close>

lemma sys_read_wait:
  assumes "ring_inv (rx_q k)" "ring_list (rx_q k) = []" "0 < len" "current k = Some c"
  shows "sys_read_loop buf len 0 k =
    (case schedule (K_sys_read buf len) (blocking c k) of
       (k', away) \<Rightarrow> if away then Some (Away k') else sys_read_loop buf len 0 k')"
  using rx.pop_none [OF assms(1,2)] assms(3)
  by (subst sys_read_loop.simps) (simp add: block_eq [OF assms(4)] kernel_upd_self)

lemma schedule_no_other:
  assumes "sched_inv k" "current k = Some c" "need_reschedule k"
    "\<forall>i < 3. i \<noteq> c \<longrightarrow> \<not> runnable (pstate k i)"
  shows "schedule rc k = (k\<lparr>need_reschedule := False, wake_hint := None\<rparr>, False)"
proof -
  have "sched_target k c = None" using sched_target_None [OF assms(1,2)] assms(4) by simp
  then show ?thesis using assms(3) by (simp add: schedule_eq [OF assms(1,2)])
qed

lemma schedule_some_other:
  assumes "sched_inv k" "current k = Some c" "need_reschedule k" "i < 3" "i \<noteq> c" "runnable (pstate k i)"
  shows "snd (schedule rc k)"
  using sched_target_None [OF assms(1,2)] assms(3-6)
  by (auto simp: schedule_eq [OF assms(1,2)] split: option.splits)

text \<open>With nothing to read and nobody else to run, the loop of \<open>sys_read\<close> has no value.\<close>

definition read_stuck :: "u32 \<Rightarrow> u32 \<Rightarrow> kernel \<Rightarrow> bool" where
  "read_stuck len n k \<longleftrightarrow> n = 0 \<and> 0 < len \<and> sched_inv k \<and> ring_inv (rx_q k) \<and>
     ring_list (rx_q k) = [] \<and> (\<forall>i < 3. Some i \<noteq> current k \<longrightarrow> \<not> runnable (pstate k i))"

lemma read_stuck_again:
  assumes "read_stuck len n k" "current k = Some c"
  shows "scheduler_block_on_input rc k =
      ((blocking c k)\<lparr>need_reschedule := False, wake_hint := None\<rparr>, False)"
    and "read_stuck len n ((blocking c k)\<lparr>need_reschedule := False, wake_hint := None\<rparr>)"
proof -
  have inv: "sched_inv k" using assms(1) by (simp add: read_stuck_def)
  then have c: "c < 3" "length (processes k) = 3" using assms(2) by (auto elim!: sched_invD)
  have ib: "sched_inv (blocking c k)" by (rule blocking_inv [OF inv c(1)])
  have nb: "\<forall>i < 3. i \<noteq> c \<longrightarrow> \<not> runnable (pstate (blocking c k) i)"
    using assms c by (simp add: blocking_pstate read_stuck_def)
  then show "scheduler_block_on_input rc k =
      ((blocking c k)\<lparr>need_reschedule := False, wake_hint := None\<rparr>, False)"
    using schedule_no_other [OF ib _ _ nb] assms(2) by (simp add: block_eq)
  show "read_stuck len n ((blocking c k)\<lparr>need_reschedule := False, wake_hint := None\<rparr>)"
    using assms sched_inv_reset [OF ib] nb by (simp add: read_stuck_def pstate_def)
qed

lemma sys_read_stuck_aux: "sys_read_loop buf len n k = Some r \<Longrightarrow> \<not> read_stuck len n k"
proof (rule sys_read_loop.raw_induct [of "\<lambda>buf len n k r. \<not> read_stuck len n k"])
  fix rec :: "u32 \<Rightarrow> u32 \<Rightarrow> u32 \<Rightarrow> kernel \<Rightarrow> sysres option" and buf len n k r
  assume IH: "\<And>buf len n k r. rec buf len n k = Some r \<Longrightarrow> \<not> read_stuck len n k"
    and body: "(if n < len then
        (case uart_rx_pop (rx_q k) of
           (c, q) \<Rightarrow>
             if c < 0 then
               (if n > 0 then Some (Ret n (k\<lparr>rx_q := q\<rparr>))
                else (case scheduler_block_on_input (K_sys_read buf len) (k\<lparr>rx_q := q\<rparr>) of
                        (k', away) \<Rightarrow> if away then Some (Away k') else rec buf len n k'))
             else (case vstore (buf + n) (word_of_int c) (k\<lparr>rx_q := q\<rparr>) of
                     None \<Rightarrow> Some (Abort (k\<lparr>rx_q := q\<rparr>))
                   | Some k' \<Rightarrow> rec buf len (n + 1) k'))
      else Some (Ret n k)) = Some r"
  show "\<not> read_stuck len n k"
  proof
    assume st: "read_stuck len n k"
    then obtain c where c: "current k = Some c"
      by (auto simp: read_stuck_def elim!: sched_invD)
    have "uart_rx_pop (rx_q k) = (-1, rx_q k)" using st rx.pop_none by (simp add: read_stuck_def)
    then have "rec buf len n ((blocking c k)\<lparr>need_reschedule := False, wake_hint := None\<rparr>) = Some r"
      using body st read_stuck_again(1) [OF st c] by (simp add: read_stuck_def kernel_upd_self)
    then show False using IH read_stuck_again(2) [OF st c] by blast
  qed
qed

lemma sys_read_stuck: "read_stuck len n k \<Longrightarrow> sys_read_loop buf len n k = None"
  using sys_read_stuck_aux by (cases "sys_read_loop buf len n k") blast+

text \<open>Every way the loop can end, entered with nothing read.\<close>

lemma sys_read_loop_cases:
  assumes "kinv pl k" "current k = Some c" "valid_user_ptr buf len" "0 < len"
  obtains (copied) q w where "w = take (unat len) (ring_list (rx_q k))" "w \<noteq> []"
      "sys_read_loop buf len 0 k =
         Some (Ret (of_nat (length w)) (k\<lparr>rx_q := q, pmem := store_bytes (upa pl c buf) w (pmem k)\<rparr>))"
      "ring_inv q" "ring_list q = drop (length w) (ring_list (rx_q k))"
  | (parked) k' where "ring_list (rx_q k) = []" "schedule (K_sys_read buf len) (blocking c k) = (k', True)"
      "sys_read_loop buf len 0 k = Some (Away k')"
  | (stuck) "ring_list (rx_q k) = []" "\<forall>i < 3. i \<noteq> c \<longrightarrow> \<not> runnable (pstate k i)"
      "sys_read_loop buf len 0 k = None"
proof (cases "ring_list (rx_q k) = []")
  case False
  let ?w = "take (unat len) (ring_list (rx_q k))"
  have "?w \<noteq> []" using False assms(4) by (simp add: word_less_nat_alt)
  then show ?thesis
    using sys_read_copy [OF kinvD(1,3,2) [OF assms(1)] assms(2,3) _ refl, of 0 ?w] False copied
    by auto
next
  case True
  have inv: "sched_inv k" "ring_inv (rx_q k)" using assms(1) by (auto dest: kinvD)
  have c: "c < 3" "length (processes k) = 3" using inv(1) assms(2) by (auto elim!: sched_invD)
  show ?thesis
  proof (cases "\<forall>i < 3. i \<noteq> c \<longrightarrow> \<not> runnable (pstate k i)")
    case t: True
    show ?thesis using stuck True t sys_read_stuck [of len 0 k buf] inv assms(2,4)
      by (simp add: read_stuck_def)
  next
    case False
    then obtain i where i: "i < 3" "i \<noteq> c" "runnable (pstate (blocking c k) i)"
      using c by (auto simp: blocking_pstate)
    have "snd (schedule (K_sys_read buf len) (blocking c k))"
      using schedule_some_other [OF blocking_inv [OF inv(1) c(1)] _ _ i] assms(2) by simp
    then obtain k' where k': "schedule (K_sys_read buf len) (blocking c k) = (k', True)"
      by (cases "schedule (K_sys_read buf len) (blocking c k)") auto
    then show ?thesis using parked True sys_read_wait [OF inv(2) True assms(4,2)] by simp
  qed
qed

section \<open>The messages\<close>

lemma exit_message:
  "uart_printf (bytes ''[EXIT]  pid=%u name=%s'' @ [10]) [VInt pid, VStr nm] =
     Some (bytes ''[EXIT]  pid='' @ dec_digits (unat pid) @ bytes '' name='' @ uart_puts nm @ [13, 10])"
  by (simp add: printf_conv_def uart_print_dec_eq)

lemma kill_message:
  "uart_printf (bytes ''[KILL] pid=%u name=%s killed by pid=%u via sys_kill'' @ [10])
       [VInt pid, VStr nm, VInt by_pid] =
     Some (bytes ''[KILL] pid='' @ dec_digits (unat pid) @ bytes '' name='' @ uart_puts nm
       @ bytes '' killed by pid='' @ dec_digits (unat by_pid) @ bytes '' via sys_kill'' @ [13, 10])"
  by (simp add: printf_conv_def uart_print_dec_eq)

lemma kprintf_eq: "uart_printf fmt args = Some out \<Longrightarrow> kprintf fmt args k = k\<lparr>tx := tx k @ out\<rparr>"
  by (simp add: kprintf_def)

end
