(* ===== verification/Kinv.thy ===== *)
theory Kinv
  imports Syscall
begin

text \<open>
  Every operation of the scheduler and every system call keeps the kernel invariant \<open>kinv\<close>,
  and no system call takes a data abort in the kernel.
\<close>

section \<open>Scheduler operations\<close>

lemma kinv_statics:
  assumes "kinv pl k" "sched_inv k'" "statics k' = statics k" "proc_pgd k' = proc_pgd k"
    "rx_q k' = rx_q k" "ub k' = ub k" "cont_inv k'"
  shows "kinv pl k'"
proof -
  have "length (processes k) = 3" using kinvD(1) [OF assms(1)] by (auto elim!: sched_invD)
  then have "mem_inv pl k'" using mem_inv_statics [OF kinvD(3) [OF assms(1)] assms(3,4)] by simp
  then show ?thesis using assms by (simp add: kinv_def)
qed

lemma kinv_request [simp]:
  "kinv pl (scheduler_request_resched k) = kinv pl k" "kinv pl (scheduler_tick k) = kinv pl k"
  by (simp_all add: kinv_def scheduler_request_resched_def scheduler_tick_def sched_inv_def
      mem_inv_def cont_inv_def pstate_def cong: option.case_cong)

lemma cont_inv_set_state:
  assumes "cont_inv k" "i < length (processes k)"
    "st = TASK_DEAD \<or> current k = Some i \<or> conts k i \<noteq> K_user_fault"
  shows "cont_inv (set_state i st k)"
  using assms by (auto simp: cont_inv_def)

lemma kinv_set_state:
  assumes "kinv pl k" "i < 3" "st = TASK_RUNNING \<Longrightarrow> current k = Some i"
    "st = TASK_DEAD \<or> current k = Some i \<or> conts k i \<noteq> K_user_fault"
  shows "kinv pl (set_state i st k)"
proof -
  have len: "length (processes k) = 3" using kinvD(1) [OF assms(1)] by (auto elim!: sched_invD)
  have "cont_inv (set_state i st k)"
    using cont_inv_set_state [OF kinvD(4) [OF assms(1)]] assms len by simp
  moreover have "sched_inv (set_state i st k)"
    by (rule sched_inv_set_state [OF kinvD(1) [OF assms(1)] assms(2,3)])
  ultimately show ?thesis by (intro kinv_statics [OF assms(1)]) simp_all
qed

lemma schedule_kinv:
  assumes "kinv pl k" "current k = Some c" "cont_ok rc" "rc = K_user_fault \<Longrightarrow> pstate k c = TASK_DEAD"
  shows "kinv pl (fst (schedule rc k))"
proof (cases "schedule rc k")
  case (Pair k' away)
  note inv = kinvD(1) [OF assms(1)]
  have "cont_inv k'"
  proof (cases away)
    case True
    then have k': "schedule rc k = (k', True)" using Pair by simp
    obtain t where t: "current k' = Some t" "t \<noteq> c" "conts k' = (conts k)(c := rc)"
      by (rule schedule_away [OF inv assms(2) k'])
    have "pstate k' i = pstate k i" if "i \<noteq> c" "i \<noteq> t" for i
      using schedule_pstate [OF inv assms(2), of rc i] k' t(1) that by simp
    moreover have "rc = K_user_fault \<Longrightarrow> pstate k' c = TASK_DEAD"
      using schedule_pstate [OF inv assms(2), of rc c] k' t(1,2) assms(4) by simp
    ultimately show ?thesis using kinvD(4) [OF assms(1)] t assms(2,3) by (auto simp: cont_inv_def)
  next
    case False
    then have k': "schedule rc k = (k', False)" using Pair by simp
    show ?thesis using kinvD(4) [OF assms(1)] schedule_stay(1-3) [OF inv assms(2) k'] assms(2)
      by (simp add: cont_inv_def)
  qed
  then show ?thesis
    using Pair schedule_inv [OF inv, of rc] schedule_statics [OF inv, of rc] schedule_frame [OF inv, of rc]
    by (intro kinv_statics [OF assms(1)]) simp_all
qed

lemma blocking_kinv:
  assumes "kinv pl k" "current k = Some c"
  shows "kinv pl (blocking c k)"
proof -
  have c: "c < 3" "length (processes k) = 3"
    using kinvD(1) [OF assms(1)] assms(2) by (auto elim!: sched_invD)
  have "cont_inv (blocking c k)"
    using kinvD(4) [OF assms(1)] assms(2) c by (auto simp: cont_inv_def blocking_pstate)
  then show ?thesis
    by (intro kinv_statics [OF assms(1)] blocking_inv [OF kinvD(1) [OF assms(1)] c(1)]) simp_all
qed

lemma wake_reader_kinv:
  assumes "kinv pl k"
  shows "kinv pl (scheduler_wake_reader k)"
proof (cases "blocked_reader k")
  case None
  then show ?thesis using assms by (simp add: scheduler_wake_reader_def)
next
  case (Some p)
  have p: "p < 3" "length (processes k) = 3"
    using kinvD(1) [OF assms] Some by (auto elim!: sched_invD)
  show ?thesis
  proof (cases "pstate k p = TASK_BLOCKED")
    case True
    have "cont_inv (set_state p TASK_READY k)"
      using kinvD(4) [OF assms] p True by (auto simp: cont_inv_def)
    then have "cont_inv (scheduler_wake_reader k)"
      using Some True by (simp add: scheduler_wake_reader_def cont_inv_def pstate_def)
    moreover have "statics (scheduler_wake_reader k) = statics k"
      using statics_set_state [of p TASK_READY k] Some True
      by (simp add: scheduler_wake_reader_def statics_def)
    ultimately show ?thesis
      using Some True
      by (intro kinv_statics [OF assms] wake_reader_inv [OF kinvD(1) [OF assms]])
        (simp_all add: scheduler_wake_reader_def)
  next
    case False
    then show ?thesis using assms Some by (simp add: scheduler_wake_reader_def)
  qed
qed

section \<open>System calls\<close>

fun sysres_ok :: "platform \<Rightarrow> sysres \<Rightarrow> bool" where
  "sysres_ok pl (Ret v k) \<longleftrightarrow> kinv pl k"
| "sysres_ok pl (Away k) \<longleftrightarrow> kinv pl k"
| "sysres_ok pl (Abort k) \<longleftrightarrow> False"

lemma sys_write_ok:
  "kinv pl k \<Longrightarrow> current k = Some c \<Longrightarrow> sysres_ok pl (sys_write fd buf len k)"
  by (cases "valid_user_ptr buf len") (simp_all add: sys_write_eq, simp add: sys_write_def)

lemma sys_ps_ok: "kinv pl k \<Longrightarrow> current k = Some c \<Longrightarrow> sysres_ok pl (sys_ps buf sz k)"
  by (cases "valid_user_ptr buf sz") (simp_all add: sys_ps_eq Let_def, simp add: sys_ps_def)

lemma sys_exit_eq:
  "current k = Some c \<Longrightarrow> sys_exit k = Ret 0 (scheduler_request_resched (set_state c TASK_DEAD
     (k\<lparr>tx := tx k @ bytes ''[EXIT]  pid='' @ dec_digits (unat (p_pid (processes k ! c)))
        @ bytes '' name='' @ uart_puts (p_name (processes k ! c)) @ [13, 10]\<rparr>)))"
  unfolding sys_exit_def Let_def by (simp only: option.case kprintf_eq [OF exit_message])

lemma sys_exit_ok: "kinv pl k \<Longrightarrow> current k = Some c \<Longrightarrow> sysres_ok pl (sys_exit k)"
proof -
  assume a: "kinv pl k" "current k = Some c"
  then have "c < 3" by (auto dest: kinvD elim!: sched_invD)
  then show ?thesis using a by (simp add: sys_exit_eq kinv_set_state del: bytes_Cons)
qed

lemma sys_kill_eq:
  "pid < NUM_PROCESSES \<Longrightarrow> pstate k (unat pid) \<noteq> TASK_DEAD \<Longrightarrow>
   sys_kill pid k = Ret 0 (scheduler_request_resched (set_state (unat pid) TASK_DEAD
     (k\<lparr>tx := tx k @ bytes ''[KILL] pid='' @ dec_digits (unat (p_pid (processes k ! unat pid)))
        @ bytes '' name='' @ uart_puts (p_name (processes k ! unat pid))
        @ bytes '' killed by pid='' @ dec_digits (unat (current_pid 99 k)) @ bytes '' via sys_kill''
        @ [13, 10]\<rparr>)))"
  unfolding sys_kill_def Let_def by (simp only: not_le kprintf_eq [OF kill_message] if_False if_not_P)

lemma sys_kill_ok: "kinv pl k \<Longrightarrow> sysres_ok pl (sys_kill pid k)"
proof -
  assume a: "kinv pl k"
  consider "pid \<ge> NUM_PROCESSES" | "pid < NUM_PROCESSES" "pstate k (unat pid) = TASK_DEAD"
    | "pid < NUM_PROCESSES" "pstate k (unat pid) \<noteq> TASK_DEAD" "unat pid < 3"
    using not_le by (cases "pid < NUM_PROCESSES") (auto simp: NUM_PROCESSES_def word_less_nat_alt word_le_nat_alt)
  then show ?thesis
  proof cases
    case 3
    then have "kinv pl (set_state (unat pid) TASK_DEAD (k\<lparr>tx := out\<rparr>))" for out
      using a by (intro kinv_set_state) simp_all
    then show ?thesis unfolding sys_kill_eq [OF 3(1,2)] by (simp only: sysres_ok.simps kinv_request)
  qed (use a in \<open>simp_all add: sys_kill_def not_le\<close>)
qed

lemma sys_read_loop_ok:
  assumes "kinv pl k" "current k = Some c" "valid_user_ptr buf len" "0 < len"
    "sys_read_loop buf len 0 k = Some r"
  shows "sysres_ok pl r"
proof (cases rule: sys_read_loop_cases [OF assms(1-4)])
  case (1 q w)
  then show ?thesis using assms(1,5) by simp
next
  case (2 k')
  have "kinv pl (fst (schedule (K_sys_read buf len) (blocking c k)))"
    by (rule schedule_kinv [OF blocking_kinv [OF assms(1,2)]]) (use assms in simp_all)
  then show ?thesis using 2 assms(5) by simp
next
  case 3
  then show ?thesis using assms(5) by simp
qed

lemma sys_read_ok:
  "kinv pl k \<Longrightarrow> current k = Some c \<Longrightarrow> sys_read fd buf len k = Some r \<Longrightarrow> sysres_ok pl r"
  using sys_read_loop_ok [of pl k c buf len r]
  by (auto simp: sys_read_def word_neq_0_conv split: if_splits)

lemma syscall_table_ok:
  assumes "kinv pl k" "current k = Some c" "syscall_table num a0 a1 a2 a3 k = Some r"
  shows "sysres_ok pl r"
  using assms(3) sys_write_ok [OF assms(1,2)] sys_ps_ok [OF assms(1,2)] sys_exit_ok [OF assms(1,2)]
    sys_kill_ok [OF assms(1)] sys_read_ok [OF assms(1,2)] assms(1)
  by (auto simp: syscall_table_def sys_getpid_def sys_yield_def sys_ticks_def split: if_splits)

fun dispatched_ok :: "platform \<Rightarrow> dispatched \<Rightarrow> bool" where
  "dispatched_ok pl (Returned k) \<longleftrightarrow> kinv pl k"
| "dispatched_ok pl (Switched k) \<longleftrightarrow> kinv pl k"
| "dispatched_ok pl (Aborted k) \<longleftrightarrow> False"

lemma set_ret_kinv [simp]: "kinv pl (set_ret c v k) = kinv pl k"
  by (simp add: set_ret_def)

lemma deliver_ok: "sysres_ok pl r \<Longrightarrow> dispatched_ok pl (deliver c r)"
  by (cases r) simp_all

lemma syscall_dispatch_ok:
  "kinv pl k \<Longrightarrow> current k = Some c \<Longrightarrow> syscall_dispatch c' k = Some d \<Longrightarrow> dispatched_ok pl d"
  using syscall_table_ok [of pl k c] deliver_ok
  by (auto simp: syscall_dispatch_def Let_def split: if_splits)

end
