(* ===== verification/Irq.thy ===== *)
theory Irq
  imports Kinv
begin

text \<open>
  The interrupt path of the kernel core: the subsystem layers \<open>drivers/timer/timer_core.c\<close>,
  \<open>drivers/intc/intc_core.c\<close> and the receive half of \<open>drivers/uart/uart_core.c\<close>.

  What the hardware contributes to one interrupt is an argument: the line number that the
  controller reports (\<open>MAX_IRQS\<close> for a spurious one) and the bytes that the UART has
  received. Theories \<open>Uart_drv\<close>, \<open>Timer_drv\<close>, \<open>Intc_drv\<close> and \<open>Devices\<close> model the chip
  drivers that read them from the registers and show that they amount to these operations. \<open>eoi_log\<close> records the numbers passed to
  \<open>ops->eoi\<close>.
\<close>

definition MAX_IRQS :: u32 where "MAX_IRQS = 128"

section \<open>timer_core.c\<close>

fun run_timer_handler :: "timer_handler \<Rightarrow> kernel \<Rightarrow> kernel" where
  "run_timer_handler H_scheduler_tick k = scheduler_tick k"

definition timer_set_handler :: "timer_handler \<Rightarrow> kernel \<Rightarrow> kernel" where
  "timer_set_handler fn k = k\<lparr>user_handler := Some fn\<rparr>"

definition timer_tick :: "kernel \<Rightarrow> kernel" where
  "timer_tick k =
     (let k = k\<lparr>tick_count := tick_count k + 1\<rparr> in
      case user_handler k of
        Some fn \<Rightarrow> run_timer_handler fn k
      | None \<Rightarrow> k)"

section \<open>uart_core.c, receive side\<close>

text \<open>What \<open>console->ops->rx_irq\<close> does to the kernel: push every received byte, wake the reader.\<close>

definition uart_rx_irq :: "u8 list \<Rightarrow> kernel \<Rightarrow> kernel" where
  "uart_rx_irq bs k = scheduler_wake_reader (k\<lparr>rx_q := fold uart_rx_push bs (rx_q k)\<rparr>)"

section \<open>intc_core.c\<close>

definition irq_register :: "u32 \<Rightarrow> irq_handler \<Rightarrow> kernel \<Rightarrow> kernel" where
  "irq_register irq fn k =
     (if irq < MAX_IRQS then k\<lparr>irq_table := (irq_table k)(unat irq := Some fn)\<rparr> else k)"

definition irq_table_clear :: "kernel \<Rightarrow> kernel" where
  "irq_table_clear k = k\<lparr>irq_table := (\<lambda>i. if i < unat MAX_IRQS then None else irq_table k i)\<rparr>"

fun run_irq_handler :: "u8 list \<Rightarrow> irq_handler \<Rightarrow> kernel \<Rightarrow> kernel" where
  "run_irq_handler bs H_timer_irq k = timer_tick k"
| "run_irq_handler bs H_uart_rx_irq k = uart_rx_irq bs k"

definition irq_dispatch :: "u32 \<Rightarrow> u8 list \<Rightarrow> kernel \<Rightarrow> kernel" where
  "irq_dispatch n bs k =
     (let k = (if n < MAX_IRQS then
                 (case irq_table k (unat n) of
                    Some fn \<Rightarrow> run_irq_handler bs fn k
                  | None \<Rightarrow> k)
               else k)
      in k\<lparr>eoi_log := eoi_log k @ [n]\<rparr>)"

section \<open>The invariant\<close>

lemma kinv_slots [simp]:
  "kinv pl (k\<lparr>eoi_log := l\<rparr>) = kinv pl k" "kinv pl (k\<lparr>tick_count := t\<rparr>) = kinv pl k"
  "kinv pl (k\<lparr>irq_table := it\<rparr>) = kinv pl k" "kinv pl (k\<lparr>user_handler := h\<rparr>) = kinv pl k"
  by (simp_all add: kinv_def sched_inv_def mem_inv_def cont_inv_def pstate_def cong: option.case_cong)

lemma timer_tick_kinv [simp]: "kinv pl (timer_tick k) = kinv pl k"
proof (cases "user_handler k")
  case (Some fn)
  then show ?thesis by (cases fn) (simp add: timer_tick_def)
qed (simp add: timer_tick_def)

lemma uart_rx_irq_kinv: "kinv pl k \<Longrightarrow> kinv pl (uart_rx_irq bs k)"
  unfolding uart_rx_irq_def
  by (intro wake_reader_kinv) (simp add: rx.invar_pushes kinvD(2))

lemma irq_dispatch_kinv: "kinv pl k \<Longrightarrow> kinv pl (irq_dispatch n bs k)"
proof -
  assume a: "kinv pl k"
  then have "kinv pl (run_irq_handler bs fn k)" for fn
    using uart_rx_irq_kinv [OF a] by (cases fn) simp_all
  with a show ?thesis by (auto simp: irq_dispatch_def Let_def split: option.splits)
qed

section \<open>What an interrupt leaves alone\<close>

lemma wake_reader_frame [frame]:
  "current (scheduler_wake_reader k) = current k" "pmem (scheduler_wake_reader k) = pmem k"
  "conts (scheduler_wake_reader k) = conts k" "frames (scheduler_wake_reader k) = frames k"
  "rx_q (scheduler_wake_reader k) = rx_q k" "tx (scheduler_wake_reader k) = tx k"
  "tick_count (scheduler_wake_reader k) = tick_count k" "eoi_log (scheduler_wake_reader k) = eoi_log k"
  "irq_table (scheduler_wake_reader k) = irq_table k" "statics (scheduler_wake_reader k) = statics k"
  using statics_set_state [of _ TASK_READY k]
  by (auto simp: scheduler_wake_reader_def statics_def set_state_def split: option.splits)

lemma timer_tick_frame [frame]:
  "current (timer_tick k) = current k" "pmem (timer_tick k) = pmem k" "conts (timer_tick k) = conts k"
  "frames (timer_tick k) = frames k" "rx_q (timer_tick k) = rx_q k" "processes (timer_tick k) = processes k"
  "tick_count (timer_tick k) = tick_count k + 1" "eoi_log (timer_tick k) = eoi_log k"
  "need_reschedule (timer_tick k) \<longleftrightarrow> need_reschedule k \<or> user_handler k \<noteq> None"
  "wake_hint (timer_tick k) = wake_hint k"
  by (cases "user_handler k"; simp add: timer_tick_def;
      cases "the (user_handler k)"; simp add: scheduler_tick_def)+

lemma irq_dispatch_frame [frame]:
  "current (irq_dispatch n bs k) = current k" "pmem (irq_dispatch n bs k) = pmem k"
  "conts (irq_dispatch n bs k) = conts k" "frames (irq_dispatch n bs k) = frames k"
  "eoi_log (irq_dispatch n bs k) = eoi_log k @ [n]"
proof -
  have h: "current (run_irq_handler bs fn k) = current k" "pmem (run_irq_handler bs fn k) = pmem k"
    "conts (run_irq_handler bs fn k) = conts k" "frames (run_irq_handler bs fn k) = frames k"
    "eoi_log (run_irq_handler bs fn k) = eoi_log k" for fn
    by (cases fn; simp add: uart_rx_irq_def frame)+
  then show "current (irq_dispatch n bs k) = current k" "pmem (irq_dispatch n bs k) = pmem k"
    "conts (irq_dispatch n bs k) = conts k" "frames (irq_dispatch n bs k) = frames k"
    "eoi_log (irq_dispatch n bs k) = eoi_log k @ [n]"
    by (simp_all add: irq_dispatch_def Let_def split: option.splits)
qed

text \<open>States of processes: an interrupt moves at most the parked reader, from BLOCKED to READY.\<close>

lemma irq_dispatch_pstate:
  assumes "sched_inv k" "pstate k i \<noteq> TASK_BLOCKED"
  shows "pstate (irq_dispatch n bs k) i = pstate k i"
proof -
  have "pstate (run_irq_handler bs fn k) i = pstate k i" for fn
  proof (cases fn)
    case H_timer_irq
    then show ?thesis by (simp add: pstate_def frame)
  next
    case H_uart_rx_irq
    have "p < length (processes k)" if "blocked_reader k = Some p" for p
      using assms(1) that by (auto elim!: sched_invD)
    then show ?thesis using H_uart_rx_irq assms(2)
      by (auto simp: uart_rx_irq_def scheduler_wake_reader_def pstate_def set_state_def nth_upd_proc
          split: option.splits)
  qed
  then show ?thesis by (auto simp: irq_dispatch_def Let_def pstate_def split: option.splits)
qed

end
