(* ===== verification/Exception.thy ===== *)
theory Exception
  imports Irq
begin

text \<open>
  The exception handlers, \<open>kernel/arch/arm/exception/exception_handlers.c\<close>, with the entry
  stubs of \<open>exception_entry.S\<close> around them. The kernel runs with interrupts masked, so one
  exception is handled to its end before the next: \<open>kernel_entry\<close> maps the state in which user
  code was interrupted to the state in which some process is back in user mode
  (\<open>To_user\<close>), the machine has halted (\<open>Halted\<close>) or the kernel itself aborted (\<open>Kabort\<close>).
  No value means that the kernel never comes back.

  When \<open>schedule\<close> switches away, control continues where the new process left off
  (\<open>resume\<close>), which can be inside \<open>sys_read\<close>.
\<close>

section \<open>Outcomes\<close>

datatype kout = To_user kernel | Halted kernel | Kabort kernel

text \<open>The running process; the default is never used once \<open>process_init_all\<close> has run.\<close>

definition cur :: "kernel \<Rightarrow> nat" where
  "cur k = (case current k of Some c \<Rightarrow> c | None \<Rightarrow> 0)"

section \<open>Diagnostics\<close>

definition mode_name :: "u32 \<Rightarrow> u8 list" where
  "mode_name cpsr =
     (let m = cpsr AND 0x1F in
      if m = 0x10 then bytes ''USR''
      else if m = 0x11 then bytes ''FIQ''
      else if m = 0x12 then bytes ''IRQ''
      else if m = 0x13 then bytes ''SVC''
      else if m = 0x17 then bytes ''ABT''
      else if m = 0x1B then bytes ''UND''
      else if m = 0x1F then bytes ''SYS''
      else bytes ''???'')"

definition masked_str :: "u32 \<Rightarrow> nat \<Rightarrow> u8 list" where
  "masked_str psr b = (if psr AND push_bit b 1 \<noteq> 0 then bytes ''masked'' else bytes ''on'')"

definition dump_context :: "exception_context \<Rightarrow> kernel \<Rightarrow> kernel" where
  "dump_context ctx k =
     (let r = e_r ctx;
          k = kprintf (bytes ''  SPSR = 0x%08x  (mode=%s, IRQ=%s, FIQ=%s)'' @ [10])
                [VInt (e_spsr ctx), VStr (mode_name (e_spsr ctx)),
                 VStr (masked_str (e_spsr ctx) 7), VStr (masked_str (e_spsr ctx) 6)] k;
          k = kprintf (bytes ''  PC   = 0x%08x  (faulting/return address)'' @ [10]) [VInt (e_lr ctx)] k;
          k = kprintf (bytes ''  r0 =%08x  r1 =%08x  r2 =%08x  r3 =%08x'' @ [10])
                [VInt (r ! 0), VInt (r ! 1), VInt (r ! 2), VInt (r ! 3)] k;
          k = kprintf (bytes ''  r4 =%08x  r5 =%08x  r6 =%08x  r7 =%08x'' @ [10])
                [VInt (r ! 4), VInt (r ! 5), VInt (r ! 6), VInt (r ! 7)] k;
          k = kprintf (bytes ''  r8 =%08x  r9 =%08x  r10=%08x  r11=%08x'' @ [10])
                [VInt (r ! 8), VInt (r ! 9), VInt (r ! 10), VInt (r ! 11)] k
      in kprintf (bytes ''  r12=%08x'' @ [10]) [VInt (r ! 12)] k)"

definition halt_forever :: "kernel \<Rightarrow> kout" where
  "halt_forever k = Halted (kprintf (bytes ''[PANIC] system halted.'' @ [10]) [] k)"

definition no_runnable_panic :: "kernel \<Rightarrow> kout" where
  "no_runnable_panic k =
     halt_forever (kprintf (bytes ''[PANIC] no runnable process left after user fault'' @ [10]) [] k)"

section \<open>Continuing a process\<close>

text \<open>
  After a switch: the statement at which the new process left off. A reader goes through the
  loop of \<open>sys_read\<close> again, then \<open>syscall_dispatch\<close> stores its result and \<open>handle_svc\<close> calls
  \<open>schedule()\<close>. Nothing but a switch can bring control back into \<open>user_fault_kill\<close>.
\<close>

partial_function (option) resume :: "nat \<Rightarrow> kernel \<Rightarrow> kout option" where
  "resume t k =
     (case conts k t of
        K_first_entry \<Rightarrow> Some (To_user k)
      | K_user_return \<Rightarrow> Some (To_user k)
      | K_user_fault \<Rightarrow> Some (no_runnable_panic k)
      | K_sys_read buf len \<Rightarrow>
          (case sys_read_loop buf len 0 k of
             None \<Rightarrow> None
           | Some r \<Rightarrow>
               (case deliver t r of
                  Aborted k' \<Rightarrow> Some (Kabort k')
                | Switched k' \<Rightarrow> resume (cur k') k'
                | Returned k' \<Rightarrow>
                    (case schedule K_user_return k' of
                       (k'', away) \<Rightarrow> if away then resume (cur k'') k'' else Some (To_user k'')))))"

text \<open>\<open>schedule()\<close> at the tail of a handler, then the return to user mode.\<close>

definition sched_tail :: "kernel \<Rightarrow> kout option" where
  "sched_tail k =
     (case schedule K_user_return k of
        (k', away) \<Rightarrow> if away then resume (cur k') k' else Some (To_user k'))"

section \<open>Handlers\<close>

definition handle_svc :: "nat \<Rightarrow> kernel \<Rightarrow> kout option" where
  "handle_svc c k =
     (case syscall_dispatch c k of
        None \<Rightarrow> None
      | Some (Returned k') \<Rightarrow> sched_tail k'
      | Some (Switched k') \<Rightarrow> resume (cur k') k'
      | Some (Aborted k') \<Rightarrow> Some (Kabort k'))"

definition handle_irq :: "u32 \<Rightarrow> u8 list \<Rightarrow> kernel \<Rightarrow> kout option" where
  "handle_irq n bs k = sched_tail (irq_dispatch n bs k)"

definition fault_from_user :: "exception_context \<Rightarrow> bool" where
  "fault_from_user ctx \<longleftrightarrow> e_spsr ctx AND 0x1F = 0x10"

definition retire :: "u8 list \<Rightarrow> kernel \<Rightarrow> kernel" where
  "retire kind k =
     (case current k of
        None \<Rightarrow> k
      | Some c \<Rightarrow>
          set_state c TASK_DEAD
            (kprintf (bytes ''[KILL] pid=%u name=%s killed by %s'' @ [10])
               [VInt (p_pid (processes k ! c)), VStr (p_name (processes k ! c)), VStr kind] k))"

definition user_fault_kill :: "u8 list \<Rightarrow> kernel \<Rightarrow> kout option" where
  "user_fault_kill kind k =
     (case schedule K_user_fault (scheduler_request_resched (retire kind k)) of
        (k', away) \<Rightarrow> if away then resume (cur k') k' else Some (no_runnable_panic k'))"

definition handle_data_abort :: "u32 \<Rightarrow> u32 \<Rightarrow> exception_context \<Rightarrow> kernel \<Rightarrow> kout option" where
  "handle_data_abort dfsr dfar ctx k =
     (if fault_from_user ctx then
        user_fault_kill (bytes ''data abort'')
          (kprintf (bytes ''[FAULT] data abort  DFAR=0x%08x DFSR=0x%08x PC=0x%08x'' @ [10])
             [VInt dfar, VInt dfsr, VInt (e_lr ctx)] k)
      else
        (let k = kprintf ([10] @ bytes ''[PANIC] *** DATA ABORT (kernel) ***'' @ [10]) [] k;
             k = kprintf (bytes ''  DFAR = 0x%08x  (faulting address)'' @ [10]) [VInt dfar] k;
             k = kprintf (bytes ''  DFSR = 0x%08x  (fault status)'' @ [10]) [VInt dfsr] k
         in Some (halt_forever (dump_context ctx k))))"

definition handle_prefetch_abort :: "u32 \<Rightarrow> u32 \<Rightarrow> exception_context \<Rightarrow> kernel \<Rightarrow> kout option" where
  "handle_prefetch_abort ifsr ifar ctx k =
     (if fault_from_user ctx then
        user_fault_kill (bytes ''prefetch abort'')
          (kprintf (bytes ''[FAULT] prefetch abort  IFAR=0x%08x IFSR=0x%08x'' @ [10])
             [VInt ifar, VInt ifsr] k)
      else
        (let k = kprintf ([10] @ bytes ''[PANIC] *** PREFETCH ABORT (kernel) ***'' @ [10]) [] k;
             k = kprintf (bytes ''  IFAR = 0x%08x  (faulting address)'' @ [10]) [VInt ifar] k;
             k = kprintf (bytes ''  IFSR = 0x%08x  (fault status)'' @ [10]) [VInt ifsr] k
         in Some (halt_forever (dump_context ctx k))))"

definition handle_undefined :: "exception_context \<Rightarrow> kernel \<Rightarrow> kout option" where
  "handle_undefined ctx k =
     (if fault_from_user ctx then
        user_fault_kill (bytes ''undefined instruction'')
          (kprintf (bytes ''[FAULT] undefined instr at PC=0x%08x'' @ [10]) [VInt (e_lr ctx)] k)
      else
        (let k = kprintf ([10] @ bytes ''[PANIC] *** UNDEFINED INSTRUCTION (kernel) ***'' @ [10]) [] k
         in Some (halt_forever (dump_context ctx k))))"

section \<open>Entry\<close>

text \<open>
  What user code can cause or suffer: a system call, an interrupt (with what the hardware
  reports), a fault. The stub saves the context of the interrupted process first.
\<close>

datatype event =
    Svc exception_context
  | Irq exception_context u32 "u8 list"
  | Dabort exception_context u32 u32
  | Pabort exception_context u32 u32
  | Undef exception_context

fun event_ctx :: "event \<Rightarrow> exception_context" where
  "event_ctx (Svc ctx) = ctx"
| "event_ctx (Irq ctx n bs) = ctx"
| "event_ctx (Dabort ctx dfsr dfar) = ctx"
| "event_ctx (Pabort ctx ifsr ifar) = ctx"
| "event_ctx (Undef ctx) = ctx"

definition save_frame :: "exception_context \<Rightarrow> kernel \<Rightarrow> kernel" where
  "save_frame ctx k = k\<lparr>frames := (frames k)(cur k := ctx)\<rparr>"

fun handle :: "event \<Rightarrow> kernel \<Rightarrow> kout option" where
  "handle (Svc ctx) k = handle_svc (cur k) k"
| "handle (Irq ctx n bs) k = handle_irq n bs k"
| "handle (Dabort ctx dfsr dfar) k = handle_data_abort dfsr dfar ctx k"
| "handle (Pabort ctx ifsr ifar) k = handle_prefetch_abort ifsr ifar ctx k"
| "handle (Undef ctx) k = handle_undefined ctx k"

definition kernel_entry :: "event \<Rightarrow> kernel \<Rightarrow> kout option" where
  "kernel_entry ev k = handle ev (save_frame (event_ctx ev) k)"

end
