(* ===== verification/Kexec.thy ===== *)
theory Kexec
  imports Exception
begin

text \<open>
  What the handlers do to the whole kernel: an induction rule for the chain of processes that
  \<open>resume\<close> goes through, and from it that every exception keeps the invariant, returns to
  user mode whenever somebody can run, writes only where it may, and never revives a process
  that is dead.
\<close>

section \<open>The chain of continuations\<close>

text \<open>The state right after a switch to \<open>t\<close>.\<close>

definition switched_in :: "platform \<Rightarrow> nat \<Rightarrow> kernel \<Rightarrow> bool" where
  "switched_in pl t k \<longleftrightarrow>
     kinv pl k \<and> current k = Some t \<and> \<not> need_reschedule k \<and> conts k t \<noteq> K_user_fault \<and>
     pstate k t = TASK_RUNNING"

lemma switched_inD:
  assumes "switched_in pl t k"
  shows "kinv pl k" "current k = Some t" "\<not> need_reschedule k" "conts k t \<noteq> K_user_fault" "t < 3"
    "length (processes k) = 3" "cur k = t" "pstate k t = TASK_RUNNING"
proof -
  show s: "kinv pl k" "current k = Some t" "\<not> need_reschedule k" "conts k t \<noteq> K_user_fault"
    "pstate k t = TASK_RUNNING" using assms by (simp_all add: switched_in_def)
  show "cur k = t" using s(2) by (simp add: cur_def)
  from kinvD(1) [OF s(1)] obtain c where "current k = Some c" "c < 3" "length (processes k) = 3"
    by (rule sched_invD)
  with s(2) show "t < 3" "length (processes k) = 3" by simp_all
qed

lemma runnable_alive: "runnable st \<Longrightarrow> st \<noteq> TASK_DEAD"
  by (auto simp: runnable_def)

lemma schedule_switches_in:
  assumes "kinv pl k" "current k = Some c" "cont_ok rc" "rc = K_user_fault \<Longrightarrow> pstate k c = TASK_DEAD"
    "schedule rc k = (k', True)"
  obtains t where "switched_in pl t k'" "current k' = Some t" "t \<noteq> c" "runnable (pstate k t)"
    "conts k' = (conts k)(c := rc)" "sched_target k c = Some t"
proof -
  obtain t where t: "sched_target k c = Some t" "t < 3" "t \<noteq> c" "runnable (pstate k t)" "current k' = Some t"
    "pstate k' t = TASK_RUNNING" "conts k' = (conts k)(c := rc)"
    by (rule schedule_away [OF kinvD(1) [OF assms(1)] assms(2,5)])
  have "kinv pl k'" "\<not> need_reschedule k'"
    using schedule_kinv [OF assms(1-4)] schedule_frame(9) [OF kinvD(1) [OF assms(1)], of rc] assms(5)
    by simp_all
  moreover have "conts k' t \<noteq> K_user_fault"
    using kinvD(4) [OF assms(1)] t assms(2) runnable_alive by (auto simp: cont_inv_def)
  ultimately show ?thesis using that t by (simp add: switched_in_def)
qed

text \<open>One step of the chain: the next process is a reader and the ring is empty.\<close>

definition parks :: "nat \<Rightarrow> kernel \<Rightarrow> nat \<Rightarrow> kernel \<Rightarrow> bool" where
  "parks t k t' k' \<longleftrightarrow>
     (\<exists>buf len. conts k t = K_sys_read buf len \<and> ring_list (rx_q k) = [] \<and>
        schedule (K_sys_read buf len) (blocking t k) = (k', True) \<and> current k' = Some t')"

text \<open>The reader finds bytes: they are copied and the call returns their number.\<close>

definition reads :: "platform \<Rightarrow> nat \<Rightarrow> kernel \<Rightarrow> kernel \<Rightarrow> bool" where
  "reads pl t k k' \<longleftrightarrow>
     (\<exists>buf len q w. conts k t = K_sys_read buf len \<and> w = take (unat len) (ring_list (rx_q k)) \<and>
        w \<noteq> [] \<and> ring_inv q \<and> ring_list q = drop (length w) (ring_list (rx_q k)) \<and>
        k' = set_ret t (of_nat (length w))
               (k\<lparr>rx_q := q, pmem := store_bytes (upa pl t buf) w (pmem k)\<rparr>))"

lemma schedule_idle: "\<not> need_reschedule k \<Longrightarrow> schedule rc k = (k, False)"
  by (cases "current k") (simp_all add: schedule_def)

lemma resume_step:
  assumes "switched_in pl t k"
  obtains (user) "conts k t \<in> {K_first_entry, K_user_return}" "resume t k = Some (To_user k)"
  | (read) k' where "reads pl t k k'" "resume t k = Some (To_user k')"
  | (park) t' k' where "parks t k t' k'" "switched_in pl t' k'" "resume t k = resume t' k'"
      "t' \<noteq> t" "runnable (pstate k t')"
  | (stuck) "\<forall>i < 3. i \<noteq> t \<longrightarrow> \<not> runnable (pstate k i)" "ring_list (rx_q k) = []" "resume t k = None"
proof -
  note s = switched_inD [OF assms]
  show ?thesis
  proof (cases "conts k t")
    case (K_sys_read buf len)
    have ok: "0 < len" "valid_user_ptr buf len"
      using kinvD(4) [OF s(1)] K_sys_read s(5) by (auto simp: cont_inv_def)
    show ?thesis
    proof (cases rule: sys_read_loop_cases [OF s(1,2) ok(2,1)])
      case (1 q w)
      define k' where "k' = set_ret t (of_nat (length w))
        (k\<lparr>rx_q := q, pmem := store_bytes (upa pl t buf) w (pmem k)\<rparr>)"
      have "\<not> need_reschedule k'" using s(3) by (simp add: k'_def set_ret_def)
      then have "resume t k = Some (To_user k')"
        by (subst resume.simps) (simp add: K_sys_read 1(3) k'_def schedule_idle)
      moreover have "reads pl t k k'" using 1 K_sys_read by (auto simp: reads_def k'_def)
      ultimately show ?thesis using read by blast
    next
      case (2 k')
      obtain t' where t': "switched_in pl t' k'" "current k' = Some t'" "t' \<noteq> t"
        "runnable (pstate (blocking t k) t')"
        by (rule schedule_switches_in [OF blocking_kinv [OF s(1,2)] _ _ _ 2(2)]) (use s ok in auto)
      have "resume t k = resume t' k'"
        by (subst resume.simps) (simp add: K_sys_read 2(3) switched_inD(7) [OF t'(1)])
      moreover have "parks t k t' k'" using 2 K_sys_read t'(2) by (auto simp: parks_def)
      moreover have "runnable (pstate k t')" using t'(3,4) s(5,6) by (simp add: blocking_pstate)
      ultimately show ?thesis using park t'(1,3) by blast
    next
      case 3
      then have "resume t k = None" by (subst resume.simps) (simp add: K_sys_read)
      then show ?thesis using stuck 3(1,2) by blast
    qed
  next
    case K_first_entry
    then have "resume t k = Some (To_user k)" by (subst resume.simps) simp
    then show ?thesis using K_first_entry user by simp
  next
    case K_user_return
    then have "resume t k = Some (To_user k)" by (subst resume.simps) simp
    then show ?thesis using K_user_return user by simp
  next
    case K_user_fault
    then show ?thesis using s(4) by simp
  qed
qed

text \<open>Every process that parks leaves one fewer that can run.\<close>

definition alive_count :: "kernel \<Rightarrow> nat" where
  "alive_count k = length (filter (\<lambda>i. runnable (pstate k i)) [0..<3])"

lemma parks_pstate:
  assumes "switched_in pl t k" "parks t k t' k'"
  shows "pstate k' i = (if i = t' then TASK_RUNNING else if i = t then TASK_BLOCKED else pstate k i)"
proof -
  note s = switched_inD [OF assms(1)]
  from assms(2) obtain rc where p: "schedule rc (blocking t k) = (k', True)" "current k' = Some t'"
    by (auto simp: parks_def)
  have "sched_inv (blocking t k)" by (rule blocking_inv [OF kinvD(1) [OF s(1)] s(5)])
  from schedule_pstate [OF this, of t rc i] show ?thesis
    using p s by (auto simp: blocking_pstate)
qed

lemma parks_frame:
  assumes "switched_in pl t k" "parks t k t' k'"
  shows "pmem k' = pmem k" "rx_q k' = rx_q k" "frames k' = frames k" "tx k' = tx k"
    "i \<noteq> t \<Longrightarrow> conts k' i = conts k i" "conts k' t = conts k t" "statics k' = statics k"
proof -
  note s = switched_inD [OF assms(1)]
  from assms(2) obtain buf len where c: "conts k t = K_sys_read buf len"
    and p: "schedule (K_sys_read buf len) (blocking t k) = (k', True)" by (auto simp: parks_def)
  have inv: "sched_inv (blocking t k)" by (rule blocking_inv [OF kinvD(1) [OF s(1)] s(5)])
  obtain t2 where "conts k' = (conts (blocking t k))(t := K_sys_read buf len)"
    by (rule schedule_away [OF inv _ p]) (use s in simp_all)
  then show "i \<noteq> t \<Longrightarrow> conts k' i = conts k i" "conts k' t = conts k t" using c by simp_all
  show "pmem k' = pmem k" "rx_q k' = rx_q k" "frames k' = frames k" "tx k' = tx k"
    "statics k' = statics k"
    using schedule_frame [OF inv, of "K_sys_read buf len"] schedule_statics [OF inv, of "K_sys_read buf len"] p
    by simp_all
qed

lemma parks_runnable:
  assumes "switched_in pl t k" "parks t k t' k'" "t' \<noteq> t" "runnable (pstate k t')"
  shows "i \<noteq> t \<Longrightarrow> runnable (pstate k' i) \<longleftrightarrow> runnable (pstate k i)" "\<not> runnable (pstate k' t)"
  using parks_pstate [OF assms(1,2), of i] parks_pstate [OF assms(1,2), of t] assms(3,4)
  by (auto simp: runnable_def)

lemma parks_count:
  assumes "switched_in pl t k" "parks t k t' k'" "t' \<noteq> t" "runnable (pstate k t')"
  shows "alive_count k' < alive_count k"
proof -
  have t: "t < 3" by (rule switched_inD(5) [OF assms(1)])
  have alive: "runnable (pstate k t)" using switched_inD(8) [OF assms(1)] by (simp add: runnable_def)
  have "[0..<3] = [0, 1, 2 :: nat]" by (simp add: upt_rec)
  then show ?thesis
    using parks_runnable(1) [OF assms(1-4), of 0] parks_runnable(1) [OF assms(1-4), of 1]
      parks_runnable(1) [OF assms(1-4), of 2] parks_runnable(2) [OF assms(1-4)] alive less_3_cases [OF t]
    by (auto simp: alive_count_def)
qed

lemma resume_chain [consumes 2, case_names user read park]:
  assumes "switched_in pl t k" "resume t k = Some out"
    and "\<And>t k. switched_in pl t k \<Longrightarrow> conts k t \<in> {K_first_entry, K_user_return} \<Longrightarrow> P t k (To_user k)"
    and "\<And>t k k'. switched_in pl t k \<Longrightarrow> reads pl t k k' \<Longrightarrow> P t k (To_user k')"
    and "\<And>t k t' k'. switched_in pl t k \<Longrightarrow> parks t k t' k' \<Longrightarrow> switched_in pl t' k' \<Longrightarrow> t' \<noteq> t \<Longrightarrow>
      runnable (pstate k t') \<Longrightarrow> P t' k' out \<Longrightarrow> P t k out"
  shows "P t k out"
  using assms(1,2)
proof (induction "alive_count k" arbitrary: t k rule: less_induct)
  case less
  show ?case
  proof (cases rule: resume_step [OF less.prems(1)])
    case 1
    then show ?thesis using assms(3) [OF less.prems(1)] less.prems(2) by simp
  next
    case (2 k')
    then show ?thesis using assms(4) [OF less.prems(1)] less.prems(2) by simp
  next
    case (3 t' k')
    have "P t' k' out"
      using less.hyps [OF parks_count [OF less.prems(1) 3(1,4,5)] 3(2)] less.prems(2) 3(3) by simp
    then show ?thesis using assms(5) [OF less.prems(1) 3(1,2,4,5)] by simp
  next
    case 4
    then show ?thesis using less.prems(2) by simp
  qed
qed

text \<open>Somebody gets back to user mode if there is input or a process that does not wait for it.\<close>

lemma resume_returns:
  assumes "switched_in pl t k"
    and "ring_list (rx_q k) \<noteq> [] \<or>
      (\<exists>i < 3. runnable (pstate k i) \<and> (\<forall>buf len. conts k i \<noteq> K_sys_read buf len))"
  shows "\<exists>out. resume t k = Some out"
  using assms
proof (induction "alive_count k" arbitrary: t k rule: less_induct)
  case less
  show ?case
  proof (cases rule: resume_step [OF less.prems(1)])
    case (3 t' k')
    obtain buf len where e: "conts k t = K_sys_read buf len" "ring_list (rx_q k) = []"
      using 3(1) by (auto simp: parks_def)
    then obtain i where i: "i < 3" "i \<noteq> t" "runnable (pstate k i)"
      "\<forall>buf len. conts k i \<noteq> K_sys_read buf len" using less.prems(2) by auto
    then have "runnable (pstate k' i)" "\<forall>buf len. conts k' i \<noteq> K_sys_read buf len"
      using parks_runnable(1) [OF less.prems(1) 3(1,4,5) i(2)] parks_frame(5) [OF less.prems(1) 3(1) i(2)]
      by simp_all
    then show ?thesis
      using less.hyps [OF parks_count [OF less.prems(1) 3(1,4,5)] 3(2)] 3(3) i(1) by auto
  next
    case 4
    have "\<exists>buf len. conts k t = K_sys_read buf len"
      using 4(3) switched_inD(4) [OF less.prems(1)]
      by (cases "conts k t") (auto simp: resume.simps [of t k])
    then show ?thesis using less.prems(2) 4(1,2) by auto
  qed simp_all
qed

section \<open>What a chain changes\<close>

fun user_out :: "(kernel \<Rightarrow> bool) \<Rightarrow> kout \<Rightarrow> bool" where
  "user_out P (To_user k) = P k"
| "user_out P (Halted k) = False"
| "user_out P (Kabort k) = False"

lemma reads_kinv:
  assumes "switched_in pl t k" "reads pl t k k'"
  shows "kinv pl k'" "current k' = Some t" "pstate k' i = pstate k i" "statics k' = statics k"
    "conts k' = conts k"
  using assms switched_inD(1,2) [OF assms(1)]
  by (auto simp: reads_def set_ret_def pstate_def statics_def)

lemma resume_kinv:
  assumes "switched_in pl t k" "resume t k = Some out"
  shows "user_out (\<lambda>k'. kinv pl k' \<and> pstate k' (cur k') = TASK_RUNNING) out"
  using assms
proof (induction rule: resume_chain)
  case (user t k)
  then show ?case using switched_inD [OF user(1)] by simp
next
  case (read t k k')
  then show ?case
    using reads_kinv [OF read] switched_inD(8) [OF read(1)] by (simp add: cur_def)
next
  case (park t k t' k')
  then show ?case by simp
qed

lemma resume_dead:
  assumes "switched_in pl t k" "resume t k = Some out"
  shows "pstate k i = TASK_DEAD \<longrightarrow> user_out (\<lambda>k'. pstate k' i = TASK_DEAD \<and> current k' \<noteq> Some i) out"
  using assms
proof (induction rule: resume_chain)
  case (user t k)
  then show ?case using switched_inD(2,8) [OF user(1)] by auto
next
  case (read t k k')
  then show ?case using reads_kinv(2,3) [OF read] switched_inD(8) [OF read(1)] by auto
next
  case (park t k t' k')
  have "i \<noteq> t'" "i \<noteq> t" if "pstate k i = TASK_DEAD"
    using that switched_inD(8) [OF park(1)] runnable_alive [OF park(5)] by auto
  then show ?case using parks_pstate [OF park(1,2), of i] park(6) by auto
qed

section \<open>Who is affected\<close>

text \<open>
  \<open>confined pl S k k'\<close>: only user memory and saved frames of processes in \<open>S\<close> may differ.
\<close>

definition confined :: "platform \<Rightarrow> nat set \<Rightarrow> kernel \<Rightarrow> kernel \<Rightarrow> bool" where
  "confined pl S k k' \<longleftrightarrow>
     (\<forall>a. pmem k' a \<noteq> pmem k a \<longrightarrow> (\<exists>c \<in> S. c < 3 \<and> (\<exists>va. in_user_window va \<and> a = upa pl c va))) \<and>
     (\<forall>i. i \<notin> S \<longrightarrow> frames k' i = frames k i)"

lemma confined_refl: "pmem k' = pmem k \<Longrightarrow> frames k' = frames k \<Longrightarrow> confined pl S k k'"
  by (simp add: confined_def)

lemma confined_trans:
  "confined pl S k k1 \<Longrightarrow> confined pl T k1 k2 \<Longrightarrow> confined pl (S \<union> T) k k2"
  unfolding confined_def by (metis Un_iff)

lemma confined_mono: "confined pl S k k' \<Longrightarrow> S \<subseteq> T \<Longrightarrow> confined pl T k k'"
  unfolding confined_def by blast

lemma confined_store:
  assumes "valid_user_ptr buf len" "length w \<le> unat len" "c < 3"
    "pmem k' = store_bytes (upa pl c buf) w (pmem k)" "\<And>i. i \<noteq> c \<Longrightarrow> frames k' i = frames k i"
  shows "confined pl {c} k k'"
proof -
  have "\<exists>va. in_user_window va \<and> a = upa pl c va" if "pmem k' a \<noteq> pmem k a" for a
  proof -
    have "\<exists>j < length w. a = upa pl c buf + of_nat j"
      using store_bytes_other [of w a "upa pl c buf" "pmem k"] that unfolding assms(4) by blast
    then obtain j where j: "j < length w" "a = upa pl c buf + of_nat j" by blast
    then have "j < unat len" using assms(2) by simp
    then have "(of_nat j :: u32) < len"
      by (simp add: word_less_nat_alt unat_of_nat take_bit_eq_mod order.strict_trans [OF _ unat_u32_less])
    then have "in_user_window (buf + of_nat j)" by (rule valid_user_ptr_window [OF assms(1)])
    then show ?thesis using j(2) upa_add by metis
  qed
  then show ?thesis using assms(3,5) by (auto simp: confined_def)
qed

text \<open>What a system call of \<open>c\<close> does outside of \<open>c\<close>.\<close>

definition effect_of :: "platform \<Rightarrow> nat \<Rightarrow> kernel \<Rightarrow> kernel \<Rightarrow> bool" where
  "effect_of pl c k k' \<longleftrightarrow>
     confined pl {c} k k' \<and> (\<forall>i. i \<noteq> c \<longrightarrow> conts k' i = conts k i) \<and>
     (\<forall>i < 3. i \<noteq> c \<longrightarrow> pstate k i = TASK_DEAD \<longrightarrow> pstate k' i = TASK_DEAD)"

fun sys_post :: "platform \<Rightarrow> nat \<Rightarrow> kernel \<Rightarrow> sysres \<Rightarrow> bool" where
  "sys_post pl c k (Ret v k') \<longleftrightarrow> effect_of pl c k k' \<and> current k' = Some c"
| "sys_post pl c k (Away k') \<longleftrightarrow> effect_of pl c k k' \<and> switched_in pl (cur k') k' \<and> cur k' \<noteq> c"
| "sys_post pl c k (Abort k') \<longleftrightarrow> False"

lemma effect_same:
  "pmem k' = pmem k \<Longrightarrow> frames k' = frames k \<Longrightarrow> conts k' = conts k \<Longrightarrow> processes k' = processes k \<Longrightarrow>
   effect_of pl c k k'"
  by (simp add: effect_of_def confined_refl pstate_def)

lemma effect_kill:
  assumes "length (processes k) = 3" "p < 3"
  shows "effect_of pl c k (scheduler_request_resched (set_state p TASK_DEAD (k\<lparr>tx := out\<rparr>)))"
proof -
  let ?k = "set_state p TASK_DEAD (k\<lparr>tx := out\<rparr>)"
  have "pstate ?k i = (if i = p then TASK_DEAD else pstate k i)" for i
    using assms by (simp add: pstate_set_state) (simp add: pstate_def)
  then have "\<forall>i. pstate k i = TASK_DEAD \<longrightarrow> pstate (scheduler_request_resched ?k) i = TASK_DEAD"
    by (simp add: scheduler_request_resched_def pstate_def)
  then show ?thesis
    by (simp add: effect_of_def confined_def scheduler_request_resched_def)
qed

lemma effect_store:
  assumes "valid_user_ptr buf len" "length w \<le> unat len" "c < 3"
    "k' = k\<lparr>pmem := store_bytes (upa pl c buf) w (pmem k)\<rparr> \<or>
     k' = k\<lparr>rx_q := q, pmem := store_bytes (upa pl c buf) w (pmem k)\<rparr>"
  shows "effect_of pl c k k'"
  using confined_store [OF assms(1-3), of k' pl k] assms(4)
  by (auto simp: effect_of_def pstate_def)

lemma sys_write_post:
  "kinv pl k \<Longrightarrow> current k = Some c \<Longrightarrow> sys_post pl c k (sys_write fd buf len k)"
  by (cases "valid_user_ptr buf len")
    (simp_all add: sys_write_eq effect_same, simp add: sys_write_def effect_same)

lemma sys_ps_post:
  assumes "kinv pl k" "current k = Some c" "c < 3"
  shows "sys_post pl c k (sys_ps buf sz k)"
proof (cases "valid_user_ptr buf sz")
  case True
  let ?w = "take (unat sz - 1) (ps_listing k)"
  have "effect_of pl c k (k\<lparr>pmem := store_bytes (upa pl c buf) ?w (pmem k)\<rparr>)"
    by (rule effect_store [OF True _ assms(3), of ?w]) auto
  then show ?thesis using assms True by (simp add: sys_ps_eq Let_def)
next
  case False
  then show ?thesis using assms by (simp add: sys_ps_def effect_same)
qed

lemma sys_kill_post:
  assumes "length (processes k) = 3" "current k = Some c"
  shows "sys_post pl c k (sys_kill pid k)"
proof (cases "pid < NUM_PROCESSES \<and> pstate k (unat pid) \<noteq> TASK_DEAD")
  case True
  then have "unat pid < 3" by (simp add: kconst word_less_nat_alt)
  note eff = effect_kill [OF assms(1) this]
  have *: "pid < NUM_PROCESSES" "pstate k (unat pid) \<noteq> TASK_DEAD" using True by simp_all
  show ?thesis
    unfolding sys_kill_eq [OF *] sys_post.simps
    by (intro conjI eff) (simp add: scheduler_request_resched_def assms(2))
next
  case False
  then show ?thesis using assms by (auto simp: sys_kill_def effect_same not_le)
qed

lemma sys_exit_post:
  assumes "length (processes k) = 3" "current k = Some c" "c < 3"
  shows "sys_post pl c k (sys_exit k)"
  using effect_kill [OF assms(1,3)] assms(2)
  by (simp only: sys_exit_eq [OF assms(2)] sys_post.simps) (simp add: scheduler_request_resched_def)

lemma sys_read_post:
  assumes "kinv pl k" "current k = Some c" "c < 3" "valid_user_ptr buf len" "0 < len"
    "sys_read_loop buf len 0 k = Some r"
  shows "sys_post pl c k r"
proof (cases rule: sys_read_loop_cases [OF assms(1,2,4,5)])
  case (1 q w)
  have "effect_of pl c k (k\<lparr>rx_q := q, pmem := store_bytes (upa pl c buf) w (pmem k)\<rparr>)"
    by (rule effect_store [OF assms(4) _ assms(3), of w _ _ _ q]) (use 1(1) in auto)
  then show ?thesis using 1(3) assms(2,6) by simp
next
  case (2 k')
  have len: "length (processes k) = 3" using kinvD(1) [OF assms(1)] by (auto elim!: sched_invD)
  have bk: "kinv pl (blocking c k)" by (rule blocking_kinv [OF assms(1,2)])
  obtain t where t: "switched_in pl t k'" "current k' = Some t" "t \<noteq> c"
      "runnable (pstate (blocking c k) t)" "conts k' = (conts (blocking c k))(c := K_sys_read buf len)"
    by (rule schedule_switches_in [OF bk _ _ _ 2(2)]) (use assms in auto)
  have "pstate k' i = TASK_DEAD" if "i \<noteq> c" "pstate k i = TASK_DEAD" for i
    using schedule_pstate [OF kinvD(1) [OF bk], of c "K_sys_read buf len" i] 2(2) t that assms(2) len
      runnable_alive [OF t(4)] assms(3)
    by (auto simp: blocking_pstate)
  moreover have "confined pl {c} k k'"
    using schedule_frame(5,6) [OF kinvD(1) [OF bk], of "K_sys_read buf len"] 2(2)
    by (intro confined_refl) simp_all
  ultimately have "effect_of pl c k k'" using t(5) by (simp add: effect_of_def)
  then show ?thesis using 2(3) t assms(6) by (simp add: cur_def)
next
  case 3
  then show ?thesis using assms(6) by simp
qed

lemma syscall_table_post:
  assumes "kinv pl k" "current k = Some c" "syscall_table num a0 a1 a2 a3 k = Some r"
  shows "sys_post pl c k r"
proof -
  have c: "c < 3" "length (processes k) = 3"
    using kinvD(1) [OF assms(1)] assms(2) by (auto elim!: sched_invD)
  have rd: "sys_read fd buf len k = Some r \<Longrightarrow> sys_post pl c k r" for fd buf len
    using sys_read_post [OF assms(1,2) c(1), of buf len r] assms(2)
    by (auto simp: sys_read_def word_neq_0_conv effect_same split: if_splits)
  show ?thesis
    using assms(2,3) sys_write_post [OF assms(1,2)] sys_ps_post [OF assms(1,2) c(1)] rd
      sys_kill_post [OF c(2) assms(2)] sys_exit_post [OF c(2) assms(2) c(1)]
    by (auto simp: syscall_table_def sys_getpid_def sys_yield_def sys_ticks_def effect_same
        scheduler_request_resched_def split: if_splits)
qed

section \<open>Exceptions\<close>

definition readers :: "kernel \<Rightarrow> nat set" where
  "readers k = {i. \<exists>buf len. conts k i = K_sys_read buf len}"

text \<open>
  The outcome \<open>k'\<close> of an exception taken by \<open>c\<close> in \<open>k\<close>: the invariant holds, memory and
  frames changed only for \<open>c\<close> and for the reader that is now running, and what was dead
  (\<open>c\<close> apart) is dead and not running.
\<close>

definition entry_post :: "platform \<Rightarrow> nat \<Rightarrow> kernel \<Rightarrow> kernel \<Rightarrow> bool" where
  "entry_post pl c k k' \<longleftrightarrow>
     kinv pl k' \<and> confined pl ({c} \<union> ({i. current k' = Some i} \<inter> readers k)) k k' \<and>
     (\<forall>i < 3. i \<noteq> c \<longrightarrow> pstate k i = TASK_DEAD \<longrightarrow> pstate k' i = TASK_DEAD \<and> current k' \<noteq> Some i)"

lemma resume_confined:
  assumes "switched_in pl t k" "resume t k = Some out"
  shows "user_out (\<lambda>k'. confined pl ({i. current k' = Some i} \<inter> readers k) k k') out"
  using assms
proof (induction rule: resume_chain)
  case (user t k)
  then show ?case by (simp add: confined_refl)
next
  case (read t k k')
  note s = switched_inD [OF read(1)]
  obtain buf len w where r: "conts k t = K_sys_read buf len" "w = take (unat len) (ring_list (rx_q k))"
    "pmem k' = store_bytes (upa pl t buf) w (pmem k)" "\<And>i. i \<noteq> t \<Longrightarrow> frames k' i = frames k i"
    using read(2) by (auto simp: reads_def set_ret_def)
  then have "valid_user_ptr buf len" using kinvD(4) [OF s(1)] s(5) by (auto simp: cont_inv_def)
  then have "confined pl {t} k k'" by (rule confined_store [of _ len w]) (use r s(5) in auto)
  moreover have "t \<in> readers k" using r(1) by (auto simp: readers_def)
  ultimately show ?case using reads_kinv(2) [OF read] confined_mono by simp
next
  case (park t k t' k')
  have "conts k' = conts k" using parks_frame(5,6) [OF park(1,2)] by (metis ext)
  then have "readers k' = readers k" by (simp add: readers_def)
  moreover have "confined pl {} k k'" using parks_frame(1,3) [OF park(1,2)] by (simp add: confined_refl)
  ultimately show ?case using park(6) confined_trans [of pl "{}" k k'] by (cases out) auto
qed

text \<open>After a switch made on behalf of \<open>c\<close>, from a state that differs from \<open>k\<close> only by \<open>c\<close>.\<close>

lemma entry_after_switch:
  assumes "effect_of pl c k k1" "switched_in pl t k1" "t \<noteq> c" "resume t k1 = Some out"
  shows "user_out (entry_post pl c k) out"
proof -
  have inv: "user_out (\<lambda>k'. kinv pl k' \<and> pstate k' (cur k') = TASK_RUNNING) out"
    by (rule resume_kinv [OF assms(2,4)])
  then obtain k' where out: "out = To_user k'" by (cases out) auto
  have "readers k1 \<subseteq> readers k \<union> {c}" using assms(1) by (auto simp: effect_of_def readers_def)
  moreover have "confined pl ({c} \<union> ({i. current k' = Some i} \<inter> readers k1)) k k'"
    by (rule confined_trans [where ?k1.0 = k1])
      (use assms(1) resume_confined [OF assms(2,4)] out in \<open>simp_all add: effect_of_def\<close>)
  ultimately have "confined pl ({c} \<union> ({i. current k' = Some i} \<inter> readers k)) k k'"
    by (auto intro: confined_mono)
  moreover have "\<forall>i < 3. i \<noteq> c \<longrightarrow> pstate k i = TASK_DEAD \<longrightarrow> pstate k' i = TASK_DEAD \<and> current k' \<noteq> Some i"
    using assms(1) resume_dead [OF assms(2,4)] out by (simp add: effect_of_def)
  ultimately show ?thesis using inv out by (simp add: entry_post_def)
qed

text \<open>\<open>schedule()\<close> itself changes nothing outside the process that calls it but the states.\<close>

lemma schedule_effect:
  assumes "kinv pl k1" "current k1 = Some c" "cont_ok rc" "rc = K_user_fault \<Longrightarrow> pstate k1 c = TASK_DEAD"
    "schedule rc k1 = (k2, away)" "effect_of pl c k k1"
  shows "effect_of pl c k k2"
    and "away \<Longrightarrow> switched_in pl (cur k2) k2 \<and> cur k2 \<noteq> c"
    and "\<not> away \<Longrightarrow> kinv pl k2 \<and> current k2 = Some c"
proof -
  note inv = kinvD(1) [OF assms(1)]
  have c: "c < 3" using inv assms(2) by (auto elim!: sched_invD)
  have conf: "confined pl {c} k k2"
    using assms(5,6) schedule_frame(5,6) [OF inv, of rc] by (simp add: effect_of_def confined_def)
  show "effect_of pl c k k2"
  proof (cases away)
    case True
    then have sw: "schedule rc k1 = (k2, True)" using assms(5) by simp
    obtain t where t: "switched_in pl t k2" "current k2 = Some t" "t \<noteq> c" "runnable (pstate k1 t)"
      "conts k2 = (conts k1)(c := rc)"
      by (rule schedule_switches_in [OF assms(1-4) sw])
    have "pstate k2 i = TASK_DEAD" if "i \<noteq> c" "pstate k1 i = TASK_DEAD" for i
      using schedule_pstate [OF inv assms(2), of rc i] sw t(2) that runnable_alive [OF t(4)] by auto
    then show ?thesis using conf assms(6) t(5) by (simp add: effect_of_def)
  next
    case False
    then have "schedule rc k1 = (k2, False)" using assms(5) by simp
    from schedule_stay(2,3) [OF inv assms(2) this] show ?thesis
      using conf assms(6) by (simp add: effect_of_def)
  qed
  show "switched_in pl (cur k2) k2 \<and> cur k2 \<noteq> c" if away
    by (rule schedule_switches_in [OF assms(1-4), of k2]) (use assms(5) that in \<open>auto simp: cur_def\<close>)
  show "kinv pl k2 \<and> current k2 = Some c" if "\<not> away"
    using that schedule_kinv [OF assms(1-4)] schedule_stay(1) [OF inv assms(2), of rc k2] assms(5) by simp
qed

lemma entry_stay: "effect_of pl c k k1 \<Longrightarrow> kinv pl k1 \<Longrightarrow> current k1 = Some c \<Longrightarrow> entry_post pl c k k1"
  by (auto simp: entry_post_def effect_of_def intro: confined_mono)

lemma sched_tail_post:
  assumes "kinv pl k1" "current k1 = Some c" "effect_of pl c k k1" "sched_tail k1 = Some out"
  shows "user_out (entry_post pl c k) out"
proof (cases "schedule K_user_return k1")
  case (Pair k2 away)
  note eff = schedule_effect [OF assms(1,2) _ _ Pair assms(3)]
  show ?thesis
  proof (cases away)
    case True
    then have "resume (cur k2) k2 = Some out" using assms(4) Pair by (simp add: sched_tail_def)
    then show ?thesis using eff True by (intro entry_after_switch [of pl c k k2 "cur k2"]) simp_all
  next
    case False
    then have "out = To_user k2" using assms(4) Pair by (simp add: sched_tail_def)
    then show ?thesis using eff False by (simp add: entry_stay)
  qed
qed

text \<open>The messages of the fault path.\<close>

lemma fault_messages:
  "\<exists>o1. uart_printf (bytes ''[FAULT] data abort  DFAR=0x%08x DFSR=0x%08x PC=0x%08x'' @ [10])
     [VInt a, VInt b, VInt c] = Some o1"
  "\<exists>o1. uart_printf (bytes ''[FAULT] prefetch abort  IFAR=0x%08x IFSR=0x%08x'' @ [10])
     [VInt a, VInt b] = Some o1"
  "\<exists>o1. uart_printf (bytes ''[FAULT] undefined instr at PC=0x%08x'' @ [10]) [VInt a] = Some o1"
  "\<exists>o1. uart_printf (bytes ''[KILL] pid=%u name=%s killed by %s'' @ [10])
     [VInt a, VStr s, VStr t] = Some o1"
  by (simp_all add: printf_conv_def uart_print_dec_eq)

lemma retire_eq:
  assumes "current k = Some c"
  shows "\<exists>out. retire kind k = set_state c TASK_DEAD (k\<lparr>tx := out\<rparr>)"
  using fault_messages(4) [of "p_pid (processes k ! c)" "p_name (processes k ! c)" kind] assms
  by (auto simp: retire_def kprintf_eq)

text \<open>A user fault: either somebody else runs, or the machine halts because nobody can.\<close>

lemma user_fault_kill_post:
  assumes "kinv pl k" "current k = Some c" "user_fault_kill kind (k\<lparr>tx := out0\<rparr>) = Some out"
  shows "user_out (\<lambda>k'. entry_post pl c k k' \<and> pstate k' c = TASK_DEAD \<and> current k' \<noteq> Some c) out \<or>
    (\<exists>k'. out = Halted k') \<and> (\<forall>i < 3. i \<noteq> c \<longrightarrow> \<not> runnable (pstate k i))"
proof -
  have c: "c < 3" "length (processes k) = 3"
    using kinvD(1) [OF assms(1)] assms(2) by (auto elim!: sched_invD)
  obtain o1 where o1: "retire kind (k\<lparr>tx := out0\<rparr>) = set_state c TASK_DEAD (k\<lparr>tx := o1\<rparr>)"
    using retire_eq [of "k\<lparr>tx := out0\<rparr>" c kind] assms(2) by auto
  define k1 where "k1 = scheduler_request_resched (set_state c TASK_DEAD (k\<lparr>tx := o1\<rparr>))"
  have k1: "kinv pl k1" "current k1 = Some c" "need_reschedule k1" "effect_of pl c k k1"
    using assms(1,2) c effect_kill [OF c(2,1), of pl c o1]
    by (simp_all add: k1_def kinv_set_state) (simp_all add: scheduler_request_resched_def)
  have st: "pstate k1 i = (if i = c then TASK_DEAD else pstate k i)" for i
    using c by (simp add: k1_def scheduler_request_resched_def pstate_def set_state_def nth_upd_proc)
  obtain k2 away where sch: "schedule K_user_fault k1 = (k2, away)" by (cases "schedule K_user_fault k1")
  note eff = schedule_effect [OF k1(1,2) _ _ sch k1(4)]
  show ?thesis
  proof (cases away)
    case True
    then have res: "resume (cur k2) k2 = Some out"
      using assms(3) sch by (simp add: user_fault_kill_def o1 k1_def)
    have sw: "switched_in pl (cur k2) k2" "cur k2 \<noteq> c" using eff(2) True st by simp_all
    have post: "user_out (entry_post pl c k) out"
      by (rule entry_after_switch [OF _ sw res]) (use eff(1) st in simp)
    have "pstate k2 c = TASK_DEAD"
      using schedule_pstate [OF kinvD(1) [OF k1(1)] k1(2), of K_user_fault c] sch st sw
        switched_inD(2) [OF sw(1)] by simp
    then show ?thesis using resume_dead [OF sw(1) res, of c] post by (cases out) auto
  next
    case False
    then have "out = no_runnable_panic k2"
      using assms(3) sch by (simp add: user_fault_kill_def o1 k1_def)
    moreover have "\<forall>i < 3. i \<noteq> c \<longrightarrow> \<not> runnable (pstate k i)"
      using schedule_stay(4) [OF kinvD(1) [OF k1(1)] k1(2), of K_user_fault k2] sch False k1(3) st by simp
    ultimately show ?thesis by (simp add: no_runnable_panic_def halt_forever_def)
  qed
qed

lemma user_fault_kill_returns:
  assumes "kinv pl k" "current k = Some c" "i < 3" "i \<noteq> c" "runnable (pstate k i)" "i \<notin> readers k"
  shows "\<exists>k'. user_fault_kill kind (k\<lparr>tx := out0\<rparr>) = Some (To_user k')"
proof -
  have c: "c < 3" "length (processes k) = 3"
    using kinvD(1) [OF assms(1)] assms(2) by (auto elim!: sched_invD)
  obtain o1 where o1: "retire kind (k\<lparr>tx := out0\<rparr>) = set_state c TASK_DEAD (k\<lparr>tx := o1\<rparr>)"
    using retire_eq [of "k\<lparr>tx := out0\<rparr>" c kind] assms(2) by auto
  define k1 where "k1 = scheduler_request_resched (set_state c TASK_DEAD (k\<lparr>tx := o1\<rparr>))"
  have k1: "kinv pl k1" "current k1 = Some c" "need_reschedule k1" "conts k1 = conts k"
    using assms(1,2) c
    by (simp_all add: k1_def kinv_set_state) (simp_all add: scheduler_request_resched_def)
  have st: "pstate k1 j = (if j = c then TASK_DEAD else pstate k j)" for j
    using c by (simp add: k1_def scheduler_request_resched_def pstate_def set_state_def nth_upd_proc)
  note inv = kinvD(1) [OF k1(1)]
  have "snd (schedule K_user_fault k1)"
    by (rule schedule_some_other [OF inv k1(2,3) assms(3,4)]) (use assms(4,5) st in simp)
  then obtain k2 where sw: "schedule K_user_fault k1 = (k2, True)"
    by (cases "schedule K_user_fault k1") auto
  obtain t where t: "switched_in pl t k2" "current k2 = Some t" "t \<noteq> c" "conts k2 = (conts k1)(c := K_user_fault)"
    by (rule schedule_switches_in [OF k1(1,2) _ _ sw]) (use st in auto)
  have "runnable (pstate k2 i)"
    using schedule_pstate [OF inv k1(2), of K_user_fault i] sw t(2) st [of i] assms(4,5)
    by (simp add: runnable_def)
  moreover have "\<forall>buf len. conts k2 i \<noteq> K_sys_read buf len"
    using assms(4,6) t(4) k1(4) by (simp add: readers_def)
  ultimately obtain out where res: "resume t k2 = Some out"
    using resume_returns [OF t(1)] assms(3) by blast
  moreover obtain k' where "out = To_user k'" using resume_kinv [OF t(1) res] by (cases out) auto
  ultimately show ?thesis
    using sw t(2) by (simp add: user_fault_kill_def o1 k1_def cur_def)
qed

lemma effect_trans:
  assumes "effect_of pl c k k1" "effect_of pl c k1 k2"
  shows "effect_of pl c k k2"
  using assms confined_trans [of pl "{c}" k k1 "{c}" k2] by (simp add: effect_of_def)

lemma save_frame_props:
  assumes "current k = Some c"
  shows "kinv pl (save_frame ctx k) = kinv pl k" "current (save_frame ctx k) = Some c"
    "effect_of pl c k (save_frame ctx k)" "cur (save_frame ctx k) = c"
    "pstate (save_frame ctx k) i = pstate k i" "frames (save_frame ctx k) c = ctx"
    "conts (save_frame ctx k) = conts k" "rx_q (save_frame ctx k) = rx_q k"
  using assms by (simp_all add: save_frame_def cur_def effect_of_def confined_def pstate_def)

lemma set_ret_props:
  "current (set_ret c v k) = current k" "effect_of pl c k (set_ret c v k)"
  by (simp_all add: set_ret_def effect_of_def confined_def pstate_def)

lemma handle_svc_post:
  assumes "kinv pl k" "current k = Some c" "handle_svc c k = Some out"
  shows "user_out (entry_post pl c k) out"
proof -
  from assms(3) obtain d where d: "syscall_dispatch c k = Some d" by (auto simp: handle_svc_def split: option.splits)
  have ok: "dispatched_ok pl d" by (rule syscall_dispatch_ok [OF assms(1,2) d])
  have "(\<exists>v k1. d = Returned (set_ret c v k1) \<and> effect_of pl c k k1 \<and> current k1 = Some c) \<or>
      (\<exists>k1. d = Switched k1 \<and> effect_of pl c k k1 \<and> switched_in pl (cur k1) k1 \<and> cur k1 \<noteq> c)"
  proof (cases "NR_SYSCALLS \<le> e_r (frames k c) ! 7")
    case True
    then show ?thesis using d assms(2) effect_same by (auto simp: syscall_dispatch_def Let_def)
  next
    case False
    then obtain num a0 a1 a2 a3 r where r: "syscall_table num a0 a1 a2 a3 k = Some r" "d = deliver c r"
      using d by (auto simp: syscall_dispatch_def Let_def)
    show ?thesis using syscall_table_post [OF assms(1,2) r(1)] r(2) by (cases r) auto
  qed
  then show ?thesis
  proof (elim disjE exE conjE)
    fix v k1 assume a: "d = Returned (set_ret c v k1)" "effect_of pl c k k1" "current k1 = Some c"
    then have "sched_tail (set_ret c v k1) = Some out" using assms(3) d by (simp add: handle_svc_def)
    then show ?thesis
      using sched_tail_post [of pl "set_ret c v k1" c k out] a ok set_ret_props effect_trans [OF a(2)]
      by simp
  next
    fix k1 assume a: "d = Switched k1" "effect_of pl c k k1" "switched_in pl (cur k1) k1" "cur k1 \<noteq> c"
    then have "resume (cur k1) k1 = Some out" using assms(3) d by (simp add: handle_svc_def)
    then show ?thesis using entry_after_switch a by blast
  qed
qed

lemma irq_dispatch_effect: "sched_inv k \<Longrightarrow> effect_of pl c k (irq_dispatch n bs k)"
  using irq_dispatch_pstate [of k] by (simp add: effect_of_def confined_def frame)

lemma handle_irq_post:
  assumes "kinv pl k" "current k = Some c" "handle_irq n bs k = Some out"
  shows "user_out (entry_post pl c k) out"
  using sched_tail_post [of pl "irq_dispatch n bs k" c k out] irq_dispatch_kinv [OF assms(1)]
    irq_dispatch_effect [OF kinvD(1) [OF assms(1)]] assms
  by (simp add: handle_irq_def frame)

definition is_fault :: "event \<Rightarrow> bool" where
  "is_fault ev \<longleftrightarrow> (case ev of Svc _ \<Rightarrow> False | Irq _ _ _ \<Rightarrow> False | _ \<Rightarrow> True)"

lemma fault_handlers:
  assumes "is_fault ev" "fault_from_user (event_ctx ev)"
  shows "\<exists>kind out. handle ev k = user_fault_kill kind (k\<lparr>tx := out\<rparr>)"
  using assms fault_messages(1-3)
  by (cases ev) (auto simp: is_fault_def handle_data_abort_def handle_prefetch_abort_def
      handle_undefined_def kprintf_def split: option.splits)

lemma entry_post_trans:
  "effect_of pl c k k1 \<Longrightarrow> entry_post pl c k1 k' \<Longrightarrow> entry_post pl c k k'"
proof -
  assume e: "effect_of pl c k k1" and p: "entry_post pl c k1 k'"
  have "readers k1 \<subseteq> readers k \<union> {c}" using e by (auto simp: effect_of_def readers_def)
  moreover have "confined pl ({c} \<union> ({c} \<union> ({i. current k' = Some i} \<inter> readers k1))) k k'"
    by (rule confined_trans [where ?k1.0 = k1]) (use e p in \<open>simp_all add: effect_of_def entry_post_def\<close>)
  ultimately have "confined pl ({c} \<union> ({i. current k' = Some i} \<inter> readers k)) k k'"
    by (auto intro: confined_mono)
  then show ?thesis using e p by (simp add: entry_post_def effect_of_def)
qed

lemma kernel_entry_post:
  assumes "kinv pl k" "current k = Some c" "fault_from_user (event_ctx ev)" "kernel_entry ev k = Some out"
  shows "user_out (entry_post pl c k) out \<or>
    (\<exists>k'. out = Halted k') \<and> is_fault ev \<and> (\<forall>i < 3. i \<noteq> c \<longrightarrow> \<not> runnable (pstate k i))"
proof -
  let ?k = "save_frame (event_ctx ev) k"
  note sf = save_frame_props [OF assms(2), where ctx = "event_ctx ev"]
  have inv: "kinv pl ?k" using assms(1) sf by simp
  have h: "handle ev ?k = Some out" using assms(4) by (simp add: kernel_entry_def)
  have lift: "user_out (entry_post pl c ?k) out \<Longrightarrow> user_out (entry_post pl c k) out"
    using entry_post_trans [OF sf(3)] by (cases out) auto
  show ?thesis
  proof (cases "is_fault ev")
    case True
    then obtain kind out0 where "user_fault_kill kind (?k\<lparr>tx := out0\<rparr>) = Some out"
      using fault_handlers [OF _ assms(3)] h by metis
    from user_fault_kill_post [OF inv sf(2) this] show ?thesis
    proof (elim disjE conjE)
      assume "user_out (\<lambda>k'. entry_post pl c ?k k' \<and> pstate k' c = TASK_DEAD \<and> current k' \<noteq> Some c) out"
      then have "user_out (entry_post pl c ?k) out" by (cases out) auto
      then show ?thesis using lift by blast
    next
      assume "\<exists>k'. out = Halted k'" "\<forall>i < 3. i \<noteq> c \<longrightarrow> \<not> runnable (pstate ?k i)"
      then show ?thesis using True sf(5) by simp
    qed
  next
    case False
    then have "user_out (entry_post pl c ?k) out"
      using handle_svc_post [OF inv sf(2)] handle_irq_post [OF inv sf(2)] h sf(4)
      by (cases ev) (auto simp: is_fault_def)
    then show ?thesis using lift by blast
  qed
qed

end
