(* ===== verification/Process.thy ===== *)
theory Process
  imports Kexec
begin

text \<open>
  Boot: \<open>kernel/arch/arm/mm/mmu.c\<close>, \<open>kernel/proc/process.c\<close> and \<open>kernel/main.c\<close>. What the
  build decides and the sources only name (addresses of \<open>boot_pgd\<close>, \<open>proc_pgd\<close>,
  \<open>proc_kstack\<close> and \<open>ret_from_first_entry\<close>, section bounds, the bytes of the three embedded
  user images, the build date) is a parameter, the record \<open>linkmap\<close>; \<open>link_ok\<close> states what the
  linker scripts promise of it.
\<close>

section \<open>What the linker provides\<close>

record linkmap =
  lm_boot_pgd :: u32
  lm_proc_pgd :: u32
  lm_proc_kstack :: u32
  lm_first_entry :: u32
  lm_images :: "u8 list list"
  lm_text :: "u32 \<times> u32"
  lm_data :: "u32 \<times> u32"
  lm_bss :: "u32 \<times> u32"
  lm_svc_stack_top :: u32
  lm_kmain :: u32
  lm_vectors :: u32
  lm_date :: "u8 list"
  lm_time :: "u8 list"

text \<open>Rows of the two arrays: \<open>proc_pgd[i]\<close> is 16 KB, \<open>proc_kstack[i]\<close> is \<open>KSTACK_SIZE\<close>.\<close>

definition proc_pgd_row :: "linkmap \<Rightarrow> u32 \<Rightarrow> u32" where
  "proc_pgd_row lm i = lm_proc_pgd lm + i * 0x4000"

definition proc_kstack_row :: "linkmap \<Rightarrow> u32 \<Rightarrow> u32" where
  "proc_kstack_row lm i = lm_proc_kstack lm + i * KSTACK_SIZE"

text \<open>
  The linker scripts align \<open>boot_pgd\<close> and \<open>proc_pgd\<close> to 16 KB and place them, one after the
  other, in \<open>.bss\<close>, above the start of RAM; each user image fits its 1 MB slot.
\<close>

definition link_ok :: "platform \<Rightarrow> linkmap \<Rightarrow> bool" where
  "link_ok pl lm \<longleftrightarrow>
     lm_proc_pgd lm AND 0x3FFF = 0 \<and> lm_boot_pgd lm AND 0x3FFF = 0 \<and>
     (\<forall>i \<in> {0, 1, 2}. proc_pgd_row lm i \<noteq> lm_boot_pgd lm) \<and>
     lm_boot_pgd lm \<noteq> PHYS_OFFSET (board_of pl) \<and>
     length (lm_images lm) = 3 \<and> (\<forall>img \<in> set (lm_images lm). length img \<le> 1048576)"

section \<open>mmu.c\<close>

definition mmu_enable :: "u32 \<Rightarrow> kernel \<Rightarrow> kernel" where
  "mmu_enable pgd_pa k = k\<lparr>ttbr0 := pgd_pa OR TTBR_ATTRS\<rparr>"

definition mmu_init :: "linkmap \<Rightarrow> platform \<Rightarrow> u32 \<Rightarrow> kernel \<Rightarrow> kernel" where
  "mmu_init lm pl phys_offset k =
     (let pgd_va = lm_boot_pgd lm;
          pgd_pa = pgd_va - phys_offset;
          k = k\<lparr>boot_pgd := mmu_build_boot_pgd pl (boot_pgd k)\<rparr>
      in mmu_enable pgd_pa k)"

definition mmu_print_status :: "linkmap \<Rightarrow> platform \<Rightarrow> u32 \<Rightarrow> kernel \<Rightarrow> kernel" where
  "mmu_print_status lm pl sctlr k =
     (let b = board_of pl;
          k = kprintf (bytes ''[MMU]  boot_pgd @ VA 0x%08x (%u entries, 16 KB aligned)'' @ [10])
                [VInt (lm_boot_pgd lm), VInt (of_nat PGD_ENTRIES)] k;
          k = kprintf (bytes ''[MMU]  identity : 0x%08x .. 0x%08x (drop after boot)'' @ [10])
                [VInt (RAM_BASE b), VInt (RAM_BASE b + RAM_SIZE b - 1)] k;
          k = kprintf (bytes ''[MMU]  high VA  : 0x%08x .. 0x%08x -> 0x%08x'' @ [10])
                [VInt VA_KERNEL_BASE, VInt (VA_KERNEL_BASE + RAM_SIZE b - 1), VInt (RAM_BASE b)] k;
          k = kprintf (bytes ''[MMU]  null gu. : 0x00000000 .. 0x000FFFFF (FAULT)'' @ [10]) [] k
      in kprintf (bytes ''[MMU]  SCTLR=0x%08x TTBR0=0x%08x'' @ [10]) [VInt sctlr, VInt (ttbr0 k)] k)"

definition mmu_drop_identity :: "platform \<Rightarrow> kernel \<Rightarrow> kernel" where
  "mmu_drop_identity pl k =
     (let b = board_of pl;
          k = k\<lparr>boot_pgd := drop_identity pl (boot_pgd k)\<rparr>
      in kprintf (bytes ''[MMU]  identity dropped '' @ emdash @ bytes '' PA 0x%08x..0x%08x now faults'' @ [10])
           [VInt (RAM_BASE b), VInt (RAM_BASE b + RAM_SIZE b - 1)] k)"

section \<open>process.c\<close>

definition user_image_name :: "nat \<Rightarrow> u8 list" where
  "user_image_name i = [bytes ''counter'', bytes ''runaway'', bytes ''shell''] ! i"

function kmemcpy :: "u32 \<Rightarrow> u8 list \<Rightarrow> u32 \<Rightarrow> u32 \<Rightarrow> kernel \<Rightarrow> kernel option" where
  "kmemcpy dst src n i k =
     (if i < n then
        (case vstore (dst + i) (src ! unat i) k of
           None \<Rightarrow> None
         | Some k' \<Rightarrow> kmemcpy dst src n (i + 1) k')
      else Some k)"
  by pat_completeness auto
termination
  by (relation "measure (\<lambda>(dst, src, n, i, k). unat n - unat i)") (simp_all add: count_up_decreases)

function kmemset :: "u32 \<Rightarrow> u8 \<Rightarrow> u32 \<Rightarrow> u32 \<Rightarrow> kernel \<Rightarrow> kernel option" where
  "kmemset dst v n i k =
     (if i < n then
        (case vstore (dst + i) v k of
           None \<Rightarrow> None
         | Some k' \<Rightarrow> kmemset dst v n (i + 1) k')
      else Some k)"
  by pat_completeness auto
termination
  by (relation "measure (\<lambda>(dst, v, n, i, k). unat n - unat i)") (simp_all add: count_up_decreases)

declare kmemcpy.simps [simp del] kmemset.simps [simp del]

text \<open>
  The lines that \<open>icache_sync\<close> cleans, in order. The loop counter is a 32-bit address: close to
  the end of the address space it wraps and the loop does not end.
\<close>

partial_function (option) icache_lines :: "u32 \<Rightarrow> u32 \<Rightarrow> u32 list option" where
  "icache_lines a end =
     (if a < end then Option.bind (icache_lines (a + 32) end) (\<lambda>ls. Some (a # ls)) else Some [])"

definition icache_sync :: "u32 \<Rightarrow> u32 \<Rightarrow> u32 list option" where
  "icache_sync va len = icache_lines (va AND NOT 31) (va + len)"

text \<open>\<open>frame[i] = ws ! i\<close> for every word of the frame.\<close>

fun store_words :: "u32 \<Rightarrow> u32 list \<Rightarrow> (u32 \<Rightarrow> u32) \<Rightarrow> u32 \<Rightarrow> u32" where
  "store_words a [] m = m"
| "store_words a (w # ws) m = store_words (a + 4) ws (m(a := w))"

definition INIT_STACK_WORDS :: u32 where "INIT_STACK_WORDS = 9 + 16"

definition initial_frame :: "linkmap \<Rightarrow> u32 \<Rightarrow> u32 list" where
  "initial_frame lm entry =
     replicate 8 0 @ [lm_first_entry lm] @ replicate 13 0 @ [0, entry, 0x10]"

definition process_build_initial_frame :: "linkmap \<Rightarrow> nat \<Rightarrow> kernel \<Rightarrow> kernel" where
  "process_build_initial_frame lm i k =
     (let p = processes k ! i;
          top = p_kstack_base p + p_kstack_size p;
          frame = top - INIT_STACK_WORDS * 4;
          k = k\<lparr>kstack := store_words frame (initial_frame lm (p_user_entry p)) (kstack k),
                conts := (conts k)(i := K_first_entry)\<rparr>
      in upd_proc i (\<lambda>p. p\<lparr>p_ctx := (p_ctx p)\<lparr>c_sp_svc := frame, c_lr_svc := 0, c_spsr := 0x10,
           c_sp_usr := USER_STACK_TOP, c_lr_usr := 0\<rparr>\<rparr>) k)"

definition zero_context :: proc_context where
  "zero_context = \<lparr>c_r = replicate 13 0, c_sp_svc = 0, c_lr_svc = 0, c_spsr = 0, c_sp_usr = 0, c_lr_usr = 0\<rparr>"

text \<open>\<open>kmemset(p, 0, sizeof(*p))\<close>: \<open>TASK_READY\<close> is 0; a NULL name is the empty string.\<close>

definition zero_process :: process where
  "zero_process = \<lparr>p_ctx = zero_context, p_pid = 0, p_state = TASK_READY, p_name = [], p_pgd = 0,
     p_pgd_pa = 0, p_kstack_base = 0, p_kstack_size = 0, p_user_entry = 0, p_user_stack_top = 0,
     p_user_phys_base = 0\<rparr>"

definition new_pcb :: "linkmap \<Rightarrow> platform \<Rightarrow> u32 \<Rightarrow> process" where
  "new_pcb lm pl i = zero_process\<lparr>
     p_pid := i, p_state := TASK_READY, p_name := user_image_name (unat i),
     p_pgd := proc_pgd_row lm i,
     p_pgd_pa := proc_pgd_row lm i - PHYS_OFFSET (board_of pl),
     p_kstack_base := proc_kstack_row lm i, p_kstack_size := KSTACK_SIZE,
     p_user_entry := USER_VIRT_BASE, p_user_stack_top := USER_STACK_TOP,
     p_user_phys_base := USER_PHYS_BASE (board_of pl) + i * USER_PHYS_STRIDE (board_of pl)\<rparr>"

text \<open>One iteration of the loop of \<open>process_init_all\<close>; \<open>None\<close> is an abort or an endless sync.\<close>

definition process_init_one :: "linkmap \<Rightarrow> platform \<Rightarrow> u32 \<Rightarrow> kernel \<Rightarrow> kernel option" where
  "process_init_one lm pl i k =
     (let n = unat i; img = lm_images lm ! n; img_size = of_nat (length img);
          k = upd_proc n (\<lambda>_. new_pcb lm pl i) k;
          p = processes k ! n;
          user_va = p_user_phys_base p + PHYS_OFFSET (board_of pl)
      in Option.bind (kmemset user_va 0 USER_REGION_SIZE 0 k) (\<lambda>k.
         Option.bind (kmemcpy user_va img img_size 0 k) (\<lambda>k.
         Option.bind (icache_sync user_va img_size) (\<lambda>_.
           (let k = k\<lparr>proc_pgd := (proc_pgd k)(n :=
                        pgtable_build_for_proc pl (boot_pgd k) (proc_pgd k n) (p_user_phys_base p))\<rparr>;
                k = process_build_initial_frame lm n k
            in Some (kprintf (bytes ''[PROC] pid=%u name=%s pgd=0x%08x kstack=0x%08x user_pa=0x%08x img=%u bytes'' @ [10])
                 [VInt (p_pid p), VStr (p_name p), VInt (p_pgd p), VInt (p_kstack_base p),
                  VInt (p_user_phys_base p), VInt img_size] k))))))"

function process_init_loop :: "linkmap \<Rightarrow> platform \<Rightarrow> u32 \<Rightarrow> kernel \<Rightarrow> kernel option" where
  "process_init_loop lm pl i k =
     (if i < NUM_PROCESSES then
        (case process_init_one lm pl i k of
           None \<Rightarrow> None
         | Some k' \<Rightarrow> process_init_loop lm pl (i + 1) k')
      else Some k)"
  by pat_completeness auto
termination
  by (relation "measure (\<lambda>(lm, pl, i, k). unat NUM_PROCESSES - unat i)") (simp_all add: count_up_decreases)

declare process_init_loop.simps [simp del]

definition process_init_all :: "linkmap \<Rightarrow> platform \<Rightarrow> kernel \<Rightarrow> kernel option" where
  "process_init_all lm pl k =
     map_option (\<lambda>k. k\<lparr>current := Some 0\<rparr>) (process_init_loop lm pl 0 k)"

text \<open>The state names of \<open>process_dump\<close> are not padded, unlike those of \<open>sys_ps\<close>.\<close>

fun dump_state_name :: "task_state \<Rightarrow> u8 list" where
  "dump_state_name TASK_READY = bytes ''READY''"
| "dump_state_name TASK_RUNNING = bytes ''RUNNING''"
| "dump_state_name TASK_BLOCKED = bytes ''BLOCKED''"
| "dump_state_name TASK_DEAD = bytes ''DEAD''"

definition process_dump :: "process \<Rightarrow> kernel \<Rightarrow> kernel" where
  "process_dump p k =
     (let k = kprintf (bytes ''  pid=%u name=%s state=%s'' @ [10])
                [VInt (p_pid p), VStr (p_name p), VStr (dump_state_name (p_state p))] k;
          k = kprintf (bytes ''    pgd       = 0x%08x (pa 0x%08x)'' @ [10]) [VInt (p_pgd p), VInt (p_pgd_pa p)] k;
          k = kprintf (bytes ''    kstack    = 0x%08x..0x%08x'' @ [10])
                [VInt (p_kstack_base p), VInt (p_kstack_base p + p_kstack_size p)] k;
          k = kprintf (bytes ''    user VA   = 0x%08x entry, stack_top 0x%08x'' @ [10])
                [VInt (p_user_entry p), VInt (p_user_stack_top p)] k;
          k = kprintf (bytes ''    user PA   = 0x%08x'' @ [10]) [VInt (p_user_phys_base p)] k
      in kprintf (bytes ''    ctx.sp    = 0x%08x spsr=0x%08x'' @ [10])
           [VInt (c_sp_svc (p_ctx p)), VInt (c_spsr (p_ctx p))] k)"

section \<open>main.c\<close>

text \<open>
  \<open>kmain\<close> from \<open>exception_init\<close> to the entry of the first process, with the messages; the
  chip initialisation that \<open>platform_init_devices\<close>, \<open>uart_init\<close>, \<open>irq_init\<close>, \<open>timer_init\<close> and
  \<open>irq_enable\<close> perform on the devices is modelled in theory \<open>Devices\<close>. \<open>cpsr\<close> and \<open>sctlr\<close>
  are the values read from the registers.
\<close>

definition exception_init :: "linkmap \<Rightarrow> kernel \<Rightarrow> kernel" where
  "exception_init lm k =
     kprintf (bytes ''[EXCP] vector table installed @ 0x%08x'' @ [10]) [VInt (lm_vectors lm)] k"

definition boot_banner :: "linkmap \<Rightarrow> platform \<Rightarrow> u32 \<Rightarrow> kernel \<Rightarrow> kernel" where
  "boot_banner lm pl cpsr k =
     (let bar = replicate 48 61 @ [10];
          k = kprintf [10] [] k;
          k = kprintf bar [] k;
          k = kprintf (bytes ''  RingNova '' @ emdash @ bytes '' ARMv7-A bare-metal kernel'' @ [10]) [] k;
          k = kprintf (bytes ''  Built %s %s'' @ [10]) [VStr (lm_date lm), VStr (lm_time lm)] k;
          k = kprintf bar [] k;
          k = kprintf (bytes ''[UART] init done @ %p'' @ [10]) [VInt (UART0_BASE (board_of pl))] k;
          k = kprintf (bytes ''[BOOT] platform : %s'' @ [10]) [VStr (PLATFORM_NAME (board_of pl))] k;
          k = kprintf (bytes ''[BOOT] .text    : %p '' @ emdash @ bytes '' %p'' @ [10])
                [VInt (fst (lm_text lm)), VInt (snd (lm_text lm))] k;
          k = kprintf (bytes ''[BOOT] .data    : %p '' @ emdash @ bytes '' %p'' @ [10])
                [VInt (fst (lm_data lm)), VInt (snd (lm_data lm))] k;
          k = kprintf (bytes ''[BOOT] .bss     : %p '' @ emdash @ bytes '' %p'' @ [10])
                [VInt (fst (lm_bss lm)), VInt (snd (lm_bss lm))] k;
          k = kprintf (bytes ''[BOOT] SVC stack: %p'' @ [10]) [VInt (lm_svc_stack_top lm)] k;
          k = kprintf (bytes ''[BOOT] &kmain   : %p  (expect 0xC01xxxxx)'' @ [10]) [VInt (lm_kmain lm)] k
      in kprintf (bytes ''[BOOT] CPSR     : %p (mode=%x, IRQ=%s, FIQ=%s)'' @ [10])
           [VInt cpsr, VInt (cpsr AND 0x1F), VStr (masked_str cpsr 7), VStr (masked_str cpsr 6)] k)"

definition process_first_run :: "nat \<Rightarrow> kernel \<Rightarrow> kernel" where
  "process_first_run first k = context_switch None first K_first_entry k"

definition kmain :: "linkmap \<Rightarrow> platform \<Rightarrow> u32 \<Rightarrow> u32 \<Rightarrow> kernel \<Rightarrow> kernel option" where
  "kmain lm pl cpsr sctlr k =
     (let k = boot_banner lm pl cpsr k;
          k = mmu_print_status lm pl sctlr k;
          k = exception_init lm k;
          k = irq_table_clear k;
          k = irq_register (IRQ_TIMER (board_of pl)) H_timer_irq k;
          k = irq_register (IRQ_UART0 (board_of pl)) H_uart_rx_irq k
      in Option.bind (process_init_all lm pl k) (\<lambda>k.
         let k = mmu_drop_identity pl k;
             k = timer_set_handler H_scheduler_tick k;
             k = kprintf (bytes ''[BOOT] boot complete '' @ emdash @
                    bytes '' entering user mode pid=%u (USR @ 0x%08x)'' @ [10])
                   [VInt (p_pid (processes k ! 0)), VInt (p_user_entry (processes k ! 0))] k
         in Some (process_first_run 0 k)))"

text \<open>The state that \<open>start.S\<close> leaves: every static variable zero. Memory is arbitrary.\<close>

definition bss_state :: "(u32 \<Rightarrow> u8) \<Rightarrow> (u32 \<Rightarrow> u32) \<Rightarrow> kernel" where
  "bss_state m ks = \<lparr>processes = replicate 3 zero_process, current = None, need_reschedule = False,
     switch_count = 0, blocked_reader = None, wake_hint = None, rx_q = rx_ring_init, tx = [],
     tick_count = 0, user_handler = None, irq_table = (\<lambda>_. None), eoi_log = [],
     boot_pgd = (\<lambda>_. 0), proc_pgd = (\<lambda>_ _. 0), ttbr0 = 0, sp_usr = 0, lr_usr = 0, pmem = m,
     kstack = ks, conts = (\<lambda>_. K_first_entry), frames = (\<lambda>_. \<lparr>e_spsr = 0, e_r = [], e_lr = 0\<rparr>),
     ub = False\<rparr>"

definition boot :: "linkmap \<Rightarrow> platform \<Rightarrow> u32 \<Rightarrow> u32 \<Rightarrow> (u32 \<Rightarrow> u8) \<Rightarrow> (u32 \<Rightarrow> u32) \<Rightarrow> kernel option" where
  "boot lm pl cpsr sctlr m ks =
     kmain lm pl cpsr sctlr (mmu_init lm pl (PHYS_OFFSET (board_of pl)) (bss_state m ks))"

section \<open>Copy loops\<close>

lemma active_pgd_pmem [simp]: "active_pgd (k\<lparr>pmem := m\<rparr>) = active_pgd k"
  by (simp add: active_pgd_def cong: option.case_cong)

lemma kmemset_eq:
  assumes "\<And>j. j < n \<Longrightarrow> section_lookup False (active_pgd k) (dst + j) = Some (pa + j)" "i \<le> n"
  shows "kmemset dst v n i k =
    Some (k\<lparr>pmem := store_bytes (pa + i) (replicate (unat n - unat i) v) (pmem k)\<rparr>)"
  using assms
proof (induction dst v n i k rule: kmemset.induct)
  case (1 dst v n i k)
  show ?case
  proof (cases "i < n")
    case True
    have le: "i + 1 \<le> n" "unat n - unat i = Suc (unat n - unat (i + 1))"
      using True by (simp_all add: word_le_nat_alt word_less_nat_alt unat_inc [OF True])
    have vs: "vstore (dst + i) v k = Some (k\<lparr>pmem := (pmem k)(pa + i := v)\<rparr>)"
      using 1(2) [OF True] by (simp add: vstore_def)
    show ?thesis
      using 1(1) [OF True vs] 1(2) le True vs
      by (simp add: kmemset.simps [of dst v n i k] add.assoc fun_upd_def)
  next
    case False
    then have "i = n" using 1(3) by simp
    then show ?thesis by (subst kmemset.simps) simp
  qed
qed

lemma kmemcpy_eq:
  assumes "\<And>j. j < n \<Longrightarrow> section_lookup False (active_pgd k) (dst + j) = Some (pa + j)" "i \<le> n"
    "unat n = length src"
  shows "kmemcpy dst src n i k = Some (k\<lparr>pmem := store_bytes (pa + i) (drop (unat i) src) (pmem k)\<rparr>)"
  using assms
proof (induction dst src n i k rule: kmemcpy.induct)
  case (1 dst src n i k)
  show ?case
  proof (cases "i < n")
    case True
    have le: "i + 1 \<le> n" using True by (simp add: word_le_nat_alt word_less_nat_alt unat_inc [OF True])
    have sp: "drop (unat i) src = src ! unat i # drop (unat (i + 1)) src"
      using True 1(4) by (simp add: unat_inc [OF True] Cons_nth_drop_Suc word_less_nat_alt)
    have vs: "vstore (dst + i) (src ! unat i) k = Some (k\<lparr>pmem := (pmem k)(pa + i := src ! unat i)\<rparr>)"
      using 1(2) [OF True] by (simp add: vstore_def)
    show ?thesis
      using 1(1) [OF True vs] 1(2,4) le True vs
      by (simp add: kmemcpy.simps [of dst src n i k] add.assoc fun_upd_def sp)
  next
    case False
    then have "i = n" using 1(3) by simp
    then show ?thesis using 1(4) by (subst kmemcpy.simps) simp
  qed
qed

section \<open>Cache lines\<close>

lemma icache_lines_cover:
  assumes "unat e + 32 \<le> 4294967296"
  shows "\<exists>ls. icache_lines a e = Some ls \<and>
    (\<forall>x. unat a \<le> x \<longrightarrow> x < unat e \<longrightarrow> (\<exists>l \<in> set ls. unat l \<le> x \<and> x < unat l + 32))"
proof (induction "unat e - unat a" arbitrary: a rule: less_induct)
  case less
  show ?case
  proof (cases "a < e")
    case True
    then have lt: "unat a < unat e" by (simp add: word_less_nat_alt)
    then have nx: "unat (a + 32) = unat a + 32" using assms by (simp add: unat_word_ariths)
    have "unat e - unat (a + 32) < unat e - unat a" using lt nx by simp
    from less.hyps [OF this] obtain ls where ls: "icache_lines (a + 32) e = Some ls"
      "\<forall>x. unat (a + 32) \<le> x \<longrightarrow> x < unat e \<longrightarrow> (\<exists>l \<in> set ls. unat l \<le> x \<and> x < unat l + 32)"
      by blast
    then have "icache_lines a e = Some (a # ls)" using True by (subst icache_lines.simps) simp
    moreover have "\<exists>l \<in> set (a # ls). unat l \<le> x \<and> x < unat l + 32"
      if "unat a \<le> x" "x < unat e" for x
      using ls(2) that nx by (cases "x < unat a + 32") auto
    ultimately show ?thesis by blast
  next
    case False
    then have "icache_lines a e = Some []" by (subst icache_lines.simps) simp
    then show ?thesis using False by (auto simp: word_less_nat_alt)
  qed
qed

lemma icache_sync_cover:
  assumes "unat va + unat len + 32 \<le> 4294967296"
  shows "\<exists>ls. icache_sync va len = Some ls \<and>
    (\<forall>x. unat va \<le> x \<longrightarrow> x < unat va + unat len \<longrightarrow> (\<exists>l \<in> set ls. unat l \<le> x \<and> x < unat l + 32))"
proof -
  have e: "unat (va + len) = unat va + unat len" using assms by (simp add: unat_word_ariths)
  have "va AND NOT 31 \<le> va" by (rule word_and_le2)
  then have "unat (va AND NOT 31) \<le> unat va" by (simp only: word_le_nat_alt)
  then have lo: "unat (va AND NOT 31) \<le> x" if "unat va \<le> x" for x using that by simp
  from icache_lines_cover [of "va + len" "va AND NOT 31"] obtain ls where
    "icache_sync va len = Some ls"
    "\<forall>x. unat (va AND NOT 31) \<le> x \<longrightarrow> x < unat va + unat len \<longrightarrow>
      (\<exists>l \<in> set ls. unat l \<le> x \<and> x < unat l + 32)"
    using assms unfolding icache_sync_def e by blast
  then show ?thesis using lo by blast
qed

section \<open>Table addresses\<close>

lemma aligned_take_bit: "x AND 0x3FFF = take_bit 14 (x :: u32)"
  by (simp add: take_bit_eq_mask mask_eq_exp_minus_1)

lemma aligned_arith:
  assumes "take_bit 14 (x :: u32) = 0" "take_bit 14 y = 0"
  shows "take_bit 14 (x + y) = 0" "take_bit 14 (x - y) = 0"
proof -
  have al: "take_bit 14 z = 0 \<longleftrightarrow> (\<exists>q. z = q * 16384)" for z :: u32
  proof
    assume "take_bit 14 z = 0"
    then have "z = push_bit 14 (drop_bit 14 z)" using bits_ident [of 14 z] by simp
    then show "\<exists>q. z = q * 16384" by (auto simp: push_bit_eq_mult)
  next
    assume "\<exists>q. z = q * 16384"
    then obtain q where "z = push_bit 14 q" by (auto simp: push_bit_eq_mult)
    then show "take_bit 14 z = 0" by (simp add: take_bit_push_bit)
  qed
  from assms obtain p q where "x = p * 16384" "y = q * 16384" by (auto simp: al)
  then have "x + y = (p + q) * 16384" "x - y = (p - q) * 16384" by (simp_all add: algebra_simps)
  then show "take_bit 14 (x + y) = 0" "take_bit 14 (x - y) = 0" unfolding al by blast+
qed

lemma ttbr_inj:
  assumes "take_bit 14 (x :: u32) = 0" "take_bit 14 y = 0" "x OR TTBR_ATTRS = y OR TTBR_ATTRS"
  shows "x = y"
proof -
  have *: "(z OR TTBR_ATTRS) AND 0xFFFFC000 = z" if "take_bit 14 z = 0" for z :: u32
  proof -
    have "(0xFFFFC000 OR 0x3FFF :: u32) = - 1" by (simp add: word_eq_iff_unsigned)
    then have "z = z AND (0xFFFFC000 OR 0x3FFF)" by (simp only: word_and_max)
    also have "\<dots> = z AND 0xFFFFC000 OR z AND 0x3FFF" by (rule bit.conj_disj_distrib)
    also have "\<dots> = z AND 0xFFFFC000" using that by (simp add: aligned_take_bit)
    finally show ?thesis by (simp add: bit.conj_disj_distrib2 TTBR_ATTRS_def)
  qed
  have "x = (x OR TTBR_ATTRS) AND 0xFFFFC000" by (rule * [OF assms(1), symmetric])
  also have "\<dots> = y" unfolding assms(3) by (rule * [OF assms(2)])
  finally show ?thesis .
qed

lemma offset_aligned: "take_bit 14 (PHYS_OFFSET (board_of pl)) = 0"
  by (cases pl) (simp_all add: board_defs)

text \<open>Physical addresses of the tables, as \<open>process_init_all\<close> and \<open>mmu_init\<close> compute them.\<close>

definition pgd_pa_of :: "linkmap \<Rightarrow> platform \<Rightarrow> u32 \<Rightarrow> u32" where
  "pgd_pa_of lm pl i = proc_pgd_row lm i - PHYS_OFFSET (board_of pl)"

definition boot_ttbr :: "linkmap \<Rightarrow> platform \<Rightarrow> u32" where
  "boot_ttbr lm pl = (lm_boot_pgd lm - PHYS_OFFSET (board_of pl)) OR TTBR_ATTRS"

lemma pgd_pa_aligned:
  assumes "link_ok pl lm" "i \<in> {0, 1, 2}"
  shows "take_bit 14 (pgd_pa_of lm pl i) = 0"
proof -
  have "take_bit 14 (i * 0x4000) = 0" using assms(2) by auto
  moreover have "take_bit 14 (lm_proc_pgd lm) = 0"
    using assms(1) by (simp add: link_ok_def aligned_take_bit)
  ultimately show ?thesis
    by (simp add: pgd_pa_of_def proc_pgd_row_def aligned_arith offset_aligned)
qed

lemma boot_pa_aligned: "link_ok pl lm \<Longrightarrow> take_bit 14 (lm_boot_pgd lm - PHYS_OFFSET (board_of pl)) = 0"
  by (simp add: link_ok_def aligned_take_bit aligned_arith offset_aligned)

lemma ttbr_distinct:
  assumes "link_ok pl lm" "i \<in> {0, 1, 2}" "j \<in> {0, 1, 2}"
  shows "pgd_pa_of lm pl i OR TTBR_ATTRS = pgd_pa_of lm pl j OR TTBR_ATTRS \<longleftrightarrow> i = j"
    and "pgd_pa_of lm pl i OR TTBR_ATTRS \<noteq> boot_ttbr lm pl"
    and "0 OR TTBR_ATTRS \<noteq> boot_ttbr lm pl"
proof -
  show "pgd_pa_of lm pl i OR TTBR_ATTRS = pgd_pa_of lm pl j OR TTBR_ATTRS \<longleftrightarrow> i = j"
  proof
    assume "pgd_pa_of lm pl i OR TTBR_ATTRS = pgd_pa_of lm pl j OR TTBR_ATTRS"
    then have "pgd_pa_of lm pl i = pgd_pa_of lm pl j"
      by (rule ttbr_inj [OF pgd_pa_aligned [OF assms(1,2)] pgd_pa_aligned [OF assms(1,3)]])
    then show "i = j" using assms(2,3) by (auto simp: pgd_pa_of_def proc_pgd_row_def)
  qed simp
  show "pgd_pa_of lm pl i OR TTBR_ATTRS \<noteq> boot_ttbr lm pl"
  proof
    assume "pgd_pa_of lm pl i OR TTBR_ATTRS = boot_ttbr lm pl"
    then have "pgd_pa_of lm pl i = lm_boot_pgd lm - PHYS_OFFSET (board_of pl)"
      unfolding boot_ttbr_def by (rule ttbr_inj [OF pgd_pa_aligned [OF assms(1,2)] boot_pa_aligned [OF assms(1)]])
    then show False using assms(1,2) by (auto simp: pgd_pa_of_def link_ok_def)
  qed
  show "0 OR TTBR_ATTRS \<noteq> boot_ttbr lm pl"
  proof
    assume "0 OR TTBR_ATTRS = boot_ttbr lm pl"
    then have "0 = lm_boot_pgd lm - PHYS_OFFSET (board_of pl)"
      unfolding boot_ttbr_def by (intro ttbr_inj [OF _ boot_pa_aligned [OF assms(1)]]) simp_all
    then show False using assms(1) by (simp add: link_ok_def)
  qed
qed

section \<open>One process\<close>

text \<open>The state between two iterations: the boot table is active.\<close>

definition booting :: "linkmap \<Rightarrow> platform \<Rightarrow> kernel \<Rightarrow> bool" where
  "booting lm pl k \<longleftrightarrow>
     boot_pgd k = boot_desc pl \<and> ttbr0 k = boot_ttbr lm pl \<and> length (processes k) = 3 \<and>
     (\<forall>p \<in> set (processes k). p_pgd_pa p OR TTBR_ATTRS \<noteq> boot_ttbr lm pl)"

lemma active_boot: "booting lm pl k \<Longrightarrow> active_pgd k = boot_desc pl"
proof -
  assume b: "booting lm pl k"
  then have "find (\<lambda>i. p_pgd_pa (processes k ! i) OR TTBR_ATTRS = ttbr0 k) [0..<length (processes k)] = None"
    by (auto simp: booting_def find_None_iff)
  with b show ?thesis by (simp add: active_pgd_def booting_def)
qed

text \<open>The high alias of a slot, through which its image is loaded.\<close>

lemma slot_alias:
  assumes "i < 3" "j < USER_REGION_SIZE"
  shows "section_lookup False (boot_desc pl) (user_slot pl i + PHYS_OFFSET (board_of pl) + j)
    = Some (user_slot pl i + j)"
proof -
  let ?va = "user_slot pl i + PHYS_OFFSET (board_of pl) + j"
  have j: "unat j < 1048576" using assms(2) by (simp add: kconst word_less_nat_alt)
  have base: "unat (user_slot pl i + PHYS_OFFSET (board_of pl)) = 0xC0200000 + i * 0x100000"
    using less_3_cases [OF assms(1)] by (cases pl) (auto simp: user_slot_def board_defs)
  then have va: "unat ?va = 0xC0200000 + i * 0x100000 + unat j"
    using j assms(1) by (simp add: unat_word_ariths)
  have al: "in_alias pl v" if "unat v = 0xC0200000 + i * 0x100000 + unat j" for v
    using that j assms(1)
    by (cases pl) (auto simp: in_alias_def VA_KERNEL_BASE_def board_defs word_le_nat_alt word_less_nat_alt unat_sub)
  have "in_alias pl ?va" by (rule al [OF va])
  moreover have "boot_desc pl (sec_index ?va) = kernel_desc pl (sec_index ?va)"
    using in_alias_index [OF calculation] by (cases pl) (auto simp: boot_desc_def)
  ultimately show ?thesis using alias_lookup [of pl ?va "boot_desc pl"] by simp
qed

text \<open>The PCB that one iteration leaves.\<close>

definition init_pcb :: "linkmap \<Rightarrow> platform \<Rightarrow> nat \<Rightarrow> process" where
  "init_pcb lm pl i = (new_pcb lm pl (of_nat i))\<lparr>p_ctx := zero_context
     \<lparr>c_sp_svc := proc_kstack_row lm (of_nat i) + KSTACK_SIZE - INIT_STACK_WORDS * 4, c_lr_svc := 0,
      c_spsr := 0x10, c_sp_usr := USER_STACK_TOP, c_lr_usr := 0\<rparr>\<rparr>"

lemma init_pcb_simps:
  "p_pid (init_pcb lm pl i) = of_nat i" "p_state (init_pcb lm pl i) = TASK_READY"
  "p_pgd_pa (init_pcb lm pl i) = pgd_pa_of lm pl (of_nat i)"
  "p_user_phys_base (init_pcb lm pl i) = user_slot pl i"
  "p_user_entry (init_pcb lm pl i) = USER_VIRT_BASE"
  by (simp_all add: init_pcb_def new_pcb_def pgd_pa_of_def user_slot_def)

text \<open>What no part of \<open>process_init_all\<close> touches.\<close>

definition boot_rest :: "kernel \<Rightarrow> (nat option \<times> bool \<times> nat option \<times> nat option \<times> rx_ring) \<times>
    (timer_handler option \<times> (nat \<Rightarrow> irq_handler option) \<times> (nat \<Rightarrow> exception_context) \<times> bool \<times> u32)" where
  "boot_rest k = ((current k, need_reschedule k, blocked_reader k, wake_hint k, rx_q k),
     (user_handler k, irq_table k, frames k, ub k, tick_count k))"

lemma proc_message:
  "\<exists>o1. uart_printf (bytes ''[PROC] pid=%u name=%s pgd=0x%08x kstack=0x%08x user_pa=0x%08x img=%u bytes'' @ [10])
     [VInt a, VStr s, VInt b, VInt c, VInt d, VInt e] = Some o1"
  by (simp add: printf_conv_def uart_print_dec_eq)

lemma booting_pcb:
  assumes "booting lm pl k" "link_ok pl lm" "i < 3" "p_pgd_pa q = pgd_pa_of lm pl (of_nat i)"
  shows "booting lm pl (k\<lparr>processes := (processes k)[i := q]\<rparr>)"
proof -
  have "(of_nat i :: u32) \<in> {0, 1, 2}" using less_3_cases [OF assms(3)] by auto
  from ttbr_distinct(2) [OF assms(2) this this] have "p_pgd_pa q OR TTBR_ATTRS \<noteq> boot_ttbr lm pl"
    using assms(4) by simp
  then show ?thesis
    using assms(1) set_update_subset_insert [of "processes k" i q] unfolding booting_def by auto
qed

lemma process_init_one_eq:
  assumes b: "booting lm pl k" and ok: "link_ok pl lm" and i: "i < 3"
  defines "img \<equiv> lm_images lm ! i"
  shows "\<exists>out. process_init_one lm pl (of_nat i) k = Some (k
    \<lparr>processes := (processes k)[i := init_pcb lm pl i],
     pmem := store_bytes (user_slot pl i) img (store_bytes (user_slot pl i) (replicate 1048576 0) (pmem k)),
     proc_pgd := (proc_pgd k)(i := pgtable_build_for_proc pl (boot_desc pl) (proc_pgd k i) (user_slot pl i)),
     kstack := store_words (proc_kstack_row lm (of_nat i) + KSTACK_SIZE - INIT_STACK_WORDS * 4)
       (initial_frame lm USER_VIRT_BASE) (kstack k),
     conts := (conts k)(i := K_first_entry), tx := out\<rparr>)"
proof -
  have ui: "unat (of_nat i :: u32) = i" using i by (simp add: unat_of_nat)
  define k1 where "k1 = k\<lparr>processes := (processes k)[i := new_pcb lm pl (of_nat i)]\<rparr>"
  have len: "length (processes k) = 3" using b by (simp add: booting_def)
  have b1: "booting lm pl k1"
    unfolding k1_def by (rule booting_pcb [OF b ok i]) (simp add: new_pcb_def pgd_pa_of_def)
  note act = active_boot [OF b1]
  let ?va = "user_slot pl i + PHYS_OFFSET (board_of pl)"
  have lim: "length img \<le> 1048576" using ok i by (simp add: link_ok_def img_def)
  then have ulen: "unat (of_nat (length img) :: u32) = length img" by (simp add: unat_of_nat)
  define m1 where "m1 = store_bytes (user_slot pl i) (replicate 1048576 0) (pmem k)"
  have set1: "kmemset ?va 0 USER_REGION_SIZE 0 k1 = Some (k1\<lparr>pmem := m1\<rparr>)"
    using kmemset_eq [of USER_REGION_SIZE k1 ?va "user_slot pl i" 0 0] slot_alias [OF i] act
    by (simp add: m1_def k1_def USER_REGION_SIZE_def)
  have below: "j < USER_REGION_SIZE" if "j < of_nat (length img)" for j
    using that lim ulen by (simp add: kconst word_less_nat_alt)
  have cpy: "kmemcpy ?va img (of_nat (length img)) 0 (k1\<lparr>pmem := m1\<rparr>)
      = Some (k1\<lparr>pmem := store_bytes (user_slot pl i) img m1\<rparr>)"
    using kmemcpy_eq [of "of_nat (length img)" "k1\<lparr>pmem := m1\<rparr>" ?va "user_slot pl i" 0 img]
      slot_alias [OF i below] act ulen by simp
  have "unat ?va = 0xC0200000 + i * 0x100000"
    using less_3_cases [OF i] by (cases pl) (auto simp: user_slot_def board_defs)
  then obtain ls where ic: "icache_sync ?va (of_nat (length img)) = Some ls"
    using icache_sync_cover [of ?va "of_nat (length img)"] ulen lim i by auto
  have p: "processes k1 ! i = new_pcb lm pl (of_nat i)" using len i by (simp add: k1_def)
  have base: "p_user_phys_base (new_pcb lm pl (of_nat i)) = user_slot pl i"
    by (simp add: new_pcb_def user_slot_def)
  have upd: "upd_proc i (\<lambda>_. new_pcb lm pl (of_nat i)) k = k1" by (simp add: upd_proc_def k1_def)
  define k2 where "k2 = k1\<lparr>pmem := store_bytes (user_slot pl i) img m1,
    proc_pgd := (proc_pgd k1)(i := pgtable_build_for_proc pl (boot_desc pl) (proc_pgd k1 i) (user_slot pl i))\<rparr>"
  have fr: "process_build_initial_frame lm i k2 = k2\<lparr>processes := (processes k)[i := init_pcb lm pl i],
      kstack := store_words (proc_kstack_row lm (of_nat i) + KSTACK_SIZE - INIT_STACK_WORDS * 4)
        (initial_frame lm USER_VIRT_BASE) (kstack k2), conts := (conts k2)(i := K_first_entry)\<rparr>"
    using p len i
    by (simp add: process_build_initial_frame_def Let_def upd_proc_def k2_def k1_def init_pcb_def)
      (simp add: new_pcb_def zero_process_def)
  have bt: "boot_pgd k1 = boot_desc pl" using b1 by (simp add: booting_def)
  have "\<exists>args. process_init_one lm pl (of_nat i) k =
      Some (kprintf (bytes ''[PROC] pid=%u name=%s pgd=0x%08x kstack=0x%08x user_pa=0x%08x img=%u bytes'' @ [10])
        args (process_build_initial_frame lm i k2)) \<and>
      (\<exists>a s b c d e. args = [VInt a, VStr s, VInt b, VInt c, VInt d, VInt e])"
    using set1 cpy ic p base bt
    by (simp add: process_init_one_def Let_def ui upd img_def [symmetric] k2_def del: bytes_Cons)
      (rule exI, rule conjI, rule refl, (rule exI)+, rule refl)
  then obtain a s b c d e where eq: "process_init_one lm pl (of_nat i) k =
      Some (kprintf (bytes ''[PROC] pid=%u name=%s pgd=0x%08x kstack=0x%08x user_pa=0x%08x img=%u bytes'' @ [10])
        [VInt a, VStr s, VInt b, VInt c, VInt d, VInt e] (process_build_initial_frame lm i k2))" by blast
  obtain o1 where o1: "uart_printf (bytes ''[PROC] pid=%u name=%s pgd=0x%08x kstack=0x%08x user_pa=0x%08x img=%u bytes'' @ [10])
     [VInt a, VStr s, VInt b, VInt c, VInt d, VInt e] = Some o1" using proc_message by blast
  show ?thesis
    unfolding eq kprintf_eq [OF o1] fr
    by (rule exI [of _ "tx k @ o1"]) (simp add: k2_def k1_def m1_def)
qed

section \<open>The whole table\<close>

text \<open>The memory after the three images are in place.\<close>

definition load_image :: "linkmap \<Rightarrow> platform \<Rightarrow> nat \<Rightarrow> (u32 \<Rightarrow> u8) \<Rightarrow> u32 \<Rightarrow> u8" where
  "load_image lm pl i m =
     store_bytes (user_slot pl i) (lm_images lm ! i) (store_bytes (user_slot pl i) (replicate 1048576 0) m)"

definition one_done :: "linkmap \<Rightarrow> platform \<Rightarrow> nat \<Rightarrow> kernel \<Rightarrow> kernel \<Rightarrow> bool" where
  "one_done lm pl i k k' \<longleftrightarrow>
     booting lm pl k' \<and> processes k' = (processes k)[i := init_pcb lm pl i] \<and>
     pmem k' = load_image lm pl i (pmem k) \<and>
     (\<forall>j < 4096. proc_pgd k' i j = proc_desc pl (user_slot pl i) j) \<and>
     (\<forall>n. n \<noteq> i \<longrightarrow> proc_pgd k' n = proc_pgd k n) \<and>
     conts k' = (conts k)(i := K_first_entry) \<and> boot_rest k' = boot_rest k \<and>
     kstack k' = store_words (proc_kstack_row lm (of_nat i) + KSTACK_SIZE - INIT_STACK_WORDS * 4)
       (initial_frame lm USER_VIRT_BASE) (kstack k)"

lemma process_init_one_ok:
  assumes "booting lm pl k" "link_ok pl lm" "i < 3"
  shows "\<exists>k'. process_init_one lm pl (of_nat i) k = Some k' \<and> one_done lm pl i k k'"
proof -
  let ?k' = "\<lambda>out. k\<lparr>processes := (processes k)[i := init_pcb lm pl i], pmem := load_image lm pl i (pmem k),
     proc_pgd := (proc_pgd k)(i := pgtable_build_for_proc pl (boot_desc pl) (proc_pgd k i) (user_slot pl i)),
     kstack := store_words (proc_kstack_row lm (of_nat i) + KSTACK_SIZE - INIT_STACK_WORDS * 4)
       (initial_frame lm USER_VIRT_BASE) (kstack k),
     conts := (conts k)(i := K_first_entry), tx := out\<rparr>"
  from process_init_one_eq [OF assms] obtain out where
    "process_init_one lm pl (of_nat i) k = Some (?k' out)" by (auto simp: load_image_def)
  moreover have "one_done lm pl i k (?k' out)"
    using booting_pcb [OF assms, of "init_pcb lm pl i"]
    by (simp add: one_done_def booting_def boot_rest_def proc_pgd_closed init_pcb_simps)
  ultimately show ?thesis by blast
qed

lemma process_init_all_ok:
  assumes "booting lm pl k" "link_ok pl lm"
  obtains k' where "process_init_all lm pl k = Some k'" "current k' = Some 0"
    "processes k' = map (init_pcb lm pl) [0, 1, 2]"
    "pmem k' = load_image lm pl 2 (load_image lm pl 1 (load_image lm pl 0 (pmem k)))"
    "\<forall>i < 3. \<forall>j < 4096. proc_pgd k' i j = proc_desc pl (user_slot pl i) j"
    "\<forall>i < 3. conts k' i = K_first_entry" "snd (boot_rest k') = snd (boot_rest k)"
    "snd (fst (boot_rest k')) = snd (fst (boot_rest k))" "boot_pgd k' = boot_desc pl"
proof -
  obtain k0 where k0: "process_init_one lm pl 0 k = Some k0" "one_done lm pl 0 k k0"
    using process_init_one_ok [OF assms, of 0] by auto
  then have b0: "booting lm pl k0" by (simp add: one_done_def)
  obtain k1 where k1: "process_init_one lm pl 1 k0 = Some k1" "one_done lm pl 1 k0 k1"
    using process_init_one_ok [OF b0 assms(2), of 1] by auto
  then have b1: "booting lm pl k1" by (simp add: one_done_def)
  obtain k2 where k2: "process_init_one lm pl 2 k1 = Some k2" "one_done lm pl 2 k1 k2"
    using process_init_one_ok [OF b1 assms(2), of 2] by auto
  note d0 = k0(2) [unfolded one_done_def] and d1 = k1(2) [unfolded one_done_def]
    and d2 = k2(2) [unfolded one_done_def]
  have "process_init_loop lm pl 0 k = Some k2"
    using k0(1) k1(1) k2(1)
    by (simp add: process_init_loop.simps [of lm pl 0 k] process_init_loop.simps [of lm pl 1 k0]
        process_init_loop.simps [of lm pl 2 k1] process_init_loop.simps [of lm pl 3 k2] kconst)
  then have all: "process_init_all lm pl k = Some (k2\<lparr>current := Some 0\<rparr>)"
    by (simp add: process_init_all_def)
  have len: "length (processes k) = 3" using assms(1) by (simp add: booting_def)
  have ps: "processes k2 = map (init_pcb lm pl) [0, 1, 2]"
    using len d0 d1 d2
    by (cases "processes k") (auto simp: length_Suc_conv numeral_3_eq_3 numeral_2_eq_2)
  have tb: "proc_pgd k2 i j = proc_desc pl (user_slot pl i) j" if "i < 3" "j < 4096" for i j
    using less_3_cases [OF that(1)] d0 d1 d2 that(2) by auto
  have ct: "conts k2 i = K_first_entry" if "i < 3" for i
    using less_3_cases [OF that] d0 d1 d2 by auto
  show ?thesis
    by (rule that [OF all])
      (use ps tb ct d0 d1 d2 in \<open>simp_all add: boot_rest_def booting_def\<close>)
qed

section \<open>Boot\<close>

text \<open>Printing changes nothing but the console.\<close>

definition printed :: "kernel \<Rightarrow> kernel \<Rightarrow> bool" where
  "printed k k' \<longleftrightarrow> (\<exists>out. k' = k\<lparr>tx := out\<rparr>)"

lemma printed_refl: "printed k k"
  unfolding printed_def by (rule exI [of _ "tx k"]) simp

lemma printed_step: "\<exists>o1. uart_printf fmt args = Some o1 \<Longrightarrow> printed k k' \<Longrightarrow> printed k (kprintf fmt args k')"
  by (auto simp: printed_def kprintf_eq)

lemma printf_plain: "37 \<notin> set s \<Longrightarrow> uart_printf s ap = Some (uart_puts s)"
  by (induction s) auto

lemma banner_printed: "printed k (boot_banner lm pl cpsr k)"
proof -
  have bar: "\<exists>o1. uart_printf (replicate 48 61 @ [10]) [] = Some o1"
    by (simp add: printf_plain)
  show ?thesis
    unfolding boot_banner_def Let_def
    by (intro printed_step printed_refl bar)
      (simp_all add: printf_conv_def uart_print_dec_eq emdash_def del: replicate.simps)
qed

lemma status_printed: "printed k (mmu_print_status lm pl sctlr k)"
  unfolding mmu_print_status_def Let_def
  by (intro printed_step printed_refl) (simp_all add: printf_conv_def uart_print_dec_eq)

lemma exception_init_printed: "printed k (exception_init lm k)"
  unfolding exception_init_def by (intro printed_step printed_refl) (simp add: printf_conv_def)

lemma drop_identity_printed:
  "printed (k\<lparr>boot_pgd := drop_identity pl (boot_pgd k)\<rparr>) (mmu_drop_identity pl k)"
  unfolding mmu_drop_identity_def Let_def
  by (intro printed_step printed_refl) (simp add: printf_conv_def emdash_def)

lemma printed_trans: "printed k k1 \<Longrightarrow> printed k1 k2 \<Longrightarrow> printed k k2"
  by (auto simp: printed_def)

lemma first_message:
  "\<exists>o1. uart_printf (bytes ''[BOOT] boot complete '' @ emdash @
     bytes '' entering user mode pid=%u (USR @ 0x%08x)'' @ [10]) [VInt a, VInt b] = Some o1"
  by (simp add: printf_conv_def uart_print_dec_eq emdash_def)

text \<open>What the machine looks like when the first process is entered.\<close>

definition booted :: "linkmap \<Rightarrow> platform \<Rightarrow> (u32 \<Rightarrow> u8) \<Rightarrow> kernel \<Rightarrow> bool" where
  "booted lm pl m k \<longleftrightarrow>
     current k = Some 0 \<and> processes k = map (init_pcb lm pl) [0, 1, 2] \<and>
     ttbr0 k = pgd_pa_of lm pl 0 OR TTBR_ATTRS \<and>
     sp_usr k = USER_STACK_TOP \<and> lr_usr k = 0 \<and>
     pmem k = load_image lm pl 2 (load_image lm pl 1 (load_image lm pl 0 m)) \<and>
     (\<forall>i < 3. \<forall>j < 4096. proc_pgd k i j = proc_desc pl (user_slot pl i) j) \<and>
     boot_pgd k = kernel_desc pl \<and>
     (\<forall>i < 3. conts k i = K_first_entry) \<and> rx_q k = rx_ring_init \<and>
     \<not> need_reschedule k \<and> blocked_reader k = None \<and> wake_hint k = None \<and> \<not> ub k \<and>
     user_handler k = Some H_scheduler_tick \<and>
     irq_table k = [unat (IRQ_TIMER (board_of pl)) \<mapsto> H_timer_irq, unat (IRQ_UART0 (board_of pl)) \<mapsto> H_uart_rx_irq]"

lemma mmu_init_eq:
  "mmu_init lm pl (PHYS_OFFSET (board_of pl)) (bss_state m ks) =
     (bss_state m ks)\<lparr>boot_pgd := boot_desc pl, ttbr0 := boot_ttbr lm pl\<rparr>"
  by (simp add: mmu_init_def mmu_enable_def Let_def boot_ttbr_def boot_pgd_closed bss_state_def)

lemma registered_lines:
  "irq_register (IRQ_UART0 (board_of pl)) H_uart_rx_irq
     (irq_register (IRQ_TIMER (board_of pl)) H_timer_irq (irq_table_clear k)) =
   k\<lparr>irq_table := (\<lambda>i. if i < 128 then None else irq_table k i)
      (unat (IRQ_TIMER (board_of pl)) \<mapsto> H_timer_irq, unat (IRQ_UART0 (board_of pl)) \<mapsto> H_uart_rx_irq)\<rparr>"
  by (cases pl) (simp_all add: irq_register_def irq_table_clear_def MAX_IRQS_def board_defs)

lemma boot_ok:
  assumes "link_ok pl lm"
  shows "\<exists>k. boot lm pl cpsr sctlr m ks = Some k \<and> booted lm pl m k"
proof -
  define k0 where "k0 = (bss_state m ks)\<lparr>boot_pgd := boot_desc pl, ttbr0 := boot_ttbr lm pl\<rparr>"
  obtain out where out: "exception_init lm (mmu_print_status lm pl sctlr (boot_banner lm pl cpsr k0))
      = k0\<lparr>tx := out\<rparr>"
    using printed_trans [OF printed_trans [OF banner_printed status_printed] exception_init_printed]
    unfolding printed_def by blast
  define k1 where "k1 = k0\<lparr>tx := out, irq_table :=
    [unat (IRQ_TIMER (board_of pl)) \<mapsto> H_timer_irq, unat (IRQ_UART0 (board_of pl)) \<mapsto> H_uart_rx_irq]\<rparr>"
  have k1: "irq_register (IRQ_UART0 (board_of pl)) H_uart_rx_irq (irq_register (IRQ_TIMER (board_of pl))
      H_timer_irq (irq_table_clear (k0\<lparr>tx := out\<rparr>))) = k1"
    by (simp add: registered_lines k1_def) (simp add: k0_def bss_state_def cong: if_cong)
  have "booting lm pl k1"
    using ttbr_distinct(3) [OF assms, of 0 0]
    by (simp add: booting_def k1_def k0_def bss_state_def zero_process_def)
  then obtain k2 where k2: "process_init_all lm pl k1 = Some k2" "current k2 = Some 0"
    "processes k2 = map (init_pcb lm pl) [0, 1, 2]"
    "pmem k2 = load_image lm pl 2 (load_image lm pl 1 (load_image lm pl 0 (pmem k1)))"
    "\<forall>i < 3. \<forall>j < 4096. proc_pgd k2 i j = proc_desc pl (user_slot pl i) j"
    "\<forall>i < 3. conts k2 i = K_first_entry" "snd (boot_rest k2) = snd (boot_rest k1)"
    "snd (fst (boot_rest k2)) = snd (fst (boot_rest k1))" "boot_pgd k2 = boot_desc pl"
    by (rule process_init_all_ok [OF _ assms])
  obtain out2 where out2: "mmu_drop_identity pl k2 = k2\<lparr>boot_pgd := kernel_desc pl, tx := out2\<rparr>"
    using drop_identity_printed [of pl k2] k2(9) by (auto simp: printed_def drop_identity_closed)
  define k3 where "k3 = k2\<lparr>boot_pgd := kernel_desc pl, tx := out2, user_handler := Some H_scheduler_tick\<rparr>"
  obtain out3 where out3: "kprintf (bytes ''[BOOT] boot complete '' @ emdash @
      bytes '' entering user mode pid=%u (USR @ 0x%08x)'' @ [10])
      [VInt (p_pid (processes k3 ! 0)), VInt (p_user_entry (processes k3 ! 0))] k3 = k3\<lparr>tx := out3\<rparr>"
    using first_message kprintf_eq by blast
  have "boot lm pl cpsr sctlr m ks = Some (process_first_run 0 (k3\<lparr>tx := out3\<rparr>))"
    unfolding boot_def kmain_def Let_def mmu_init_eq k0_def [symmetric] out k1
    by (simp only: k2(1) bind.bind_lunit out2 timer_set_handler_def)
      (use out3 in \<open>simp only: k3_def\<close>)
  moreover have "booted lm pl m (process_first_run 0 (k3\<lparr>tx := out3\<rparr>))"
    using k2 by (simp add: booted_def process_first_run_def context_switch_def Let_def k3_def
        boot_rest_def init_pcb_simps k1_def k0_def bss_state_def)
      (simp add: init_pcb_def)
  ultimately show ?thesis by blast
qed

lemma booted_kinv:
  assumes "booted lm pl m k" "link_ok pl lm"
  shows "kinv pl k"
proof -
  have p: "processes k ! i = init_pcb lm pl i" if "i < 3" for i
    using less_3_cases [OF that] assms(1) by (auto simp: booted_def)
  have len: "length (processes k) = 3" using assms(1) by (simp add: booted_def)
  have b: "current k = Some 0" "ttbr0 k = pgd_pa_of lm pl 0 OR TTBR_ATTRS" "blocked_reader k = None"
    "wake_hint k = None" using assms(1) by (simp_all add: booted_def)
  have "sched_inv k"
    by (simp add: sched_inv_def p init_pcb_simps pstate_def b len)
  moreover have "mem_inv pl k"
  proof -
    have "(of_nat i :: u32) = of_nat j \<longleftrightarrow> i = j" if "i < 3" "j < 3" for i j :: nat
      using less_3_cases [OF that(1)] less_3_cases [OF that(2)] by auto
    moreover have "(of_nat i :: u32) \<in> {0, 1, 2}" if "i < 3" for i using less_3_cases [OF that] by auto
    ultimately have "p_pgd_pa (processes k ! i) OR TTBR_ATTRS = p_pgd_pa (processes k ! j) OR TTBR_ATTRS
        \<longleftrightarrow> i = j" if "i < 3" "j < 3" for i j
      using that ttbr_distinct(1) [OF assms(2), of "of_nat i" "of_nat j"] by (simp add: p init_pcb_simps)
    then show ?thesis using assms(1) by (simp add: mem_inv_def booted_def)
  qed
  moreover have "cont_inv k" using assms(1) by (simp add: cont_inv_def booted_def)
  ultimately show ?thesis using assms(1) by (simp add: kinv_def booted_def)
qed

end
