(* ===== verification/System.thy ===== *)
theory System
  imports Process
begin

text \<open>
  The running system as a step relation: user code of the current process writes its memory
  and registers, or an exception is taken and handled to the end. The relation starts from
  the state that \<open>kmain\<close> leaves. The invariant of the kernel holds in every reachable state,
  by rule induction over the steps.
\<close>

section \<open>Steps\<close>

inductive kstep :: "kernel \<Rightarrow> kernel \<Rightarrow> bool" where
  exception:
    "fault_from_user (event_ctx ev) \<Longrightarrow> kernel_entry ev k = Some (To_user k') \<Longrightarrow> kstep k k'"
| user_store:
    "section_lookup True (active_pgd k) va = Some pa \<Longrightarrow> kstep k (k\<lparr>pmem := (pmem k)(pa := b)\<rparr>)"
| user_regs: "kstep k (k\<lparr>sp_usr := s, lr_usr := l\<rparr>)"

inductive_cases kstepE: "kstep k k'"

inductive reachable :: "linkmap \<Rightarrow> platform \<Rightarrow> kernel \<Rightarrow> bool" for lm pl where
  start: "boot lm pl cpsr sctlr m ks = Some k \<Longrightarrow> reachable lm pl k"
| step: "reachable lm pl k \<Longrightarrow> kstep k k' \<Longrightarrow> reachable lm pl k'"

section \<open>The invariant\<close>

lemma kinv_regs [simp]: "kinv pl (k\<lparr>sp_usr := s, lr_usr := l\<rparr>) = kinv pl k"
  by (simp add: kinv_def sched_inv_def mem_inv_def cont_inv_def pstate_def cong: option.case_cong)

lemma kinv_current:
  assumes "kinv pl k"
  obtains c where "current k = Some c" "c < 3" "length (processes k) = 3"
  using kinvD(1) [OF assms] by (auto elim!: sched_invD)

lemma kstep_kinv: "kstep k k' \<Longrightarrow> kinv pl k \<Longrightarrow> kinv pl k'"
proof (induction rule: kstep.induct)
  case (exception ev k k')
  obtain c where c: "current k = Some c" using kinv_current [OF exception(3)] by blast
  from kernel_entry_post [OF exception(3) c exception(1,2)] show ?case by (auto simp: entry_post_def)
qed simp_all

lemma boot_kinv: "link_ok pl lm \<Longrightarrow> boot lm pl cpsr sctlr m ks = Some k \<Longrightarrow> kinv pl k"
  using boot_ok [of pl lm cpsr sctlr m ks] booted_kinv by fastforce

lemma reachable_kinv: "reachable lm pl k \<Longrightarrow> link_ok pl lm \<Longrightarrow> kinv pl k"
  by (induction rule: reachable.induct) (auto intro: boot_kinv kstep_kinv)

section \<open>User stores\<close>

text \<open>User mode reaches its own megabyte and nothing else.\<close>

lemma user_reach:
  assumes "kinv pl k" "current k = Some c" "section_lookup True (active_pgd k) va = Some pa"
  shows "in_user_window va \<and> pa = upa pl c va"
proof -
  have c: "c < 3" using kinvD(1) [OF assms(1)] assms(2) by (auto elim!: sched_invD)
  have act: "active_pgd k = proc_pgd k c"
    by (rule active_pgd_current [OF kinvD(1,3) [OF assms(1)] assms(2)])
  have d: "proc_pgd k c (sec_index va) = proc_desc pl (user_slot pl c) (sec_index va)"
    using kinvD(3) [OF assms(1)] c sec_index_less [of va] by (simp add: mem_inv_def)
  show ?thesis
  proof (cases "in_user_window va")
    case True
    then show ?thesis
      using user_window_lookup [of c va "proc_pgd k c" pl True] c d assms(3) act by (simp add: upa_def)
  next
    case False
    then have "proc_pgd k c (sec_index va) = kernel_desc pl (sec_index va)"
      using d by (simp add: proc_desc_def in_user_window_index)
    then show ?thesis using kernel_desc_user [of "proc_pgd k c" va pl] assms(3) act by simp
  qed
qed

section \<open>The dead\<close>

definition retired :: "kernel \<Rightarrow> nat \<Rightarrow> bool" where
  "retired k i \<longleftrightarrow> pstate k i = TASK_DEAD \<and> current k \<noteq> Some i"

lemma kstep_retired:
  assumes "kstep k k'" "kinv pl k" "i < 3" "retired k i"
  shows "retired k' i"
  using assms
proof (induction rule: kstep.induct)
  case (exception ev k k')
  obtain c where c: "current k = Some c" using kinv_current [OF exception(3)] by blast
  from kernel_entry_post [OF exception(3) c exception(1,2)] show ?case
    using exception(4,5) c by (auto simp: entry_post_def retired_def)
qed (simp_all add: retired_def pstate_def)

lemma ksteps_retired:
  assumes "kstep\<^sup>*\<^sup>* k k'" "kinv pl k" "i < 3" "retired k i"
  shows "kinv pl k' \<and> retired k' i"
  using assms by (induction rule: rtranclp_induct) (auto intro: kstep_kinv kstep_retired)

section \<open>Progress\<close>

text \<open>An interrupt of a process that can go on is always answered: someone returns to user mode.\<close>

lemma irq_returns:
  assumes "kinv pl k" "current k = Some c" "runnable (pstate k c)"
  shows "\<exists>k'. kernel_entry (Irq ctx n bs) k = Some (To_user k')"
proof -
  let ?k1 = "irq_dispatch n bs (save_frame ctx k)"
  note sf = save_frame_props [OF assms(2), where ctx = ctx]
  have k1: "kinv pl ?k1" "current ?k1 = Some c"
    using assms(1,2) sf irq_dispatch_kinv by (simp_all add: frame)
  have "sched_inv (save_frame ctx k)" using assms(1) sf(1) kinvD(1) by blast
  then have alive: "runnable (pstate ?k1 c)"
    using irq_dispatch_pstate [of "save_frame ctx k" c n bs] assms(3) sf(5) by (auto simp: runnable_def)
  obtain k2 away where sch: "schedule K_user_return ?k1 = (k2, away)" by fastforce
  have ent: "kernel_entry (Irq ctx n bs) k = sched_tail ?k1"
    by (simp add: kernel_entry_def handle_irq_def)
  show ?thesis
  proof (cases away)
    case False
    then show ?thesis using sch ent by (simp add: sched_tail_def)
  next
    case True
    then have sw: "schedule K_user_return ?k1 = (k2, True)" using sch by simp
    obtain t where t: "switched_in pl t k2" "current k2 = Some t" "t \<noteq> c"
      "conts k2 = (conts ?k1)(c := K_user_return)"
      by (rule schedule_switches_in [OF k1 _ _ sw]) auto
    have "runnable (pstate k2 c)"
      using schedule_pstate [OF kinvD(1) [OF k1(1)] k1(2), of K_user_return c] sw t(2,3) alive
      by (auto simp: runnable_def)
    moreover have "c < 3" using kinv_current [OF k1(1)] k1(2) by auto
    moreover have "conts k2 c = K_user_return" using t(4) by simp
    ultimately obtain out where "resume t k2 = Some out"
      using resume_returns [OF t(1)] by fastforce
    moreover from resume_kinv [OF t(1) this] obtain k' where "out = To_user k'" by (cases out) auto
    ultimately show ?thesis using sw ent t(2) by (simp add: sched_tail_def cur_def)
  qed
qed

section \<open>Round robin under timer interrupts\<close>

text \<open>
  A time slice: the stores that the user code makes, its stack pointer and link register, and
  the registers with which the timer interrupt finds it. A store that would fault is not made.
\<close>

record slice =
  sl_stores :: "(u32 \<times> u8) list"
  sl_sp :: u32
  sl_lr :: u32
  sl_ctx :: exception_context

definition user_put :: "u32 \<times> u8 \<Rightarrow> kernel \<Rightarrow> kernel" where
  "user_put = (\<lambda>(va, b) k.
     case section_lookup True (active_pgd k) va of
       Some pa \<Rightarrow> k\<lparr>pmem := (pmem k)(pa := b)\<rparr>
     | None \<Rightarrow> k)"

definition user_slice :: "slice \<Rightarrow> kernel \<Rightarrow> kernel" where
  "user_slice sl k = (fold user_put (sl_stores sl) k)\<lparr>sp_usr := sl_sp sl, lr_usr := sl_lr sl\<rparr>"

text \<open>Slices one after the other, each ended by the timer interrupt.\<close>

fun tick_n :: "platform \<Rightarrow> slice list \<Rightarrow> kernel \<Rightarrow> kernel option" where
  "tick_n pl [] k = Some k"
| "tick_n pl (sl # sls) k =
     (case kernel_entry (Irq (sl_ctx sl) (IRQ_TIMER (board_of pl)) []) (user_slice sl k) of
        Some (To_user k') \<Rightarrow> tick_n pl sls k'
      | _ \<Rightarrow> None)"

text \<open>The timer is wired to the scheduler and no woken reader is on its way.\<close>

definition preemptive :: "platform \<Rightarrow> kernel \<Rightarrow> bool" where
  "preemptive pl k \<longleftrightarrow>
     kinv pl k \<and> irq_table k (unat (IRQ_TIMER (board_of pl))) = Some H_timer_irq \<and>
     user_handler k = Some H_scheduler_tick \<and> wake_hint k = None \<and>
     (\<forall>i < 3. Some i \<noteq> current k \<longrightarrow> runnable (pstate k i) \<longrightarrow> conts k i \<in> {K_first_entry, K_user_return})"

lemma schedule_wiring:
  assumes "sched_inv k"
  shows "irq_table (fst (schedule rc k)) = irq_table k" "user_handler (fst (schedule rc k)) = user_handler k"
proof -
  obtain c where c: "current k = Some c" using assms by (auto elim!: sched_invD)
  have p: "irq_table (perform_switch p n rc k) = irq_table k"
    "user_handler (perform_switch p n rc k) = user_handler k" for p n k
    by (simp_all add: perform_switch_def Let_def frame set_state_def)
  show "irq_table (fst (schedule rc k)) = irq_table k" "user_handler (fst (schedule rc k)) = user_handler k"
    using p by (auto simp: schedule_eq [OF assms c] split: option.splits)
qed

lemma timer_dispatch_eq:
  assumes "preemptive pl k" "current k = Some c"
  shows "irq_dispatch (IRQ_TIMER (board_of pl)) bs (save_frame ctx k) =
    (save_frame ctx k)\<lparr>tick_count := tick_count k + 1, need_reschedule := True,
       eoi_log := eoi_log k @ [IRQ_TIMER (board_of pl)]\<rparr>"
proof -
  have "IRQ_TIMER (board_of pl) < MAX_IRQS" by (cases pl) (simp_all add: board_defs MAX_IRQS_def)
  then show ?thesis using assms
    by (simp add: preemptive_def irq_dispatch_def Let_def timer_tick_def scheduler_tick_def save_frame_def)
qed

lemma tick_step:
  assumes "preemptive pl k" "current k = Some c"
  shows "\<exists>k'. kernel_entry (Irq ctx (IRQ_TIMER (board_of pl)) bs) k = Some (To_user k') \<and>
    preemptive pl k' \<and> (\<forall>i. runnable (pstate k' i) = runnable (pstate k i)) \<and>
    current k' = Some (case sched_pick (\<lambda>i. runnable (pstate k i)) c of None \<Rightarrow> c | Some t \<Rightarrow> t)"
proof -
  define k1 where "k1 = irq_dispatch (IRQ_TIMER (board_of pl)) bs (save_frame ctx k)"
  note sf = save_frame_props [OF assms(2), where ctx = ctx]
  have inv: "kinv pl k" using assms(1) by (simp add: preemptive_def)
  have k1: "kinv pl k1" "current k1 = Some c" using inv sf assms(2) irq_dispatch_kinv
    by (simp_all add: k1_def frame)
  note i1 = kinvD(1) [OF k1(1)]
  have st: "need_reschedule k1" "wake_hint k1 = None" "pstate k1 i = pstate k i" "conts k1 = conts k"
    "irq_table k1 = irq_table k" "user_handler k1 = user_handler k" for i
    using assms unfolding k1_def timer_dispatch_eq [OF assms]
    by (simp_all add: save_frame_def pstate_def preemptive_def)
  have tgt: "sched_target k1 c = sched_pick (\<lambda>i. runnable (pstate k i)) c"
    by (simp add: sched_target_def st)
  obtain k2 away where sch: "schedule K_user_return k1 = (k2, away)" by fastforce
  have inv2: "kinv pl k2" using schedule_kinv [OF k1, of K_user_return] sch by simp
  have wire: "irq_table k2 = irq_table k" "user_handler k2 = user_handler k" "wake_hint k2 = None"
    using schedule_wiring [OF i1, of K_user_return] schedule_frame(10) [OF i1 st(1), of K_user_return] sch st
    by simp_all
  have ent: "kernel_entry (Irq ctx (IRQ_TIMER (board_of pl)) bs) k = sched_tail k1"
    by (simp add: kernel_entry_def handle_irq_def k1_def)
  show ?thesis
  proof (cases away)
    case True
    then have sw: "schedule K_user_return k1 = (k2, True)" using sch by simp
    obtain t where t: "switched_in pl t k2" "current k2 = Some t" "t \<noteq> c" "runnable (pstate k1 t)"
      "conts k2 = (conts k1)(c := K_user_return)" "sched_target k1 c = Some t"
      by (rule schedule_switches_in [OF k1 _ _ sw]) auto
    have ps: "pstate k2 i = (if i = t then TASK_RUNNING
        else if i = c \<and> pstate k c = TASK_RUNNING then TASK_READY else pstate k i)" for i
      using schedule_pstate [OF i1 k1(2), of K_user_return i] sw t(2) st(3) by simp
    have run: "runnable (pstate k2 i) = runnable (pstate k i)" for i
      using ps [of i] t(4) st(3) by (auto simp: runnable_def)
    have "t < 3" by (rule switched_inD(5) [OF t(1)])
    then have "conts k2 t \<in> {K_first_entry, K_user_return}"
      using assms t(3-5) st(3,4) by (simp add: preemptive_def)
    then have "resume t k2 = Some (To_user k2)" by (subst resume.simps) auto
    then have "kernel_entry (Irq ctx (IRQ_TIMER (board_of pl)) bs) k = Some (To_user k2)"
      using sw ent t(2) by (simp add: sched_tail_def cur_def)
    moreover have "preemptive pl k2"
      using assms inv2 wire run t(2,5) st(4) by (auto simp: preemptive_def)
    ultimately show ?thesis using run t(2,6) tgt by auto
  next
    case False
    then have stay: "schedule K_user_return k1 = (k2, False)" using sch by simp
    note s = schedule_stay [OF i1 k1(2) stay]
    have "sched_pick (\<lambda>i. runnable (pstate k i)) c = None"
      using s(4) [OF st(1)] sched_target_None [OF i1 k1(2)] tgt by simp
    moreover have "preemptive pl k2"
      using assms inv2 wire s(1-3) st(3,4) by (simp add: preemptive_def)
    moreover have "kernel_entry (Irq ctx (IRQ_TIMER (board_of pl)) bs) k = Some (To_user k2)"
      using stay ent by (simp add: sched_tail_def)
    ultimately show ?thesis using s(1,3) st(3) by auto
  qed
qed

text \<open>User code cannot change what the scheduler depends on.\<close>

lemma user_put_frame:
  "kinv pl (user_put x k) = kinv pl k" "irq_table (user_put x k) = irq_table k"
  "user_handler (user_put x k) = user_handler k" "wake_hint (user_put x k) = wake_hint k"
  "current (user_put x k) = current k" "conts (user_put x k) = conts k" "pstate (user_put x k) = pstate k"
  by (cases x; auto simp: user_put_def pstate_def fun_eq_iff split: option.splits)+

lemma user_slice_frame:
  "preemptive pl (user_slice sl k) = preemptive pl k" "current (user_slice sl k) = current k"
  "pstate (user_slice sl k) = pstate k"
proof -
  have f: "kinv pl (fold user_put xs k) = kinv pl k \<and> irq_table (fold user_put xs k) = irq_table k \<and>
    user_handler (fold user_put xs k) = user_handler k \<and> wake_hint (fold user_put xs k) = wake_hint k \<and>
    current (fold user_put xs k) = current k \<and> conts (fold user_put xs k) = conts k \<and>
    pstate (fold user_put xs k) = pstate k" for xs
    by (induction xs arbitrary: k) (simp_all add: user_put_frame)
  have r: "pstate (k\<lparr>sp_usr := a, lr_usr := b\<rparr>) = pstate k" for k a b by (simp add: pstate_def fun_eq_iff)
  show "preemptive pl (user_slice sl k) = preemptive pl k" "current (user_slice sl k) = current k"
    "pstate (user_slice sl k) = pstate k"
    using f [of "sl_stores sl"] by (simp_all add: preemptive_def user_slice_def r)
qed

lemma tick_n_turns:
  assumes "preemptive pl k" "current k = Some c"
  shows "\<exists>k'. tick_n pl sls k = Some k' \<and> current k' = Some (rr.turns (length sls) (\<lambda>i. runnable (pstate k i)) c)"
  using assms
proof (induction sls arbitrary: k c)
  case (Cons sl sls)
  let ?ok = "\<lambda>i. runnable (pstate k i)"
  obtain k' where k': "kernel_entry (Irq (sl_ctx sl) (IRQ_TIMER (board_of pl)) []) (user_slice sl k) = Some (To_user k')"
    "preemptive pl k'" "\<forall>i. runnable (pstate k' i) = runnable (pstate k i)"
    "current k' = Some (case sched_pick ?ok c of None \<Rightarrow> c | Some t \<Rightarrow> t)"
    using tick_step [of pl "user_slice sl k" c] Cons.prems unfolding user_slice_frame by blast
  have idle: "rr.turns n ?ok c = c" if "sched_pick ?ok c = None" for n
    using that by (cases n) simp_all
  show ?case using Cons.IH [OF k'(2,4)] k' idle by (cases "sched_pick ?ok c") auto
qed simp

end
