(* ===== verification/Demo.thy ===== *)
theory Demo
  imports System
begin

text \<open>
  A concrete build and a concrete machine state, on which the hypotheses of the kernel
  theorems are checked: the addresses are those of a QEMU build with the tables at the start
  of \<open>.bss\<close>, the user images are a few bytes long.
\<close>

definition demo_link :: linkmap where
  "demo_link = \<lparr>lm_boot_pgd = 0xC0110000, lm_proc_pgd = 0xC0114000, lm_proc_kstack = 0xC0120000,
     lm_first_entry = 0xC0100400, lm_images = [[1, 2, 3], [4, 5], [6]],
     lm_text = (0xC0100000, 0xC0108000), lm_data = (0xC0109000, 0xC010A000),
     lm_bss = (0xC0110000, 0xC0128000), lm_svc_stack_top = 0xC012B000, lm_kmain = 0xC0100800,
     lm_vectors = 0xC0100020, lm_date = bytes ''Jan  1 2026'', lm_time = bytes ''12:00:00''\<rparr>"

lemma demo_link_ok: "link_ok Qemu demo_link"
  by (simp add: link_ok_def demo_link_def proc_pgd_row_def board_defs)

text \<open>The state in which the first process is entered, over zeroed memory.\<close>

definition demo_kernel :: kernel where
  "demo_kernel = (bss_state (\<lambda>_. 0) (\<lambda>_. 0))
     \<lparr>current := Some 0, processes := map (init_pcb demo_link Qemu) [0, 1, 2],
      ttbr0 := pgd_pa_of demo_link Qemu 0 OR TTBR_ATTRS, sp_usr := USER_STACK_TOP,
      pmem := load_image demo_link Qemu 2 (load_image demo_link Qemu 1 (load_image demo_link Qemu 0 (\<lambda>_. 0))),
      proc_pgd := (\<lambda>i. proc_desc Qemu (user_slot Qemu i)), boot_pgd := kernel_desc Qemu,
      user_handler := Some H_scheduler_tick,
      irq_table := [unat (IRQ_TIMER (board_of Qemu)) \<mapsto> H_timer_irq,
                    unat (IRQ_UART0 (board_of Qemu)) \<mapsto> H_uart_rx_irq]\<rparr>"

lemma demo_booted: "booted demo_link Qemu (\<lambda>_. 0) demo_kernel"
  by (simp add: booted_def demo_kernel_def bss_state_def)

lemma demo_kinv: "kinv Qemu demo_kernel"
  by (rule booted_kinv [OF demo_booted demo_link_ok])

lemma demo_simps [simp]:
  "current demo_kernel = Some 0" "need_reschedule demo_kernel = False" "wake_hint demo_kernel = None"
  "blocked_reader demo_kernel = None" "rx_q demo_kernel = rx_ring_init"
  "conts demo_kernel i = K_first_entry" "user_handler demo_kernel = Some H_scheduler_tick"
  "length (processes demo_kernel) = 3" "tx demo_kernel = []"
  by (simp_all add: demo_kernel_def bss_state_def)

lemma demo_states [simp]: "i < 3 \<Longrightarrow> pstate demo_kernel i = TASK_READY"
  by (drule less_3_cases) (auto simp: demo_kernel_def pstate_def init_pcb_simps)

lemma demo_pgd: "proc_pgd demo_kernel i = proc_desc Qemu (user_slot Qemu i)"
  by (simp add: demo_kernel_def)

lemma demo_preemptive: "preemptive Qemu demo_kernel"
  by (simp add: preemptive_def demo_kinv) (simp add: demo_kernel_def board_defs)

text \<open>A user context: registers zero but the system call number in r7, mode USR.\<close>

definition user_ctx :: "u32 \<Rightarrow> exception_context" where
  "user_ctx num = \<lparr>e_spsr = 0x10, e_r = (replicate 13 0)[7 := num], e_lr = 0x40000000\<rparr>"

lemma user_ctx_from_user [simp]: "fault_from_user (user_ctx num)"
  by (simp add: fault_from_user_def user_ctx_def)

text \<open>A \<open>getpid\<close> of the first process, run to its end.\<close>

lemma demo_getpid:
  "kernel_entry (Svc (user_ctx 1)) demo_kernel = Some (To_user (set_ret 0 0 (save_frame (user_ctx 1) demo_kernel)))"
proof -
  let ?k = "save_frame (user_ctx 1) demo_kernel"
  have "e_r (frames ?k 0) ! 7 = 1" by (simp add: save_frame_def cur_def user_ctx_def)
  moreover have "current_pid (-1) ?k = 0"
    by (simp add: current_pid_def save_frame_def) (simp add: demo_kernel_def init_pcb_simps)
  ultimately have "syscall_dispatch 0 ?k = Some (Returned (set_ret 0 0 ?k))"
    by (simp add: syscall_dispatch_def Let_def NR_SYSCALLS_def syscall_table_def sys_getpid_def word_le_nat_alt)
  then show ?thesis
    by (simp add: kernel_entry_def handle_svc_def sched_tail_def schedule_idle set_ret_def
        save_frame_def cur_def)
qed

text \<open>The shell (pid 2) asleep in \<open>sys_read(0x40000100, 16)\<close> while the counter runs.\<close>

definition demo_waiting :: kernel where
  "demo_waiting = (set_state 2 TASK_BLOCKED demo_kernel)
     \<lparr>blocked_reader := Some 2, conts := (conts demo_kernel)(2 := K_sys_read 0x40000100 16),
      frames := (\<lambda>_. user_ctx 4)\<rparr>"

lemma demo_waiting_facts:
  "current demo_waiting = Some 0" "blocked_reader demo_waiting = Some 2"
  "pstate demo_waiting 2 = TASK_BLOCKED" "conts demo_waiting 2 = K_sys_read 0x40000100 16"
  "irq_table demo_waiting (unat (IRQ_UART0 (board_of Qemu))) = Some H_uart_rx_irq"
  "rx_q demo_waiting = rx_ring_init" "e_r (frames demo_waiting 2) \<noteq> []"
  "i < 2 \<Longrightarrow> pstate demo_waiting i = TASK_READY" "length (processes demo_waiting) = 3"
  by (simp_all add: demo_waiting_def pstate_def set_state_def nth_upd_proc user_ctx_def)
    (simp_all add: demo_kernel_def upd_proc_def board_defs init_pcb_simps less_2_cases_iff, auto simp: init_pcb_simps)

lemma demo_waiting_kinv: "kinv Qemu demo_waiting"
proof -
  let ?k = "set_state 2 TASK_BLOCKED demo_kernel"
  have inv: "sched_inv ?k" by (rule sched_inv_set_state [OF kinvD(1) [OF demo_kinv]]) simp_all
  then have "sched_inv (?k\<lparr>blocked_reader := Some 2, need_reschedule := need_reschedule ?k\<rparr>)"
    by (rule sched_inv_block_slot) simp
  then have "sched_inv demo_waiting"
    by (simp add: demo_waiting_def sched_inv_def pstate_def cong: option.case_cong)
  moreover have "cont_inv demo_waiting"
    by (simp add: demo_waiting_def cont_inv_def pstate_def valid_user_ptr_iff)
  moreover have "statics demo_waiting = statics demo_kernel"
    using statics_set_state [of 2 TASK_BLOCKED demo_kernel] by (simp add: demo_waiting_def statics_def)
  ultimately show ?thesis
    by (intro kinv_statics [OF demo_kinv]) (simp_all add: demo_waiting_def)
qed

end
