(* ===== verification/Kernel_Props.thy ===== *)
theory Kernel_Props
  imports Demo
begin

text \<open>
  The properties of the kernel core: scheduler, system calls, exceptions, memory isolation
  and boot. Each is followed by an instance on the demo state of theory \<open>Demo\<close> where it has
  hypotheses.
\<close>

section \<open>The invariant and the absence of kernel faults\<close>

text \<open>C1: In every state that can be reached from boot by user code, interrupts, faults and
  system calls, the kernel invariant holds: the process table is well formed, only the current
  process is RUNNING and its table is the active one, the receive ring is consistent, every
  process's table gives it its own megabyte, parked readers hold validated buffers, and no
  message was printed with a missing argument.\<close>

theorem reachable_invariant:
  assumes "link_ok pl lm" "reachable lm pl k"
  shows "kinv pl k"
  by (rule reachable_kinv [OF assms(2,1)])

theorem reachable_invariant_witness: "\<exists>k. reachable demo_link Qemu k \<and> kinv Qemu k"
proof -
  obtain k where "boot demo_link Qemu 0xD3 0 (\<lambda>_. 0) (\<lambda>_. 0) = Some k"
    using boot_ok [OF demo_link_ok] by blast
  then have "reachable demo_link Qemu k" by (rule reachable.start)
  then show ?thesis using reachable_invariant [OF demo_link_ok] by blast
qed

text \<open>C2: No exception that user code can cause makes the kernel itself fault: if the handler
  comes back at all, it is in user mode with the invariant intact, or the machine has been
  halted on purpose, which happens only for a user fault when no other process can run.\<close>

theorem exceptions_safe:
  assumes "kinv pl k" "current k = Some c" "fault_from_user (event_ctx ev)" "kernel_entry ev k = Some out"
  shows "(\<exists>k'. out = To_user k' \<and> kinv pl k') \<or>
    (\<exists>k'. out = Halted k') \<and> is_fault ev \<and> (\<forall>i < 3. i \<noteq> c \<longrightarrow> \<not> runnable (pstate k i))"
  using kernel_entry_post [OF assms] by (cases out) (auto simp: entry_post_def)

theorem exceptions_safe_witness:
  "\<exists>out. kernel_entry (Svc (user_ctx 1)) demo_kernel = Some out \<and> (\<exists>k'. out = To_user k' \<and> kinv Qemu k')"
  using exceptions_safe [OF demo_kinv demo_simps(1), of "Svc (user_ctx 1)"] demo_getpid
  by (simp add: is_fault_def)

section \<open>Isolation\<close>





section \<open>Life and death\<close>

text \<open>C5: A process that is DEAD and not the current one stays so for ever: no sequence of
  steps of the system runs it again or makes it runnable.\<close>

theorem retired_forever:
  assumes "kinv pl k" "i < 3" "pstate k i = TASK_DEAD" "current k \<noteq> Some i" "kstep\<^sup>*\<^sup>* k k'"
  shows "pstate k' i = TASK_DEAD \<and> current k' \<noteq> Some i"
  using ksteps_retired [OF assms(5,1,2)] assms(3,4) by (simp add: retired_def)

theorem retired_forever_witness:
  "\<exists>k'. kstep\<^sup>*\<^sup>* (set_state 1 TASK_DEAD demo_kernel) k' \<and> sp_usr k' = 7 \<and>
     pstate k' 1 = TASK_DEAD \<and> current k' \<noteq> Some 1"
proof -
  let ?k = "set_state 1 TASK_DEAD demo_kernel"
  have "kstep\<^sup>*\<^sup>* ?k (?k\<lparr>sp_usr := 7, lr_usr := 0\<rparr>)" using kstep.user_regs by blast
  moreover have "kinv Qemu ?k" by (rule kinv_set_state [OF demo_kinv]) simp_all
  ultimately show ?thesis
    using retired_forever [of Qemu ?k 1 "?k\<lparr>sp_usr := 7, lr_usr := 0\<rparr>"]
    by (intro exI [of _ "?k\<lparr>sp_usr := 7, lr_usr := 0\<rparr>"]) simp
qed



section \<open>Scheduling\<close>







section \<open>Reading the console\<close>

text \<open>The effect of a received burst while a reader is parked, up to the switch to the reader.\<close>

lemma rx_wakes:
  assumes "kinv pl k" "current k = Some c" "blocked_reader k = Some p" "p \<noteq> c"
    "pstate k p = TASK_BLOCKED" "irq_table k (unat n) = Some H_uart_rx_irq" "n < MAX_IRQS"
  obtains k1 k2 where "irq_dispatch n bs k = k1" "schedule K_user_return k1 = (k2, True)"
    "switched_in pl p k2" "conts k2 p = conts k p" "rx_q k2 = fold uart_rx_push bs (rx_q k)"
    "pmem k2 = pmem k" "frames k2 = frames k"
proof -
  define k1 where "k1 = irq_dispatch n bs k"
  have p: "p < 3" "length (processes k) = 3" using kinvD(1) [OF assms(1)] assms(3) by (auto elim!: sched_invD)
  have k1: "kinv pl k1" "current k1 = Some c"
    using irq_dispatch_kinv [OF assms(1)] assms(2) by (simp_all add: k1_def frame)
  have e: "k1 = (scheduler_wake_reader (k\<lparr>rx_q := fold uart_rx_push bs (rx_q k)\<rparr>))
      \<lparr>eoi_log := eoi_log k @ [n]\<rparr>"
    using assms(6,7) by (simp add: k1_def irq_dispatch_def Let_def uart_rx_irq_def frame)
  have w: "need_reschedule k1" "wake_hint k1 = Some p" "rx_q k1 = fold uart_rx_push bs (rx_q k)"
    "pstate k1 p = TASK_READY" "pmem k1 = pmem k" "frames k1 = frames k" "conts k1 = conts k"
    using assms(3,5) p unfolding e
    by (simp_all add: scheduler_wake_reader_def pstate_def set_state_def nth_upd_proc)
  note inv = kinvD(1) [OF k1(1)]
  have tgt: "sched_target k1 c = Some p"
    using w(2,4) assms(4) by (simp add: sched_target_def runnable_def)
  then have "snd (schedule K_user_return k1)" using w(1) by (simp add: schedule_eq [OF inv k1(2)])
  then obtain k2 where sw: "schedule K_user_return k1 = (k2, True)"
    by (cases "schedule K_user_return k1") auto
  obtain t where t: "switched_in pl t k2" "conts k2 = (conts k1)(c := K_user_return)" "sched_target k1 c = Some t"
    by (rule schedule_switches_in [OF k1 _ _ sw]) auto
  have "rx_q k2 = rx_q k1" "pmem k2 = pmem k1" "frames k2 = frames k1"
    using schedule_frame(1,5,6) [OF inv, of K_user_return] sw by simp_all
  then show ?thesis using that [OF k1_def [symmetric] sw] t tgt assms(4) w by simp
qed

text \<open>C10: A process that sleeps in \<open>sys_read\<close> gets its input: when the UART interrupts with
  bytes, the reader is woken, runs ahead of the round robin, and returns to user mode with as
  many bytes as were there (at most \<open>len\<close>) in its buffer, in the order in which they arrived,
  and their number in r0; the rest stays in the ring. Bytes beyond the 127 that the ring holds
  are lost.\<close>

theorem input_reaches_reader:
  assumes "kinv pl k" "current k = Some c" "blocked_reader k = Some p" "p \<noteq> c"
    "pstate k p = TASK_BLOCKED" "conts k p = K_sys_read buf len"
    "irq_table k (unat (IRQ_UART0 (board_of pl))) = Some H_uart_rx_irq"
    "avail = take 127 (ring_list (rx_q k) @ bs)" "avail \<noteq> []" "e_r (frames k p) \<noteq> []"
  shows "\<exists>k'. kernel_entry (Irq ctx (IRQ_UART0 (board_of pl)) bs) k = Some (To_user k') \<and>
    current k' = Some p \<and> e_r (frames k' p) ! 0 = of_nat (length (take (unat len) avail)) \<and>
    uread pl p buf (length (take (unat len) avail)) k' = take (unat len) avail \<and>
    ring_list (rx_q k') = drop (unat len) avail"
proof -
  let ?k = "save_frame ctx k"
  note sf = save_frame_props [OF assms(2), where ctx = ctx]
  have n: "IRQ_UART0 (board_of pl) < MAX_IRQS" by (cases pl) (simp_all add: board_defs MAX_IRQS_def)
  obtain k1 k2 where k2: "irq_dispatch (IRQ_UART0 (board_of pl)) bs ?k = k1"
    "schedule K_user_return k1 = (k2, True)" "switched_in pl p k2" "conts k2 p = conts ?k p"
    "rx_q k2 = fold uart_rx_push bs (rx_q ?k)" "pmem k2 = pmem ?k" "frames k2 = frames ?k"
    by (rule rx_wakes [of pl ?k c p "IRQ_UART0 (board_of pl)" bs])
      (use assms(1-7) sf n in \<open>simp_all add: save_frame_def pstate_def\<close>)
  have rl: "ring_list (rx_q k2) = avail"
    using rx.pushes_content [OF kinvD(2) [OF assms(1)], of bs] k2(5) sf(8) assms(8) by simp
  have cp: "conts k2 p = K_sys_read buf len" using k2(4) sf(7) assms(6) by simp
  show ?thesis
  proof (cases rule: resume_step [OF k2(3)])
    case (2 k')
    then obtain q w where r: "w = take (unat len) avail" "ring_list q = drop (length w) avail"
      "k' = set_ret p (of_nat (length w)) (k2\<lparr>rx_q := q, pmem := store_bytes (upa pl p buf) w (pmem k2)\<rparr>)"
      using cp rl by (auto simp: reads_def)
    have fr: "e_r (frames k2 p) \<noteq> []" using k2(7) assms(2,4,10) by (simp add: save_frame_def cur_def)
    have "length avail \<le> 127" unfolding assms(8) by (simp only: length_take)
    then have "length w \<le> 1048576" unfolding r(1) by (simp only: length_take)
    then have "uread pl p buf (length w) k' = w"
      using uread_store [where bs = w and pl = pl and c = p and va = buf and k = k2] r(3) by (simp add: set_ret_def uread_def)
    moreover have "kernel_entry (Irq ctx (IRQ_UART0 (board_of pl)) bs) k = Some (To_user k')"
      using 2(2) k2 switched_inD(7) [OF k2(3)]
      by (simp add: kernel_entry_def handle_irq_def sched_tail_def)
    moreover have "current k' = Some p" by (rule reads_kinv(2) [OF k2(3) 2(1)])
    moreover have "e_r (frames k' p) ! 0 = of_nat (length w)" using fr r(3) by (simp add: set_ret_def)
    moreover have "drop (length w) avail = drop (unat len) avail" using r(1) by (simp add: drop_take min_def)
    ultimately show ?thesis using r by (auto simp: set_ret_def)
  next
    case (3 t' k')
    then show ?thesis using cp rl assms(9) by (auto simp: parks_def)
  qed (use cp rl assms(9) in auto)
qed

theorem input_reaches_reader_witness:
  "\<exists>k'. kernel_entry (Irq (user_ctx 0) 44 [108, 115, 10]) demo_waiting = Some (To_user k') \<and>
     current k' = Some 2 \<and> uread Qemu 2 0x40000100 3 k' = [108, 115, 10]"
  using input_reaches_reader [OF demo_waiting_kinv, of 0 2 "0x40000100" 16 "[108, 115, 10]"
      "[108, 115, 10]" "user_ctx 0"] demo_waiting_facts
  by (simp add: board_defs numeral_3_eq_3) blast

text \<open>C11: \<open>sys_read\<close> with a valid buffer has exactly three behaviours. With bytes in the ring it
  returns at once with the oldest ones, at most \<open>len\<close> of them, copied in order. With an empty
  ring and another runnable process the caller is BLOCKED, registered as the reader, and the
  CPU goes to the other process. With an empty ring and nobody else to run it never returns.\<close>

theorem sys_read_behaviour:
  assumes "kinv pl k" "current k = Some c" "valid_user_ptr buf len" "0 < len"
  shows "(ring_list (rx_q k) \<noteq> [] \<longrightarrow>
      (let w = take (unat len) (ring_list (rx_q k)) in
       \<exists>q. sys_read fd buf len k = Some (Ret (of_nat (length w))
            (k\<lparr>rx_q := q, pmem := store_bytes (upa pl c buf) w (pmem k)\<rparr>)) \<and>
          ring_inv q \<and> ring_list q = drop (length w) (ring_list (rx_q k)))) \<and>
    (ring_list (rx_q k) = [] \<longrightarrow> (\<exists>i < 3. i \<noteq> c \<and> runnable (pstate k i)) \<longrightarrow>
      (\<exists>k'. sys_read fd buf len k = Some (Away k') \<and> pstate k' c = TASK_BLOCKED \<and>
         blocked_reader k' = Some c \<and> current k' \<noteq> Some c \<and> conts k' c = K_sys_read buf len)) \<and>
    (ring_list (rx_q k) = [] \<longrightarrow> \<not> (\<exists>i < 3. i \<noteq> c \<and> runnable (pstate k i)) \<longrightarrow>
      sys_read fd buf len k = None)"
proof -
  have eq: "sys_read fd buf len k = sys_read_loop buf len 0 k"
    using assms(3,4) by (auto simp: sys_read_def)
  have c: "c < 3" "length (processes k) = 3" using kinv_current [OF assms(1)] assms(2) by auto
  show ?thesis
  proof (cases rule: sys_read_loop_cases [OF assms])
    case (1 q w)
    then have "ring_list (rx_q k) \<noteq> []" by auto
    then show ?thesis using 1 eq by (simp add: Let_def) blast
  next
    case (2 k')
    have bk: "kinv pl (blocking c k)" by (rule blocking_kinv [OF assms(1,2)])
    note inv = kinvD(1) [OF bk]
    have cur': "current (blocking c k) = Some c" using assms(2) by simp
    obtain t where t: "current k' = Some t" "t \<noteq> c" "runnable (pstate (blocking c k) t)" "t < 3"
      "conts k' = (conts (blocking c k))(c := K_sys_read buf len)"
      by (rule schedule_away [OF inv cur' 2(2)])
    have "blocked_reader k' = Some c" using schedule_frame(8) [OF inv, of "K_sys_read buf len"] 2(2) by simp
    moreover have "pstate k' c = TASK_BLOCKED"
      using schedule_pstate [OF inv cur', of "K_sys_read buf len" c] 2(2) t(1,2) c by (simp add: blocking_pstate)
    moreover have "\<exists>i < 3. i \<noteq> c \<and> runnable (pstate k i)"
      using t(2,3,4) c by (auto simp: blocking_pstate)
    ultimately show ?thesis using 2(1,3) eq t(1,2,5) by auto
  next
    case 3
    then show ?thesis using eq by auto
  qed
qed

theorem sys_read_behaviour_witness:
  "\<exists>k'. sys_read 0 0x40000100 16 demo_kernel = Some (Away k') \<and> pstate k' 0 = TASK_BLOCKED"
proof -
  have "valid_user_ptr 0x40000100 16" by (simp add: valid_user_ptr_iff)
  moreover have "runnable (pstate demo_kernel 1)" by (simp add: runnable_def)
  then have "\<exists>i < 3. i \<noteq> 0 \<and> runnable (pstate demo_kernel i)" by (intro exI [of _ 1]) simp
  ultimately show ?thesis
    using sys_read_behaviour [OF demo_kinv demo_simps(1), of "0x40000100" 16 0] by auto
qed

text \<open>The system call a frame asks for.\<close>

lemma dispatch_call:
  "e_r (frames k c) ! 7 = num \<Longrightarrow> num < NR_SYSCALLS \<Longrightarrow>
   syscall_dispatch c k = map_option (deliver c) (syscall_table num (e_r (frames k c) ! 0)
     (e_r (frames k c) ! 1) (e_r (frames k c) ! 2) (e_r (frames k c) ! 3) k)"
  by (auto simp: syscall_dispatch_def Let_def)

text \<open>C38: The kernel hangs if the last process that can run reads from an empty console: the
  system call never returns and, interrupts being masked, no key press can end it. The
  situation arises when the other processes are dead (for instance after \<open>kill 0\<close> and
  \<open>kill 1\<close> from the shell).\<close>

theorem last_reader_hangs:
  assumes "kinv pl k" "current k = Some c" "ring_list (rx_q k) = []"
    "\<forall>i < 3. i \<noteq> c \<longrightarrow> \<not> runnable (pstate k i)"
    "e_r ctx ! 7 = 4" "valid_user_ptr (e_r ctx ! 1) (e_r ctx ! 2)" "0 < e_r ctx ! 2"
  shows "kernel_entry (Svc ctx) k = None"
proof -
  let ?k = "save_frame ctx k"
  note sf = save_frame_props [OF assms(2), where ctx = ctx]
  have inv: "kinv pl ?k" using assms(1) sf(1) by simp
  have "read_stuck (e_r ctx ! 2) 0 ?k"
    using kinvD(1,2) [OF inv] assms(2-4,7) sf(2,5,8) by (simp add: read_stuck_def)
  then have "sys_read (e_r ctx ! 0) (e_r ctx ! 1) (e_r ctx ! 2) ?k = None"
    using sys_read_stuck assms(6,7) by (auto simp: sys_read_def)
  then have "syscall_dispatch c ?k = None"
    using dispatch_call [of ?k c 4] sf(6) assms(5) by (simp add: NR_SYSCALLS_def syscall_table_def)
  then show ?thesis using sf(4) by (simp add: kernel_entry_def handle_svc_def)
qed

theorem last_reader_hangs_witness:
  "kernel_entry (Svc \<lparr>e_spsr = 0x10, e_r = [0, 0x40000100, 16, 0, 0, 0, 0, 4, 0, 0, 0, 0, 0], e_lr = 0\<rparr>)
     (set_state 1 TASK_DEAD (set_state 2 TASK_DEAD demo_kernel)) = None"
proof -
  let ?k = "set_state 1 TASK_DEAD (set_state 2 TASK_DEAD demo_kernel)"
  have "kinv Qemu (set_state 2 TASK_DEAD demo_kernel)" by (rule kinv_set_state [OF demo_kinv]) simp_all
  then have inv: "kinv Qemu ?k" by (rule kinv_set_state) simp_all
  show ?thesis
    by (rule last_reader_hangs [OF inv, of 0])
      (simp_all add: all_less_3 runnable_def valid_user_ptr_iff word_less_nat_alt)
qed

section \<open>The other system calls\<close>

text \<open>C30: \<open>valid_user_ptr\<close> accepts a non-empty buffer exactly if every one of its bytes, counted
  without wrap-around, lies in the 1 MB user window.\<close>

theorem user_pointer_check:
  assumes "0 < len"
  shows "valid_user_ptr p len \<longleftrightarrow>
    (\<forall>i < unat len. 0x40000000 \<le> unat p + i \<and> unat p + i < 0x40100000)"
proof
  assume "valid_user_ptr p len"
  then show "\<forall>i < unat len. 0x40000000 \<le> unat p + i \<and> unat p + i < 0x40100000"
    by (auto simp: valid_user_ptr_iff)
next
  assume a: "\<forall>i < unat len. 0x40000000 \<le> unat p + i \<and> unat p + i < 0x40100000"
  have "0 < unat len" using assms by (simp add: word_less_nat_alt)
  with a [rule_format, of 0] a [rule_format, of "unat len - 1"]
  have "0x40000000 \<le> unat p" "unat p + unat len \<le> 0x40100000" by linarith+
  then show "valid_user_ptr p len" by (simp add: valid_user_ptr_iff)
qed

theorem user_pointer_check_witness:
  "valid_user_ptr 0x400FFFF0 16 \<and> \<not> valid_user_ptr 0x400FFFF0 17 \<and> \<not> valid_user_ptr 0x40000000 0xFFFFFFFF"
proof -
  have "valid_user_ptr 0x400FFFF0 16" unfolding user_pointer_check [of 16, simplified] by simp
  moreover have "\<not> valid_user_ptr 0x400FFFF0 17" "\<not> valid_user_ptr 0x40000000 0xFFFFFFFF"
    by (simp_all add: valid_user_ptr_iff)
  ultimately show ?thesis by simp
qed

text \<open>C29: \<open>sys_write\<close> prints exactly the caller's bytes, with a carriage return before every
  newline, and returns their number; a buffer outside the user window is refused with
  \<open>E_FAULT\<close> and nothing is printed.\<close>

theorem sys_write_prints:
  assumes "kinv pl k" "current k = Some c"
  shows "sys_write fd buf len k =
    (if valid_user_ptr buf len
     then Ret len (k\<lparr>tx := tx k @ concat (map (\<lambda>b. if b = 10 then [13, 10] else [b]) (uread pl c buf (unat len) k))\<rparr>)
     else Ret E_FAULT k)"
proof -
  have "uart_puts bs = concat (map (\<lambda>b. if b = 10 then [13, 10] else [b]) bs)" for bs
    by (induction bs) (auto simp: uart_putc_def)
  then show ?thesis
    by (cases "valid_user_ptr buf len") (simp_all add: sys_write_eq [OF assms], simp add: sys_write_def)
qed

theorem sys_write_prints_witness:
  "sys_write 1 0x3FFFFFFF 4 demo_kernel = Ret E_FAULT demo_kernel \<and>
   (\<exists>k'. sys_write 1 0x40000000 3 demo_kernel = Ret 3 k')"
proof -
  have "\<not> valid_user_ptr 0x3FFFFFFF 4" "valid_user_ptr 0x40000000 3"
    by (simp_all add: valid_user_ptr_iff)
  then show ?thesis
    using sys_write_prints [OF demo_kinv demo_simps(1), of 1 "0x3FFFFFFF" 4]
      sys_write_prints [OF demo_kinv demo_simps(1), of 1 "0x40000000" 3] by simp
qed



text \<open>C31: \<open>sys_kill\<close> refuses a pid that is not in the table with \<open>E_BADCALL\<close>, does nothing for a
  process that is already dead, and otherwise marks exactly that process DEAD, logs one line,
  and asks for a reschedule.\<close>

theorem sys_kill_effect:
  assumes "sched_inv k"
  shows "sys_kill pid k =
    (if unat pid \<ge> 3 then Ret E_BADCALL k
     else if pstate k (unat pid) = TASK_DEAD then Ret 0 k
     else Ret 0 (k\<lparr>processes := (processes k)[unat pid := (processes k ! unat pid)\<lparr>p_state := TASK_DEAD\<rparr>],
            need_reschedule := True,
            tx := tx k @ bytes ''[KILL] pid='' @ dec_digits (unat pid) @ bytes '' name=''
              @ uart_puts (p_name (processes k ! unat pid)) @ bytes '' killed by pid=''
              @ dec_digits (the (current k)) @ bytes '' via sys_kill'' @ [13, 10]\<rparr>))"
proof -
  obtain c where c: "current k = Some c" "c < 3" "length (processes k) = 3"
    and pid: "\<And>i. i < 3 \<Longrightarrow> p_pid (processes k ! i) = of_nat i"
    using assms by (auto elim!: sched_invD)
  have small: "unat (of_nat i :: u32) = i" if "i < 3" for i using that by (simp add: unat_of_nat)
  have lt: "NUM_PROCESSES \<le> pid \<longleftrightarrow> 3 \<le> unat pid" by (simp add: kconst word_le_nat_alt)
  consider "3 \<le> unat pid" | "unat pid < 3" "pstate k (unat pid) = TASK_DEAD"
    | "unat pid < 3" "pstate k (unat pid) \<noteq> TASK_DEAD" by linarith
  then show ?thesis
  proof cases
    case 3
    have lt': "pid < NUM_PROCESSES" using 3(1) lt by (simp add: not_le [symmetric])
    show ?thesis
      unfolding sys_kill_eq [OF lt' 3(2)] using 3 c pid small
      by (simp add: current_pid_def scheduler_request_resched_def set_state_def upd_proc_def)
  qed (simp_all add: sys_kill_def lt)
qed

theorem sys_kill_effect_witness:
  "sys_kill 7 demo_kernel = Ret E_BADCALL demo_kernel \<and>
   (\<exists>k'. sys_kill 1 demo_kernel = Ret 0 k' \<and> pstate k' 1 = TASK_DEAD)"
proof -
  have "pstate demo_kernel 1 = TASK_READY" by simp
  then show ?thesis
    using sys_kill_effect [OF kinvD(1) [OF demo_kinv], of 7] sys_kill_effect [OF kinvD(1) [OF demo_kinv], of 1]
    by (simp add: pstate_def)
qed

text \<open>A system call number outside the table changes nothing but r0 of the caller, which
  becomes -1 (\<open>E_BADCALL\<close>), and the caller continues.\<close>

lemma unknown_syscall:
  assumes "kinv pl k" "current k = Some c" "\<not> need_reschedule k" "8 \<le> unat (e_r ctx ! 7)" "length (e_r ctx) = 13"
  shows "kernel_entry (Svc ctx) k =
    Some (To_user (k\<lparr>frames := (frames k)(c := ctx\<lparr>e_r := (e_r ctx)[0 := - 1]\<rparr>)\<rparr>))"
proof -
  have "NR_SYSCALLS \<le> e_r ctx ! 7" using assms(4) by (simp add: NR_SYSCALLS_def word_le_nat_alt)
  then show ?thesis
    using assms(2,3)
    by (simp add: kernel_entry_def handle_svc_def syscall_dispatch_def Let_def save_frame_def cur_def
        sched_tail_def schedule_idle set_ret_def E_BADCALL_def)
qed

text \<open>\<open>sys_exit\<close> up to the call of \<open>schedule()\<close>.\<close>

lemma exit_entry:
  assumes "kinv pl k" "current k = Some c" "e_r ctx ! 7 = 3"
  obtains k1 where "kernel_entry (Svc ctx) k = sched_tail k1" "kinv pl k1" "current k1 = Some c"
    "need_reschedule k1" "\<And>i. pstate k1 i = (if i = c then TASK_DEAD else pstate k i)" "conts k1 = conts k"
proof -
  let ?k = "save_frame ctx k"
  note sf = save_frame_props [OF assms(2), where ctx = ctx]
  have c: "c < 3" "length (processes k) = 3" using kinv_current [OF assms(1)] assms(2) by auto
  define out where "out = tx ?k @ bytes ''[EXIT]  pid='' @ dec_digits (unat (p_pid (processes ?k ! c)))
        @ bytes '' name='' @ uart_puts (p_name (processes ?k ! c)) @ [13, 10]"
  define k1 where "k1 = set_ret c 0 (scheduler_request_resched (set_state c TASK_DEAD (?k\<lparr>tx := out\<rparr>)))"
  have "syscall_dispatch c ?k = Some (Returned k1)"
    using dispatch_call [of ?k c 3] sf(6) assms(3) sys_exit_eq [OF sf(2)]
    by (simp add: NR_SYSCALLS_def syscall_table_def k1_def out_def del: bytes_Cons)
  then have e: "kernel_entry (Svc ctx) k = sched_tail k1"
    using sf(4) by (simp add: kernel_entry_def handle_svc_def)
  have inv: "kinv pl k1" using assms(1) sf c by (simp add: k1_def kinv_set_state)
  have st: "pstate k1 i = (if i = c then TASK_DEAD else pstate k i)" for i
    using c by (simp add: k1_def set_ret_def scheduler_request_resched_def save_frame_def pstate_def
        set_state_def nth_upd_proc)
  show ?thesis
    by (rule that [OF e inv _ _ st])
      (use sf(2) in \<open>simp_all add: k1_def set_ret_def scheduler_request_resched_def save_frame_def\<close>)
qed

text \<open>\<open>sys_exit\<close> ends the caller as long as somebody else can run: the call does not return to
  it, it is DEAD, and another process is in user mode.\<close>

lemma exit_ends_caller:
  assumes "kinv pl k" "current k = Some c" "e_r ctx ! 7 = 3"
    and "i < 3" "i \<noteq> c" "runnable (pstate k i)" "i \<notin> readers k"
  shows "\<exists>k'. kernel_entry (Svc ctx) k = Some (To_user k') \<and> pstate k' c = TASK_DEAD \<and> current k' \<noteq> Some c"
proof -
  obtain k1 where k1: "kernel_entry (Svc ctx) k = sched_tail k1" "kinv pl k1" "current k1 = Some c"
    "need_reschedule k1" "\<And>i. pstate k1 i = (if i = c then TASK_DEAD else pstate k i)" "conts k1 = conts k"
    using exit_entry [OF assms(1-3)] by blast
  note inv = kinvD(1) [OF k1(2)]
  have "snd (schedule K_user_return k1)"
    by (rule schedule_some_other [OF inv k1(3,4) assms(4,5)]) (use assms(5,6) k1(5) in simp)
  then obtain k2 where sw: "schedule K_user_return k1 = (k2, True)"
    by (cases "schedule K_user_return k1") auto
  obtain t where t: "switched_in pl t k2" "current k2 = Some t" "t \<noteq> c" "conts k2 = (conts k1)(c := K_user_return)"
    by (rule schedule_switches_in [OF k1(2,3) _ _ sw]) auto
  have st: "runnable (pstate k2 i)" "pstate k2 c = TASK_DEAD"
    using schedule_pstate [OF inv k1(3), of K_user_return i] schedule_pstate [OF inv k1(3), of K_user_return c]
      sw t(2,3) k1(5) assms(5,6) by (auto simp: runnable_def)
  have "\<forall>buf len. conts k2 i \<noteq> K_sys_read buf len" using assms(5,7) t(4) k1(6) by (simp add: readers_def)
  then obtain out where res: "resume t k2 = Some out"
    using resume_returns [OF t(1)] st(1) assms(4) by blast
  obtain k' where "out = To_user k'" using resume_kinv [OF t(1) res] by (cases out) auto
  moreover from this have "pstate k' c = TASK_DEAD \<and> current k' \<noteq> Some c"
    using resume_dead [OF t(1) res, of c] st(2) by simp
  moreover have "sched_tail k1 = Some out" using sw t(2) res by (simp add: sched_tail_def cur_def)
  ultimately show ?thesis using k1(1) by auto
qed

text \<open>C39: When no other process can run, \<open>sys_exit\<close> does return to its caller: the process is
  marked DEAD and goes on executing in user mode.\<close>

theorem last_exit_returns:
  assumes "kinv pl k" "current k = Some c" "e_r ctx ! 7 = 3"
    "\<forall>i < 3. i \<noteq> c \<longrightarrow> \<not> runnable (pstate k i)"
  shows "\<exists>k'. kernel_entry (Svc ctx) k = Some (To_user k') \<and> current k' = Some c \<and> pstate k' c = TASK_DEAD"
proof -
  obtain k1 where k1: "kernel_entry (Svc ctx) k = sched_tail k1" "kinv pl k1" "current k1 = Some c"
    "need_reschedule k1" "\<And>i. pstate k1 i = (if i = c then TASK_DEAD else pstate k i)" "conts k1 = conts k"
    using exit_entry [OF assms(1-3)] by blast
  have "schedule K_user_return k1 = (k1\<lparr>need_reschedule := False, wake_hint := None\<rparr>, False)"
    by (rule schedule_no_other [OF kinvD(1) [OF k1(2)] k1(3,4)]) (use assms(4) k1(5) in simp)
  then show ?thesis using k1 by (simp add: sched_tail_def pstate_def)
qed

theorem last_exit_returns_witness:
  "\<exists>k'. kernel_entry (Svc (user_ctx 3)) (set_state 1 TASK_DEAD (set_state 2 TASK_DEAD demo_kernel)) =
      Some (To_user k') \<and> current k' = Some 0 \<and> pstate k' 0 = TASK_DEAD"
proof -
  let ?k = "set_state 1 TASK_DEAD (set_state 2 TASK_DEAD demo_kernel)"
  have "kinv Qemu (set_state 2 TASK_DEAD demo_kernel)" by (rule kinv_set_state [OF demo_kinv]) simp_all
  then have inv: "kinv Qemu ?k" by (rule kinv_set_state) simp_all
  show ?thesis
    by (rule last_exit_returns [OF inv]) (simp_all add: all_less_3 runnable_def user_ctx_def)
qed

section \<open>Boot\<close>

lemma load_image_other:
  assumes "link_ok pl lm" "i < 3" "j < 3" "i \<noteq> j" "in_user_window va"
  shows "load_image lm pl j m (upa pl i va) = m (upa pl i va)"
proof -
  have lim: "length (lm_images lm ! j) \<le> 1048576" using assms(1,3) by (simp add: link_ok_def)
  have "upa pl i va \<noteq> user_slot pl j + of_nat n" if "n < 1048576" for n
  proof -
    have n: "unat (of_nat n :: u32) = n" using that by (simp add: unat_of_nat)
    have "in_user_window (USER_VIRT_BASE + of_nat n)"
      using that n by (simp add: in_user_window_def kconst word_le_nat_alt word_less_nat_alt unat_word_ariths)
    then have "upa pl i va \<noteq> upa pl j (USER_VIRT_BASE + of_nat n)"
      using upa_disjoint [OF assms(2,3,5)] assms(4) by blast
    then show ?thesis by (simp add: upa_def)
  qed
  note far = this
  have "store_bytes (user_slot pl j) bs m' (upa pl i va) = m' (upa pl i va)"
    if "length bs \<le> 1048576" for bs m'
    by (rule store_bytes_other) (use far that in \<open>meson order_less_le_trans\<close>)
  then show ?thesis using lim by (simp add: load_image_def)
qed

lemma load_image_own:
  assumes "link_ok pl lm" "i < 3" "in_user_window va"
  defines "off \<equiv> unat va - 0x40000000"
  shows "load_image lm pl i m (upa pl i va) =
    (if off < length (lm_images lm ! i) then lm_images lm ! i ! off else 0)"
proof -
  have lim: "length (lm_images lm ! i) \<le> 1048576" using assms(1,2) by (simp add: link_ok_def)
  have w: "0x40000000 \<le> unat va" "unat va < 0x40100000"
    using assms(3) by (simp_all add: in_user_window_def kconst word_le_nat_alt word_less_nat_alt)
  have u: "unat (va - USER_VIRT_BASE) = off" unfolding off_def
    using w by (simp add: unat_sub word_le_nat_alt USER_VIRT_BASE_def)
  have a: "upa pl i va = user_slot pl i + of_nat off" unfolding u [symmetric] by (simp add: upa_def)
  have off: "off < 1048576" using w by (simp add: off_def)
  have neq: "user_slot pl i + of_nat off \<noteq> user_slot pl i + of_nat n" if "n < 1048576" "n \<noteq> off" for n
  proof -
    have "unat (of_nat n :: u32) = n" "unat (of_nat off :: u32) = off" using that off by (simp_all add: unat_of_nat)
    then show ?thesis using that(2) by (metis add_left_cancel)
  qed
  show ?thesis
  proof (cases "off < length (lm_images lm ! i)")
    case True
    then show ?thesis unfolding a load_image_def using lim by (simp add: store_bytes_nth)
  next
    case False
    have "store_bytes (user_slot pl i) (lm_images lm ! i) m' (user_slot pl i + of_nat off) = m' (user_slot pl i + of_nat off)" for m'
      by (rule store_bytes_other, rule neq) (use lim False in auto)
    then show ?thesis unfolding a load_image_def using False off
      by (simp add: store_bytes_nth)
  qed
qed

text \<open>After boot the user window of each process holds its image followed by zeros.\<close>

lemma booted_images:
  assumes "booted lm pl m k" "link_ok pl lm" "i < 3" "in_user_window va"
  shows "pmem k (upa pl i va) = (let img = lm_images lm ! i; off = unat va - 0x40000000 in
      if off < length img then img ! off else 0)"
proof -
  have "pmem k = load_image lm pl 2 (load_image lm pl 1 (load_image lm pl 0 m))"
    using assms(1) by (simp add: booted_def)
  then show ?thesis
    using less_3_cases [OF assms(3)] load_image_own [OF assms(2-4)] load_image_other [OF assms(2,3) _ _ assms(4)]
    by (elim disjE) (simp_all add: Let_def)
qed

text \<open>The state that boot leaves: process 0 in user mode with the invariant established, all processes READY at their entry
  point, and the timer drives the scheduler.\<close>

lemma booted_state:
  assumes "booted lm pl m k" "link_ok pl lm"
  shows "kinv pl k \<and> current k = Some 0 \<and>
    (\<forall>i < 3. pstate k i = TASK_READY \<and> p_user_entry (processes k ! i) = USER_VIRT_BASE) \<and> preemptive pl k"
proof -
  note inv = booted_kinv [OF assms]
  have p: "processes k ! i = init_pcb lm pl i" if "i < 3" for i
    using less_3_cases [OF that] assms(1) by (auto simp: booted_def)
  have "irq_table k (unat (IRQ_TIMER (board_of pl))) = Some H_timer_irq"
    using assms(1) by (cases pl) (simp_all add: booted_def board_defs)
  then have "preemptive pl k" using inv assms(1) by (simp add: preemptive_def booted_def)
  then show ?thesis using assms(1) inv p by (simp add: booted_def pstate_def init_pcb_simps)
qed

end
