(* ===== verification/Hw.thy ===== *)
theory Hw
  imports Exception
begin

text \<open>
  The boundary between the drivers and the hardware, and the contracts of the three driver
  subsystems (\<open>kernel/include/drivers/uart.h\<close>, \<open>timer.h\<close>, \<open>intc.h\<close>).

  The hardware is not part of the sources. Its state is a type \<open>'h\<close> of which nothing is known,
  and a \<open>bus\<close> gives the effect of a volatile access (\<open>REG32(a)\<close> and the byte writes of the GIC
  driver) on it. The chip theories \<open>Uart_drv\<close>, \<open>Timer_drv\<close> and \<open>Intc_drv\<close> state what the data
  sheets promise of the registers as locales over observation functions of \<open>'h\<close>.

  The contract of each subsystem is a locale too: \<open>uart_chip\<close>, \<open>timer_chip\<close> and \<open>intc_chip\<close> say
  what the kernel core relies on when it calls through an ops table. Each has an observation
  \<open>rest\<close> for the devices that the chip's registers do not touch.
\<close>

section \<open>Volatile accesses\<close>

record 'h bus =
  rd32 :: "u32 \<Rightarrow> 'h \<Rightarrow> u32 \<times> 'h"
  wr32 :: "u32 \<Rightarrow> u32 \<Rightarrow> 'h \<Rightarrow> 'h"
  wr8 :: "u32 \<Rightarrow> u8 \<Rightarrow> 'h \<Rightarrow> 'h"

text \<open>A byte survives the trip through a 32-bit register.\<close>

lemma ucast_byte_register [simp]: "(ucast (ucast c :: u32) :: u8) = c"
  by (rule bit_word_eqI) (simp add: bit_simps)

text \<open>\<open>while (busy (REG32(a))) ;\<close> has no value if the condition never clears.\<close>

partial_function (option) poll :: "'h bus \<Rightarrow> u32 \<Rightarrow> (u32 \<Rightarrow> bool) \<Rightarrow> 'h \<Rightarrow> 'h option" where
  "poll bus a busy h =
     (case rd32 bus a h of (v, h') \<Rightarrow> if busy v then poll bus a busy h' else Some h')"

text \<open>A poll ends if every busy reading brings the hardware closer to being ready.\<close>

lemma poll_returns:
  fixes m :: "'h \<Rightarrow> nat"
  assumes "P h"
    and step: "\<And>h v h'. P h \<Longrightarrow> rd32 bus a h = (v, h') \<Longrightarrow> P h' \<and> (busy v \<longrightarrow> m h' < m h) \<and> (\<not> busy v \<longrightarrow> Q h')"
  shows "\<exists>h'. poll bus a busy h = Some h' \<and> P h' \<and> Q h'"
  using assms(1)
proof (induction "m h" arbitrary: h rule: less_induct)
  case less
  obtain v h' where rd: "rd32 bus a h = (v, h')" by fastforce
  note s = step [OF less.prems rd]
  show ?case
  proof (cases "busy v")
    case True
    then have "\<exists>h''. poll bus a busy h' = Some h'' \<and> P h'' \<and> Q h''" using s less.hyps by blast
    then show ?thesis using True rd by (subst poll.simps) simp
  next
    case False
    then show ?thesis using s rd by (subst poll.simps) simp
  qed
qed

text \<open>
  \<open>while (avail (REG32(st))) { c = REG32(data) & 0xFF; uart_rx_push(c); }\<close>, the receive loop of
  both UART drivers.
\<close>

partial_function (option) rx_drain ::
  "'h bus \<Rightarrow> u32 \<Rightarrow> (u32 \<Rightarrow> bool) \<Rightarrow> u32 \<Rightarrow> 'h \<times> kernel \<Rightarrow> ('h \<times> kernel) option" where
  "rx_drain bus st avail data s =
     (case s of (h, k) \<Rightarrow>
      case rd32 bus st h of (v, h) \<Rightarrow>
        if avail v then
          (case rd32 bus data h of (d, h) \<Rightarrow>
             let c = ucast (d AND 0xFF) in
             rx_drain bus st avail data (h, k\<lparr>rx_q := uart_rx_push c (rx_q k)\<rparr>))
        else Some (h, k))"

text \<open>
  The loop ends with every delivered byte pushed, in order, if the status register tells whether
  a byte is there and the data register hands out the oldest. \<open>P q\<close> describes the hardware that
  still has \<open>q\<close> to deliver.
\<close>

lemma rx_drain_ok:
  assumes "P q h"
    and st: "\<And>q h v h'. P q h \<Longrightarrow> rd32 bus st h = (v, h') \<Longrightarrow> P q h' \<and> (avail v \<longleftrightarrow> q \<noteq> [])"
    and data: "\<And>c q h v h'. P (c # q) h \<Longrightarrow> rd32 bus data h = (v, h') \<Longrightarrow> v AND 0xFF = ucast c \<and> P q h'"
  shows "\<exists>h'. rx_drain bus st avail data (h, k) = Some (h', k\<lparr>rx_q := fold uart_rx_push q (rx_q k)\<rparr>) \<and> P [] h'"
  using assms(1)
proof (induction q arbitrary: h k)
  case Nil
  obtain v h1 where rd: "rd32 bus st h = (v, h1)" by fastforce
  then show ?case using st [OF Nil rd] by (subst rx_drain.simps) simp
next
  case (Cons c q)
  obtain v h1 where rd: "rd32 bus st h = (v, h1)" by fastforce
  note s = st [OF Cons.prems rd]
  obtain d h2 where rd2: "rd32 bus data h1 = (d, h2)" by fastforce
  note dr = data [OF s [THEN conjunct1] rd2]
  then have "ucast (d AND 0xFF) = c" by simp
  then have "rx_drain bus st avail data (h, k) = rx_drain bus st avail data (h2, k\<lparr>rx_q := uart_rx_push c (rx_q k)\<rparr>)"
    using rd rd2 s by (subst rx_drain.simps) simp
  then show ?case using Cons.IH [OF dr [THEN conjunct2], of "k\<lparr>rx_q := uart_rx_push c (rx_q k)\<rparr>"] by simp
qed

section \<open>Devices and ops tables\<close>

text \<open>
  A device of the sources is the pair of its ops table and its data. An operation that polls
  has a result of type \<open>option\<close>; \<open>rx_irq\<close> and \<open>irq\<close> also act on the kernel.
\<close>

record uart_device =
  ud_base :: u32
  ud_irq :: u32

record 'h uart_ops =
  uo_init :: "uart_device \<Rightarrow> 'h \<Rightarrow> 'h option"
  uo_putc :: "uart_device \<Rightarrow> u8 \<Rightarrow> 'h \<Rightarrow> 'h option"
  uo_rx_irq :: "uart_device \<Rightarrow> 'h \<times> kernel \<Rightarrow> ('h \<times> kernel) option"

record timer_device =
  td_base :: u32
  td_irq :: u32
  td_clk_hz :: u32

record 'h timer_ops =
  to_init :: "timer_device \<Rightarrow> u32 \<Rightarrow> 'h \<Rightarrow> 'h option"
  to_irq :: "timer_device \<Rightarrow> 'h \<times> kernel \<Rightarrow> ('h \<times> kernel) option"

record intc_device =
  id_base :: u32
  id_cpu_base :: u32
  id_dist_base :: u32

record 'h intc_ops =
  io_init :: "intc_device \<Rightarrow> 'h \<Rightarrow> 'h option"
  io_enable_line :: "intc_device \<Rightarrow> u32 \<Rightarrow> 'h \<Rightarrow> 'h"
  io_disable_line :: "intc_device \<Rightarrow> u32 \<Rightarrow> 'h \<Rightarrow> 'h"
  io_get_active :: "intc_device \<Rightarrow> 'h \<Rightarrow> u32 \<times> 'h"
  io_eoi :: "intc_device \<Rightarrow> u32 \<Rightarrow> 'h \<Rightarrow> 'h"

section \<open>The contract of a UART driver (uart.h)\<close>

text \<open>
  \<open>sent\<close> is what has gone out on the line, \<open>rxd\<close> the bytes that the chip delivers before it
  next reports an empty receiver, \<open>live\<close> that the chip is set up.
\<close>

locale uart_chip =
  fixes init :: "'h \<Rightarrow> 'h option"
    and putc :: "u8 \<Rightarrow> 'h \<Rightarrow> 'h option"
    and rx_irq :: "'h \<times> kernel \<Rightarrow> ('h \<times> kernel) option"
    and live :: "'h \<Rightarrow> bool"
    and sent :: "'h \<Rightarrow> u8 list"
    and rxd :: "'h \<Rightarrow> u8 list"
    and rest :: "'h \<Rightarrow> 'r"
  assumes init_live: "\<exists>h'. init h = Some h' \<and> live h' \<and> rest h' = rest h"
    and putc_sends: "live h \<Longrightarrow>
      \<exists>h'. putc c h = Some h' \<and> live h' \<and> sent h' = sent h @ [c] \<and> rxd h' = rxd h \<and> rest h' = rest h"
    and rx_drains: "live h \<Longrightarrow>
      \<exists>h'. rx_irq (h, k) = Some (h', uart_rx_irq (rxd h) k) \<and> live h' \<and> rxd h' = [] \<and> sent h' = sent h \<and>
        rest h' = rest h"
begin

text \<open>The bytes of a message, one \<open>putc\<close> after the other.\<close>

fun put_all :: "u8 list \<Rightarrow> 'h \<Rightarrow> 'h option" where
  "put_all [] h = Some h"
| "put_all (c # cs) h = Option.bind (putc c h) (put_all cs)"

lemma put_all_sends:
  "live h \<Longrightarrow>
   \<exists>h'. put_all cs h = Some h' \<and> live h' \<and> sent h' = sent h @ cs \<and> rxd h' = rxd h \<and> rest h' = rest h"
proof (induction cs arbitrary: h)
  case (Cons c cs)
  obtain h1 where h1: "putc c h = Some h1" "live h1" "sent h1 = sent h @ [c]" "rxd h1 = rxd h" "rest h1 = rest h"
    using putc_sends [OF Cons.prems] by blast
  then show ?case using Cons.IH [OF h1(2)] by auto
qed simp

end

section \<open>The contract of a timer driver (timer.h)\<close>

text \<open>
  \<open>raised\<close>: the timer asserts its interrupt; \<open>period\<close>: the number of input clocks between
  interrupts, if it runs.
\<close>

locale timer_chip =
  fixes init :: "u32 \<Rightarrow> 'h \<Rightarrow> 'h option"
    and irq :: "'h \<times> kernel \<Rightarrow> ('h \<times> kernel) option"
    and clk_hz :: u32
    and raised :: "'h \<Rightarrow> bool"
    and period :: "'h \<Rightarrow> nat option"
    and rest :: "'h \<Rightarrow> 'r"
  assumes init_period: "0 < us \<Longrightarrow> 1000000 \<le> unat clk_hz \<Longrightarrow> unat us * (unat clk_hz div 1000000) < 2 ^ 32 \<Longrightarrow>
      \<exists>h'. init us h = Some h' \<and> period h' = Some (unat us * (unat clk_hz div 1000000)) \<and> rest h' = rest h"
    and irq_ticks: "\<exists>h'. irq (h, k) = Some (h', timer_tick k) \<and> \<not> raised h' \<and> period h' = period h \<and>
        rest h' = rest h"

section \<open>The contract of an interrupt controller driver (intc.h)\<close>

text \<open>
  \<open>signal\<close>: the line the controller presents, none for a spurious interrupt; \<open>in_service\<close>: the
  line acknowledged and not yet ended; \<open>enabled\<close>: the lines that may interrupt; \<open>lines\<close>: those
  that \<open>init\<close> masks.
\<close>

locale intc_chip =
  fixes init :: "'h \<Rightarrow> 'h option"
    and enable_line :: "u32 \<Rightarrow> 'h \<Rightarrow> 'h"
    and disable_line :: "u32 \<Rightarrow> 'h \<Rightarrow> 'h"
    and get_active :: "'h \<Rightarrow> u32 \<times> 'h"
    and eoi :: "u32 \<Rightarrow> 'h \<Rightarrow> 'h"
    and signal :: "'h \<Rightarrow> nat option"
    and in_service :: "'h \<Rightarrow> nat option"
    and enabled :: "'h \<Rightarrow> nat \<Rightarrow> bool"
    and lines :: "nat set"
    and rest :: "'h \<Rightarrow> 'r"
  assumes init_masks: "\<exists>h'. init h = Some h' \<and> (\<forall>l \<in> lines. \<not> enabled h' l) \<and> rest h' = rest h"
    and enable: "l < 128 \<Longrightarrow> enabled (enable_line (of_nat l) h) = (enabled h)(l := True) \<and>
      rest (enable_line (of_nat l) h) = rest h"
    and disable: "l < 128 \<Longrightarrow> enabled (disable_line (of_nat l) h) = (enabled h)(l := False) \<and>
      rest (disable_line (of_nat l) h) = rest h"
    and get_active: "get_active h = (n, h') \<Longrightarrow>
      n = (case signal h of Some l \<Rightarrow> of_nat l | None \<Rightarrow> MAX_IRQS) \<and>
      (\<forall>l. signal h = Some l \<longrightarrow> l < 128 \<and> in_service h' = Some l) \<and>
      (signal h = None \<longrightarrow> in_service h' = in_service h) \<and> enabled h' = enabled h \<and> rest h' = rest h"
    and eoi: "in_service h = Some l \<Longrightarrow> l < 128 \<Longrightarrow> in_service (eoi (of_nat l) h) = None"
    and eoi_spurious: "in_service h = None \<Longrightarrow> in_service (eoi MAX_IRQS h) = None"
    and eoi_rest: "enabled (eoi n h) = enabled h \<and> rest (eoi n h) = rest h"

end
