(* ===== verification/Uart_drv.thy ===== *)
theory Uart_drv
  imports Hw
begin

text \<open>
  The two UART drivers, \<open>kernel/drivers/uart/pl011.c\<close> and \<open>ns16550.c\<close>: transmission by polling,
  reception by draining the chip into the ring from the interrupt handler.

  The locales \<open>pl011_hw\<close> and \<open>ns16550_hw\<close> state the register behaviour that the data sheets
  document; under them each driver satisfies \<open>uart_chip\<close>.
\<close>

section \<open>PL011 (pl011.c)\<close>

definition PL011_DR :: u32 where "PL011_DR = 0x000"
definition PL011_FR :: u32 where "PL011_FR = 0x018"
definition PL011_IBRD :: u32 where "PL011_IBRD = 0x024"
definition PL011_FBRD :: u32 where "PL011_FBRD = 0x028"
definition PL011_LCR_H :: u32 where "PL011_LCR_H = 0x02C"
definition PL011_CR :: u32 where "PL011_CR = 0x030"
definition PL011_IMSC :: u32 where "PL011_IMSC = 0x038"
definition PL011_ICR :: u32 where "PL011_ICR = 0x044"
definition PL011_FR_TXFF :: u32 where "PL011_FR_TXFF = push_bit 5 1"
definition PL011_FR_RXFE :: u32 where "PL011_FR_RXFE = push_bit 4 1"
definition PL011_LCR_WLEN8 :: u32 where "PL011_LCR_WLEN8 = push_bit 5 0x3"
definition PL011_LCR_FEN :: u32 where "PL011_LCR_FEN = push_bit 4 1"
definition PL011_CR_UARTEN :: u32 where "PL011_CR_UARTEN = push_bit 0 1"
definition PL011_CR_TXE :: u32 where "PL011_CR_TXE = push_bit 8 1"
definition PL011_CR_RXE :: u32 where "PL011_CR_RXE = push_bit 9 1"
definition PL011_INT_RX :: u32 where "PL011_INT_RX = push_bit 4 1"
definition PL011_INT_RT :: u32 where "PL011_INT_RT = push_bit 6 1"

lemmas pl011_regs [kconst] = PL011_DR_def PL011_FR_def PL011_IBRD_def PL011_FBRD_def PL011_LCR_H_def
  PL011_CR_def PL011_IMSC_def PL011_ICR_def PL011_FR_TXFF_def PL011_FR_RXFE_def PL011_LCR_WLEN8_def
  PL011_LCR_FEN_def PL011_CR_UARTEN_def PL011_CR_TXE_def PL011_CR_RXE_def PL011_INT_RX_def PL011_INT_RT_def

definition pl011_init :: "'h bus \<Rightarrow> uart_device \<Rightarrow> 'h \<Rightarrow> 'h option" where
  "pl011_init bus dev h =
     (let base = ud_base dev;
          h = wr32 bus (base + PL011_CR) 0 h;
          h = wr32 bus (base + PL011_IBRD) 13 h;
          h = wr32 bus (base + PL011_FBRD) 1 h;
          h = wr32 bus (base + PL011_LCR_H) (PL011_LCR_WLEN8 OR PL011_LCR_FEN) h;
          h = wr32 bus (base + PL011_IMSC) (PL011_INT_RX OR PL011_INT_RT) h;
          h = wr32 bus (base + PL011_CR) (PL011_CR_UARTEN OR PL011_CR_TXE OR PL011_CR_RXE) h
      in Some h)"

definition pl011_putc :: "'h bus \<Rightarrow> uart_device \<Rightarrow> u8 \<Rightarrow> 'h \<Rightarrow> 'h option" where
  "pl011_putc bus dev c h =
     (let base = ud_base dev in
      Option.bind (poll bus (base + PL011_FR) (\<lambda>v. v AND PL011_FR_TXFF \<noteq> 0) h) (\<lambda>h.
        Some (wr32 bus (base + PL011_DR) (ucast c) h)))"

definition pl011_rx_irq :: "'h bus \<Rightarrow> uart_device \<Rightarrow> 'h \<times> kernel \<Rightarrow> ('h \<times> kernel) option" where
  "pl011_rx_irq bus dev s =
     (let base = ud_base dev in
      Option.bind (rx_drain bus (base + PL011_FR) (\<lambda>v. v AND PL011_FR_RXFE = 0) (base + PL011_DR) s) (\<lambda>(h, k).
        Some (wr32 bus (base + PL011_ICR) (PL011_INT_RX OR PL011_INT_RT) h, scheduler_wake_reader k)))"

definition pl011_ops :: "'h bus \<Rightarrow> 'h uart_ops" where
  "pl011_ops bus = \<lparr>uo_init = pl011_init bus, uo_putc = pl011_putc bus, uo_rx_irq = pl011_rx_irq bus\<rparr>"

subsection \<open>What the chip promises\<close>

record pl011_view =
  p_sent :: "u8 list"
  p_rxd :: "u8 list"
  p_cr :: u32

definition pl011_on :: "pl011_view \<Rightarrow> bool" where
  "pl011_on v \<longleftrightarrow> p_cr v = PL011_CR_UARTEN OR PL011_CR_TXE OR PL011_CR_RXE"

text \<open>
  \<open>room\<close>: the transmit FIFO has a free slot; it stays free until the next write to \<open>DR\<close>. \<open>stall\<close>
  bounds how often a full FIFO is still seen before it drains. A read of \<open>DR\<close> may carry error
  flags above bit 7.
\<close>

locale pl011_hw =
  fixes bus :: "'h bus"
    and base :: u32
    and view :: "'h \<Rightarrow> pl011_view"
    and room :: "'h \<Rightarrow> bool"
    and stall :: "'h \<Rightarrow> nat"
    and rest :: "'h \<Rightarrow> 'r"
  assumes fr_read: "rd32 bus (base + PL011_FR) h = (v, h') \<Longrightarrow>
      view h' = view h \<and> rest h' = rest h \<and> (v AND PL011_FR_RXFE \<noteq> 0 \<longleftrightarrow> p_rxd (view h) = []) \<and>
      (if v AND PL011_FR_TXFF \<noteq> 0 then stall h' < stall h else room h')"
    and dr_write: "room h \<Longrightarrow> pl011_on (view h) \<Longrightarrow>
      view (wr32 bus (base + PL011_DR) v h) = (view h)\<lparr>p_sent := p_sent (view h) @ [ucast v]\<rparr>"
    and dr_read: "p_rxd (view h) = c # cs \<Longrightarrow> rd32 bus (base + PL011_DR) h = (v, h') \<Longrightarrow>
      v AND 0xFF = ucast c \<and> view h' = (view h)\<lparr>p_rxd := cs\<rparr> \<and> rest h' = rest h"
    and cr_write: "p_cr (view (wr32 bus (base + PL011_CR) v h)) = v"
    and icr_write: "view (wr32 bus (base + PL011_ICR) v h) = view h"
    and write_rest: "off \<in> {PL011_DR, PL011_IBRD, PL011_FBRD, PL011_LCR_H, PL011_CR, PL011_IMSC, PL011_ICR} \<Longrightarrow>
      rest (wr32 bus (base + off) v h) = rest h"
begin

lemma putc_ok:
  assumes "pl011_on (view h)"
  shows "\<exists>h'. pl011_putc bus \<lparr>ud_base = base, ud_irq = n\<rparr> c h = Some h' \<and>
    view h' = (view h)\<lparr>p_sent := p_sent (view h) @ [c]\<rparr> \<and> rest h' = rest h"
proof -
  have "\<exists>h1. poll bus (base + PL011_FR) (\<lambda>v. v AND PL011_FR_TXFF \<noteq> 0) h = Some h1 \<and>
      (view h1 = view h \<and> rest h1 = rest h) \<and> room h1"
    by (rule poll_returns [where m = stall]) (use fr_read in \<open>auto split: if_splits\<close>)
  then obtain h1 where h1: "poll bus (base + PL011_FR) (\<lambda>v. v AND PL011_FR_TXFF \<noteq> 0) h = Some h1"
    "view h1 = view h" "rest h1 = rest h" "room h1" by blast
  moreover have "view (wr32 bus (base + PL011_DR) (ucast c) h1) = (view h)\<lparr>p_sent := p_sent (view h) @ [c]\<rparr>"
    using dr_write [OF h1(4), of "ucast c"] h1(2) assms by simp
  ultimately show ?thesis using write_rest by (simp add: pl011_putc_def)
qed

lemma rx_loop_ok:
  "\<exists>h'. rx_drain bus (base + PL011_FR) (\<lambda>v. v AND PL011_FR_RXFE = 0) (base + PL011_DR) (h, k) =
      Some (h', k\<lparr>rx_q := fold uart_rx_push (p_rxd (view h)) (rx_q k)\<rparr>) \<and>
     view h' = (view h)\<lparr>p_rxd := []\<rparr> \<and> rest h' = rest h"
proof -
  let ?P = "\<lambda>q h'. view h' = (view h)\<lparr>p_rxd := q\<rparr> \<and> rest h' = rest h"
  show ?thesis
  proof (rule rx_drain_ok [where P = ?P])
    fix q h1 v h2
    assume "?P q h1" "rd32 bus (base + PL011_FR) h1 = (v, h2)"
    then show "?P q h2 \<and> (v AND PL011_FR_RXFE = 0 \<longleftrightarrow> q \<noteq> [])" using fr_read [of h1 v h2] by auto
  next
    fix c q h1 v h2
    assume "?P (c # q) h1" "rd32 bus (base + PL011_DR) h1 = (v, h2)"
    then show "v AND 0xFF = ucast c \<and> ?P q h2" using dr_read [of h1 c q v h2] by auto
  qed simp
qed

text \<open>The driver keeps the contract of a UART.\<close>

sublocale uart_chip "pl011_init bus \<lparr>ud_base = base, ud_irq = n\<rparr>" "pl011_putc bus \<lparr>ud_base = base, ud_irq = n\<rparr>"
    "pl011_rx_irq bus \<lparr>ud_base = base, ud_irq = n\<rparr>" "\<lambda>h. pl011_on (view h)" "\<lambda>h. p_sent (view h)"
    "\<lambda>h. p_rxd (view h)" rest for n
proof (unfold_locales, goal_cases)
  case (1 h)
  then show ?case using cr_write write_rest by (simp add: pl011_init_def Let_def pl011_on_def)
next
  case (2 h c)
  then show ?case using putc_ok [OF 2, of n c] by (auto simp: pl011_on_def)
next
  case (3 h k)
  then show ?case using rx_loop_ok [of h k] icr_write write_rest
    by (auto simp: pl011_rx_irq_def pl011_on_def uart_rx_irq_def)
qed

end

section \<open>NS16550 (ns16550.c)\<close>

definition NS16550_RHR :: u32 where "NS16550_RHR = 0x00"
definition NS16550_THR :: u32 where "NS16550_THR = 0x00"
definition NS16550_DLL :: u32 where "NS16550_DLL = 0x00"
definition NS16550_DLH :: u32 where "NS16550_DLH = 0x04"
definition NS16550_IER :: u32 where "NS16550_IER = 0x04"
definition NS16550_FCR :: u32 where "NS16550_FCR = 0x08"
definition NS16550_LCR :: u32 where "NS16550_LCR = 0x0C"
definition NS16550_LSR :: u32 where "NS16550_LSR = 0x14"
definition NS16550_MDR1 :: u32 where "NS16550_MDR1 = 0xA4"
definition NS16550_LSR_DR :: u32 where "NS16550_LSR_DR = push_bit 0 1"
definition NS16550_LSR_THRE :: u32 where "NS16550_LSR_THRE = push_bit 5 1"
definition NS16550_IER_RHR_IT :: u32 where "NS16550_IER_RHR_IT = push_bit 0 1"
definition NS16550_FCR_EN :: u32 where "NS16550_FCR_EN = push_bit 0 1"
definition NS16550_FCR_RXCLR :: u32 where "NS16550_FCR_RXCLR = push_bit 1 1"
definition NS16550_FCR_TXCLR :: u32 where "NS16550_FCR_TXCLR = push_bit 2 1"
definition NS16550_FCR_RXTRIG1 :: u32 where "NS16550_FCR_RXTRIG1 = push_bit 6 0"
definition NS16550_LCR_8N1 :: u32 where "NS16550_LCR_8N1 = 0x03"
definition NS16550_LCR_DLAB :: u32 where "NS16550_LCR_DLAB = push_bit 7 1"
definition NS16550_MDR1_16X :: u32 where "NS16550_MDR1_16X = 0x00"
definition NS16550_MDR1_RESET :: u32 where "NS16550_MDR1_RESET = 0x07"

lemmas ns16550_regs [kconst] = NS16550_RHR_def NS16550_THR_def NS16550_DLL_def NS16550_DLH_def NS16550_IER_def
  NS16550_FCR_def NS16550_LCR_def NS16550_LSR_def NS16550_MDR1_def NS16550_LSR_DR_def NS16550_LSR_THRE_def
  NS16550_IER_RHR_IT_def NS16550_FCR_EN_def NS16550_FCR_RXCLR_def NS16550_FCR_TXCLR_def NS16550_FCR_RXTRIG1_def
  NS16550_LCR_8N1_def NS16550_LCR_DLAB_def NS16550_MDR1_16X_def NS16550_MDR1_RESET_def

definition ns16550_init :: "'h bus \<Rightarrow> uart_device \<Rightarrow> 'h \<Rightarrow> 'h option" where
  "ns16550_init bus dev h =
     (let base = ud_base dev;
          h = wr32 bus (base + NS16550_MDR1) NS16550_MDR1_RESET h;
          h = wr32 bus (base + NS16550_IER) 0 h;
          h = wr32 bus (base + NS16550_FCR)
                (NS16550_FCR_EN OR NS16550_FCR_RXCLR OR NS16550_FCR_TXCLR OR NS16550_FCR_RXTRIG1) h;
          h = wr32 bus (base + NS16550_LCR) (NS16550_LCR_DLAB OR NS16550_LCR_8N1) h;
          h = wr32 bus (base + NS16550_DLL) (26 AND 0xFF) h;
          h = wr32 bus (base + NS16550_DLH) 0 h;
          h = wr32 bus (base + NS16550_LCR) NS16550_LCR_8N1 h;
          h = wr32 bus (base + NS16550_IER) NS16550_IER_RHR_IT h;
          h = wr32 bus (base + NS16550_MDR1) NS16550_MDR1_16X h
      in Some h)"

definition ns16550_putc :: "'h bus \<Rightarrow> uart_device \<Rightarrow> u8 \<Rightarrow> 'h \<Rightarrow> 'h option" where
  "ns16550_putc bus dev c h =
     (let base = ud_base dev in
      Option.bind (poll bus (base + NS16550_LSR) (\<lambda>v. v AND NS16550_LSR_THRE = 0) h) (\<lambda>h.
        Some (wr32 bus (base + NS16550_THR) (ucast c) h)))"

definition ns16550_rx_irq :: "'h bus \<Rightarrow> uart_device \<Rightarrow> 'h \<times> kernel \<Rightarrow> ('h \<times> kernel) option" where
  "ns16550_rx_irq bus dev s =
     (let base = ud_base dev in
      Option.bind (rx_drain bus (base + NS16550_LSR) (\<lambda>v. v AND NS16550_LSR_DR \<noteq> 0) (base + NS16550_RHR) s)
        (\<lambda>(h, k). Some (h, scheduler_wake_reader k)))"

definition ns16550_ops :: "'h bus \<Rightarrow> 'h uart_ops" where
  "ns16550_ops bus = \<lparr>uo_init = ns16550_init bus, uo_putc = ns16550_putc bus, uo_rx_irq = ns16550_rx_irq bus\<rparr>"

subsection \<open>What the chip promises\<close>

record ns16550_view =
  n_sent :: "u8 list"
  n_rxd :: "u8 list"
  n_lcr :: u32
  n_ier :: u32
  n_dll :: u32
  n_dlh :: u32
  n_mdr1 :: u32

text \<open>8N1, 16x mode, divisor 26 (115200 baud from 48 MHz), receive interrupt on.\<close>

definition ns16550_on :: "ns16550_view \<Rightarrow> bool" where
  "ns16550_on v \<longleftrightarrow> n_lcr v = NS16550_LCR_8N1 \<and> n_mdr1 v = NS16550_MDR1_16X \<and> n_ier v = NS16550_IER_RHR_IT \<and>
     n_dll v = 26 \<and> n_dlh v = 0"

text \<open>
  While \<open>DLAB\<close> is set in \<open>LCR\<close>, the registers at offsets 0 and 4 are the two halves of the baud
  divisor. Clearing the FIFOs may lose bytes that were not yet on the line.
\<close>

locale ns16550_hw =
  fixes bus :: "'h bus"
    and base :: u32
    and view :: "'h \<Rightarrow> ns16550_view"
    and room :: "'h \<Rightarrow> bool"
    and stall :: "'h \<Rightarrow> nat"
    and rest :: "'h \<Rightarrow> 'r"
  assumes lsr_read: "rd32 bus (base + NS16550_LSR) h = (v, h') \<Longrightarrow>
      view h' = view h \<and> rest h' = rest h \<and> (v AND NS16550_LSR_DR \<noteq> 0 \<longleftrightarrow> n_rxd (view h) \<noteq> []) \<and>
      (if v AND NS16550_LSR_THRE = 0 then stall h' < stall h else room h')"
    and thr_write: "n_lcr (view h) AND NS16550_LCR_DLAB = 0 \<Longrightarrow> n_mdr1 (view h) = NS16550_MDR1_16X \<Longrightarrow> room h \<Longrightarrow>
      view (wr32 bus (base + NS16550_THR) v h) = (view h)\<lparr>n_sent := n_sent (view h) @ [ucast v]\<rparr>"
    and dll_write: "n_lcr (view h) AND NS16550_LCR_DLAB \<noteq> 0 \<Longrightarrow>
      view (wr32 bus (base + NS16550_DLL) v h) = (view h)\<lparr>n_dll := v\<rparr>"
    and rhr_read: "n_lcr (view h) AND NS16550_LCR_DLAB = 0 \<Longrightarrow> n_rxd (view h) = c # cs \<Longrightarrow>
      rd32 bus (base + NS16550_RHR) h = (v, h') \<Longrightarrow>
      v AND 0xFF = ucast c \<and> view h' = (view h)\<lparr>n_rxd := cs\<rparr> \<and> rest h' = rest h"
    and ier_write: "n_lcr (view h) AND NS16550_LCR_DLAB = 0 \<Longrightarrow>
      view (wr32 bus (base + NS16550_IER) v h) = (view h)\<lparr>n_ier := v\<rparr>"
    and dlh_write: "n_lcr (view h) AND NS16550_LCR_DLAB \<noteq> 0 \<Longrightarrow>
      view (wr32 bus (base + NS16550_DLH) v h) = (view h)\<lparr>n_dlh := v\<rparr>"
    and lcr_write: "view (wr32 bus (base + NS16550_LCR) v h) = (view h)\<lparr>n_lcr := v\<rparr>"
    and mdr1_write: "view (wr32 bus (base + NS16550_MDR1) v h) = (view h)\<lparr>n_mdr1 := v\<rparr>"
    and write_rest: "off \<in> {NS16550_THR, NS16550_DLL, NS16550_DLH, NS16550_IER, NS16550_FCR, NS16550_LCR, NS16550_MDR1} \<Longrightarrow>
      rest (wr32 bus (base + off) v h) = rest h"
begin

lemma on_dlab: "ns16550_on v \<Longrightarrow> n_lcr v AND NS16550_LCR_DLAB = 0"
  by (simp add: ns16550_on_def ns16550_regs)

lemma putc_ok:
  assumes "ns16550_on (view h)"
  shows "\<exists>h'. ns16550_putc bus \<lparr>ud_base = base, ud_irq = n\<rparr> c h = Some h' \<and>
    view h' = (view h)\<lparr>n_sent := n_sent (view h) @ [c]\<rparr> \<and> rest h' = rest h"
proof -
  have "\<exists>h1. poll bus (base + NS16550_LSR) (\<lambda>v. v AND NS16550_LSR_THRE = 0) h = Some h1 \<and>
      (view h1 = view h \<and> rest h1 = rest h) \<and> room h1"
    by (rule poll_returns [where m = stall]) (use lsr_read in \<open>auto split: if_splits\<close>)
  then obtain h1 where h1: "poll bus (base + NS16550_LSR) (\<lambda>v. v AND NS16550_LSR_THRE = 0) h = Some h1"
    "view h1 = view h" "rest h1 = rest h" "room h1" by blast
  moreover have "view (wr32 bus (base + NS16550_THR) (ucast c) h1) = (view h)\<lparr>n_sent := n_sent (view h) @ [c]\<rparr>"
    using thr_write [of h1 "ucast c"] h1 on_dlab [OF assms] assms by (simp add: ns16550_on_def)
  ultimately show ?thesis using write_rest by (simp add: ns16550_putc_def)
qed

lemma rx_loop_ok:
  assumes "ns16550_on (view h)"
  shows "\<exists>h'. rx_drain bus (base + NS16550_LSR) (\<lambda>v. v AND NS16550_LSR_DR \<noteq> 0) (base + NS16550_RHR) (h, k) =
      Some (h', k\<lparr>rx_q := fold uart_rx_push (n_rxd (view h)) (rx_q k)\<rparr>) \<and>
     view h' = (view h)\<lparr>n_rxd := []\<rparr> \<and> rest h' = rest h"
proof -
  let ?P = "\<lambda>q h'. view h' = (view h)\<lparr>n_rxd := q\<rparr> \<and> rest h' = rest h"
  show ?thesis
  proof (rule rx_drain_ok [where P = ?P])
    fix q h1 v h2
    assume "?P q h1" "rd32 bus (base + NS16550_LSR) h1 = (v, h2)"
    then show "?P q h2 \<and> (v AND NS16550_LSR_DR \<noteq> 0 \<longleftrightarrow> q \<noteq> [])" using lsr_read [of h1 v h2] by auto
  next
    fix c q h1 v h2
    assume "?P (c # q) h1" "rd32 bus (base + NS16550_RHR) h1 = (v, h2)"
    then show "v AND 0xFF = ucast c \<and> ?P q h2" using rhr_read [of h1 c q v h2] on_dlab [OF assms] by auto
  qed simp
qed

lemma init_ok: "\<exists>h'. ns16550_init bus \<lparr>ud_base = base, ud_irq = n\<rparr> h = Some h' \<and> ns16550_on (view h') \<and> rest h' = rest h"
proof -
  have dlab: "NS16550_LCR_8N1 AND NS16550_LCR_DLAB = 0" "NS16550_LCR_DLAB \<noteq> 0"
    "(NS16550_LCR_DLAB OR NS16550_LCR_8N1) AND NS16550_LCR_DLAB = NS16550_LCR_DLAB"
    by (simp_all add: ns16550_regs)
  show ?thesis
    by (simp add: ns16550_init_def Let_def ns16550_on_def lcr_write mdr1_write ier_write dll_write dlh_write
        write_rest dlab)
qed

text \<open>The driver keeps the contract of a UART.\<close>

sublocale uart_chip "ns16550_init bus \<lparr>ud_base = base, ud_irq = n\<rparr>" "ns16550_putc bus \<lparr>ud_base = base, ud_irq = n\<rparr>"
    "ns16550_rx_irq bus \<lparr>ud_base = base, ud_irq = n\<rparr>" "\<lambda>h. ns16550_on (view h)" "\<lambda>h. n_sent (view h)"
    "\<lambda>h. n_rxd (view h)" rest for n
proof (unfold_locales, goal_cases)
  case (1 h)
  then show ?case by (rule init_ok)
next
  case (2 h c)
  then show ?case using putc_ok [OF 2, of n c] by (auto simp: ns16550_on_def)
next
  case (3 h k)
  then show ?case using rx_loop_ok [OF 3, of k]
    by (auto simp: ns16550_rx_irq_def ns16550_on_def uart_rx_irq_def)
qed

end

end
