(* ===== verification/Timer_drv.thy ===== *)
theory Timer_drv
  imports Hw
begin

text \<open>
  The two timer drivers, \<open>kernel/drivers/timer/sp804.c\<close> and \<open>dmtimer.c\<close>. The SP804 counts down
  from its load value, the DMTIMER counts up from its reload value to the overflow; both drivers
  are shown to give the period that the kernel asks for. \<open>sp804_hw\<close> and \<open>dmtimer_hw\<close> state the
  documented register behaviour.
\<close>

section \<open>SP804 (sp804.c)\<close>

definition SP804_LOAD :: u32 where "SP804_LOAD = 0x00"
definition SP804_CTRL :: u32 where "SP804_CTRL = 0x08"
definition SP804_INTCLR :: u32 where "SP804_INTCLR = 0x0C"
definition SP804_CTRL_INTEN :: u32 where "SP804_CTRL_INTEN = push_bit 5 1"
definition SP804_CTRL_PERIODIC :: u32 where "SP804_CTRL_PERIODIC = push_bit 6 1"
definition SP804_CTRL_ENABLE :: u32 where "SP804_CTRL_ENABLE = push_bit 7 1"
definition SP804_CTRL_32BIT :: u32 where "SP804_CTRL_32BIT = push_bit 1 1"

lemmas sp804_regs [kconst] = SP804_LOAD_def SP804_CTRL_def SP804_INTCLR_def SP804_CTRL_INTEN_def
  SP804_CTRL_PERIODIC_def SP804_CTRL_ENABLE_def SP804_CTRL_32BIT_def

definition sp804_init :: "'h bus \<Rightarrow> timer_device \<Rightarrow> u32 \<Rightarrow> 'h \<Rightarrow> 'h option" where
  "sp804_init bus dev period_us h =
     (let base = td_base dev;
          reload = period_us * (td_clk_hz dev div 1000000);
          h = wr32 bus (base + SP804_CTRL) 0 h;
          h = wr32 bus (base + SP804_LOAD) reload h;
          h = wr32 bus (base + SP804_CTRL)
                (SP804_CTRL_ENABLE OR SP804_CTRL_PERIODIC OR SP804_CTRL_INTEN OR SP804_CTRL_32BIT) h
      in Some h)"

definition sp804_irq :: "'h bus \<Rightarrow> timer_device \<Rightarrow> 'h \<times> kernel \<Rightarrow> ('h \<times> kernel) option" where
  "sp804_irq bus dev = (\<lambda>(h, k). Some (wr32 bus (td_base dev + SP804_INTCLR) 1 h, timer_tick k))"

definition sp804_ops :: "'h bus \<Rightarrow> 'h timer_ops" where
  "sp804_ops bus = \<lparr>to_init = sp804_init bus, to_irq = sp804_irq bus\<rparr>"

subsection \<open>What the chip promises\<close>

record sp804_view =
  s_load :: u32
  s_ctrl :: u32
  s_raised :: bool

text \<open>In 32-bit periodic mode the timer interrupts every \<open>LOAD\<close> clocks.\<close>

definition sp804_period :: "sp804_view \<Rightarrow> nat option" where
  "sp804_period v =
     (if s_ctrl v = SP804_CTRL_ENABLE OR SP804_CTRL_PERIODIC OR SP804_CTRL_INTEN OR SP804_CTRL_32BIT
      then Some (unat (s_load v)) else None)"

locale sp804_hw =
  fixes bus :: "'h bus"
    and base :: u32
    and view :: "'h \<Rightarrow> sp804_view"
    and rest :: "'h \<Rightarrow> 'r"
  assumes load_write: "s_load (view (wr32 bus (base + SP804_LOAD) v h)) = v"
    and ctrl_write: "view (wr32 bus (base + SP804_CTRL) v h) = (view h)\<lparr>s_ctrl := v\<rparr>"
    and intclr_write: "view (wr32 bus (base + SP804_INTCLR) v h) = (view h)\<lparr>s_raised := False\<rparr>"
    and write_rest: "off \<in> {SP804_LOAD, SP804_CTRL, SP804_INTCLR} \<Longrightarrow> rest (wr32 bus (base + off) v h) = rest h"

section \<open>DMTIMER (dmtimer.c)\<close>

definition DMT_TIOCP_CFG :: u32 where "DMT_TIOCP_CFG = 0x010"
definition DMT_IRQSTATUS :: u32 where "DMT_IRQSTATUS = 0x028"
definition DMT_IRQENABLE_SET :: u32 where "DMT_IRQENABLE_SET = 0x02C"
definition DMT_TCLR :: u32 where "DMT_TCLR = 0x038"
definition DMT_TCRR :: u32 where "DMT_TCRR = 0x03C"
definition DMT_TLDR :: u32 where "DMT_TLDR = 0x040"
definition DMT_TWPS :: u32 where "DMT_TWPS = 0x048"
definition DMT_TSICR :: u32 where "DMT_TSICR = 0x054"
definition TIOCP_SOFTRESET :: u32 where "TIOCP_SOFTRESET = push_bit 0 1"
definition TCLR_ST :: u32 where "TCLR_ST = push_bit 0 1"
definition TCLR_AR :: u32 where "TCLR_AR = push_bit 1 1"
definition TSICR_POSTED :: u32 where "TSICR_POSTED = push_bit 2 1"
definition IRQ_OVF :: u32 where "IRQ_OVF = push_bit 1 1"
definition TWPS_TCLR :: u32 where "TWPS_TCLR = push_bit 0 1"
definition TWPS_TCRR :: u32 where "TWPS_TCRR = push_bit 1 1"
definition TWPS_TLDR :: u32 where "TWPS_TLDR = push_bit 2 1"

lemmas dmtimer_regs [kconst] = DMT_TIOCP_CFG_def DMT_IRQSTATUS_def DMT_IRQENABLE_SET_def DMT_TCLR_def
  DMT_TCRR_def DMT_TLDR_def DMT_TWPS_def DMT_TSICR_def TIOCP_SOFTRESET_def TCLR_ST_def TCLR_AR_def
  TSICR_POSTED_def IRQ_OVF_def TWPS_TCLR_def TWPS_TCRR_def TWPS_TLDR_def

text \<open>\<open>while (REG32(base + DMT_TWPS) & pending) ; REG32(base + reg) = v;\<close>\<close>

definition posted_write :: "'h bus \<Rightarrow> u32 \<Rightarrow> u32 \<Rightarrow> u32 \<Rightarrow> u32 \<Rightarrow> 'h \<Rightarrow> 'h option" where
  "posted_write bus base pending reg v h =
     Option.bind (poll bus (base + DMT_TWPS) (\<lambda>t. t AND pending \<noteq> 0) h) (\<lambda>h.
       Some (wr32 bus (base + reg) v h))"

definition dmtimer_init :: "'h bus \<Rightarrow> timer_device \<Rightarrow> u32 \<Rightarrow> 'h \<Rightarrow> 'h option" where
  "dmtimer_init bus dev period_us h =
     (let base = td_base dev;
          h = wr32 bus (base + DMT_TIOCP_CFG) TIOCP_SOFTRESET h
      in Option.bind (poll bus (base + DMT_TIOCP_CFG) (\<lambda>v. v AND TIOCP_SOFTRESET \<noteq> 0) h) (\<lambda>h.
         let h = wr32 bus (base + DMT_TSICR) TSICR_POSTED h
         in Option.bind (posted_write bus base TWPS_TCLR DMT_TCLR 0 h) (\<lambda>h.
            let h = wr32 bus (base + DMT_IRQSTATUS) 0x7 h;
                count = period_us * (td_clk_hz dev div 1000000);
                reload = 0 - count
            in Option.bind (posted_write bus base TWPS_TLDR DMT_TLDR reload h) (\<lambda>h.
               Option.bind (posted_write bus base TWPS_TCRR DMT_TCRR reload h) (\<lambda>h.
               let h = wr32 bus (base + DMT_IRQENABLE_SET) IRQ_OVF h
               in posted_write bus base TWPS_TCLR DMT_TCLR (TCLR_ST OR TCLR_AR) h)))))"

definition dmtimer_irq :: "'h bus \<Rightarrow> timer_device \<Rightarrow> 'h \<times> kernel \<Rightarrow> ('h \<times> kernel) option" where
  "dmtimer_irq bus dev = (\<lambda>(h, k). Some (wr32 bus (td_base dev + DMT_IRQSTATUS) IRQ_OVF h, timer_tick k))"

definition dmtimer_ops :: "'h bus \<Rightarrow> 'h timer_ops" where
  "dmtimer_ops bus = \<lparr>to_init = dmtimer_init bus, to_irq = dmtimer_irq bus\<rparr>"

subsection \<open>What the chip promises\<close>

record dmtimer_view =
  d_tclr :: u32
  d_tldr :: u32
  d_irqen :: u32
  d_status :: u32

text \<open>Started in auto-reload mode, the counter overflows every \<open>2 ^ 32 - TLDR\<close> clocks.\<close>

definition dmtimer_period :: "dmtimer_view \<Rightarrow> nat option" where
  "dmtimer_period v =
     (if d_tclr v = TCLR_ST OR TCLR_AR \<and> d_irqen v AND IRQ_OVF \<noteq> 0
      then Some (2 ^ 32 - unat (d_tldr v)) else None)"

text \<open>
  Writes to \<open>TCLR\<close>, \<open>TLDR\<close> and \<open>TCRR\<close> are posted: they take effect if \<open>TWPS\<close> showed the register
  idle (\<open>idle\<close> of its mask), and every busy reading brings it closer (\<open>stall\<close>). A soft reset
  takes a bounded number of readings and leaves the registers as it likes.
\<close>

locale dmtimer_hw =
  fixes bus :: "'h bus"
    and base :: u32
    and view :: "'h \<Rightarrow> dmtimer_view"
    and idle :: "u32 \<Rightarrow> 'h \<Rightarrow> bool"
    and stall :: "'h \<Rightarrow> nat"
    and rest :: "'h \<Rightarrow> 'r"
  assumes cfg_read: "rd32 bus (base + DMT_TIOCP_CFG) h = (v, h') \<Longrightarrow>
      rest h' = rest h \<and> (v AND TIOCP_SOFTRESET \<noteq> 0 \<longrightarrow> stall h' < stall h)"
    and twps_read: "rd32 bus (base + DMT_TWPS) h = (v, h') \<Longrightarrow>
      view h' = view h \<and> rest h' = rest h \<and>
      (\<forall>m \<in> {TWPS_TCLR, TWPS_TCRR, TWPS_TLDR}. if v AND m \<noteq> 0 then stall h' < stall h else idle m h')"
    and tclr_write: "idle TWPS_TCLR h \<Longrightarrow> view (wr32 bus (base + DMT_TCLR) v h) = (view h)\<lparr>d_tclr := v\<rparr>"
    and tldr_write: "idle TWPS_TLDR h \<Longrightarrow> view (wr32 bus (base + DMT_TLDR) v h) = (view h)\<lparr>d_tldr := v\<rparr>"
    and tcrr_write: "idle TWPS_TCRR h \<Longrightarrow> view (wr32 bus (base + DMT_TCRR) v h) = view h"
    and irqen_write: "view (wr32 bus (base + DMT_IRQENABLE_SET) v h) = (view h)\<lparr>d_irqen := d_irqen (view h) OR v\<rparr>"
    and status_write: "view (wr32 bus (base + DMT_IRQSTATUS) v h) = (view h)\<lparr>d_status := d_status (view h) AND NOT v\<rparr>"
    and write_rest: "off \<in> {DMT_TIOCP_CFG, DMT_IRQSTATUS, DMT_IRQENABLE_SET, DMT_TCLR, DMT_TCRR, DMT_TLDR, DMT_TSICR} \<Longrightarrow>
      rest (wr32 bus (base + off) v h) = rest h"

section \<open>The contract\<close>

text \<open>The reload value in clocks, where the product fits a register.\<close>

lemma unat_reload:
  assumes "unat us * (unat hz div 1000000) < 2 ^ 32"
  shows "unat (us * (hz div 1000000) :: u32) = unat us * (unat hz div 1000000)"
proof -
  have "unat hz div 1000000 < 4294967296" using unat_u32_less [of hz] by (meson div_le_dividend le_less_trans)
  then show ?thesis using assms by (simp add: unat_word_ariths)
qed

lemma period_from_reload:
  assumes "0 < unat (c :: u32)"
  shows "2 ^ 32 - unat (0 - c) = unat c"
proof -
  have "unat (c + - c) = (unat c + unat (- c)) mod 4294967296" by (simp only: unat_word_ariths) simp
  then have "4294967296 dvd unat c + unat (- c)" by (simp add: mod_eq_0_iff_dvd)
  then obtain q where q: "unat c + unat (- c) = 4294967296 * q" by (elim dvdE)
  have "q = 1" using assms q unat_u32_less [of c] unat_u32_less [of "- c"] by (cases q rule: nat.exhaust) auto
  then show ?thesis using q by simp
qed

lemma product_pos: "0 < us \<Longrightarrow> 1000000 \<le> hz \<Longrightarrow> 0 < unat (us :: u32) * (hz div 1000000)"
  by (simp add: word_less_nat_alt div_greater_zero_iff)

context sp804_hw
begin

sublocale timer_chip "sp804_init bus \<lparr>td_base = base, td_irq = n, td_clk_hz = hz\<rparr>"
    "sp804_irq bus \<lparr>td_base = base, td_irq = n, td_clk_hz = hz\<rparr>" hz "\<lambda>h. s_raised (view h)"
    "\<lambda>h. sp804_period (view h)" rest for n hz
proof (unfold_locales, goal_cases)
  case (1 us h)
  then show ?case
    by (simp add: sp804_init_def Let_def sp804_period_def ctrl_write load_write write_rest unat_reload)
next
  case (2 h k)
  then show ?case by (simp add: sp804_irq_def intclr_write write_rest sp804_period_def)
qed

end

context dmtimer_hw
begin

lemma posted_write_ok:
  assumes "m \<in> {TWPS_TCLR, TWPS_TCRR, TWPS_TLDR}" "reg \<in> {DMT_TCLR, DMT_TCRR, DMT_TLDR}"
  shows "\<exists>h1. posted_write bus base m reg v h = Some (wr32 bus (base + reg) v h1) \<and> view h1 = view h \<and>
    rest (wr32 bus (base + reg) v h1) = rest h \<and> idle m h1"
proof -
  have "\<exists>h1. poll bus (base + DMT_TWPS) (\<lambda>t. t AND m \<noteq> 0) h = Some h1 \<and> (view h1 = view h \<and> rest h1 = rest h) \<and> idle m h1"
  proof (rule poll_returns [where m = stall])
    fix h1 t h2
    assume "view h1 = view h \<and> rest h1 = rest h" "rd32 bus (base + DMT_TWPS) h1 = (t, h2)"
    with twps_read [OF this(2)] assms(1)
    show "(view h2 = view h \<and> rest h2 = rest h) \<and> (t AND m \<noteq> 0 \<longrightarrow> stall h2 < stall h1) \<and>
        (\<not> t AND m \<noteq> 0 \<longrightarrow> idle m h2)"
      by (metis (no_types, lifting))
  qed simp
  then show ?thesis using write_rest [of reg] assms(2) by (auto simp: posted_write_def)
qed

lemma reset_ok: "\<exists>h'. poll bus (base + DMT_TIOCP_CFG) (\<lambda>v. v AND TIOCP_SOFTRESET \<noteq> 0) h = Some h' \<and> rest h' = rest h \<and> True"
  by (rule poll_returns [where m = stall]) (use cfg_read in auto)

lemma init_ok:
  assumes "0 < us" "1000000 \<le> unat hz" "unat us * (unat hz div 1000000) < 2 ^ 32"
  shows "\<exists>h'. dmtimer_init bus \<lparr>td_base = base, td_irq = n, td_clk_hz = hz\<rparr> us h = Some h' \<and>
    dmtimer_period (view h') = Some (unat us * (unat hz div 1000000)) \<and> rest h' = rest h"
proof -
  define count where "count = us * (hz div 1000000)"
  have count: "unat count = unat us * (unat hz div 1000000)" "0 < unat count"
    using unat_reload [OF assms(3)] product_pos [OF assms(1,2)] by (simp_all add: count_def)
  define w where "w = (\<lambda>off v h. wr32 bus (base + off) v h)"
  obtain h1 where h1: "poll bus (base + DMT_TIOCP_CFG) (\<lambda>v. v AND TIOCP_SOFTRESET \<noteq> 0) (w DMT_TIOCP_CFG TIOCP_SOFTRESET h) = Some h1"
    "rest h1 = rest h" using reset_ok [of "w DMT_TIOCP_CFG TIOCP_SOFTRESET h"] write_rest [of DMT_TIOCP_CFG] by (auto simp: w_def)
  obtain h2 where h2: "posted_write bus base TWPS_TCLR DMT_TCLR 0 (w DMT_TSICR TSICR_POSTED h1) = Some (w DMT_TCLR 0 h2)"
    "rest (w DMT_TCLR 0 h2) = rest h"
    using posted_write_ok [of TWPS_TCLR DMT_TCLR 0 "w DMT_TSICR TSICR_POSTED h1"] write_rest [of DMT_TSICR] h1(2)
    by (auto simp: w_def)
  obtain h3 where h3: "posted_write bus base TWPS_TLDR DMT_TLDR (0 - count) (w DMT_IRQSTATUS 7 (w DMT_TCLR 0 h2)) = Some (w DMT_TLDR (0 - count) h3)"
    "rest (w DMT_TLDR (0 - count) h3) = rest h" "idle TWPS_TLDR h3"
    using posted_write_ok [of TWPS_TLDR DMT_TLDR "0 - count" "w DMT_IRQSTATUS 7 (w DMT_TCLR 0 h2)"]
      write_rest [of DMT_IRQSTATUS] h2(2) by (auto simp: w_def)
  obtain h4 where h4: "posted_write bus base TWPS_TCRR DMT_TCRR (0 - count) (w DMT_TLDR (0 - count) h3) = Some (w DMT_TCRR (0 - count) h4)"
    "rest (w DMT_TCRR (0 - count) h4) = rest h" "idle TWPS_TCRR h4" "d_tldr (view h4) = 0 - count"
    using posted_write_ok [of TWPS_TCRR DMT_TCRR "0 - count" "w DMT_TLDR (0 - count) h3"] h3(2) tldr_write [OF h3(3)]
    by (auto simp: w_def)
  obtain h5 where h5: "posted_write bus base TWPS_TCLR DMT_TCLR (TCLR_ST OR TCLR_AR) (w DMT_IRQENABLE_SET IRQ_OVF (w DMT_TCRR (0 - count) h4)) =
      Some (w DMT_TCLR (TCLR_ST OR TCLR_AR) h5)"
    "rest (w DMT_TCLR (TCLR_ST OR TCLR_AR) h5) = rest h" "idle TWPS_TCLR h5"
    "view h5 = view (w DMT_IRQENABLE_SET IRQ_OVF (w DMT_TCRR (0 - count) h4))"
    using posted_write_ok [of TWPS_TCLR DMT_TCLR "TCLR_ST OR TCLR_AR" "w DMT_IRQENABLE_SET IRQ_OVF (w DMT_TCRR (0 - count) h4)"]
      write_rest [of DMT_IRQENABLE_SET] h4(2) by (auto simp: w_def)
  let ?h = "w DMT_TCLR (TCLR_ST OR TCLR_AR) h5"
  have "dmtimer_init bus \<lparr>td_base = base, td_irq = n, td_clk_hz = hz\<rparr> us h = Some ?h"
    using h1(1) h2(1) h3(1) h4(1) h5(1) by (simp add: dmtimer_init_def Let_def w_def count_def)
  moreover have "d_tldr (view ?h) = 0 - count" "d_tclr (view ?h) = TCLR_ST OR TCLR_AR" "d_irqen (view ?h) AND IRQ_OVF \<noteq> 0"
    using h4(4) h5(4) tclr_write [OF h5(3)] irqen_write tcrr_write [OF h4(3)]
    by (simp_all add: w_def bit.conj_disj_distrib2 IRQ_OVF_def)
  then have "dmtimer_period (view ?h) = Some (unat count)"
    using period_from_reload [OF count(2)] by (simp add: dmtimer_period_def)
  ultimately show ?thesis using h5(2) count(1) by metis
qed

sublocale timer_chip "dmtimer_init bus \<lparr>td_base = base, td_irq = n, td_clk_hz = hz\<rparr>"
    "dmtimer_irq bus \<lparr>td_base = base, td_irq = n, td_clk_hz = hz\<rparr>" hz "\<lambda>h. d_status (view h) AND IRQ_OVF \<noteq> 0"
    "\<lambda>h. dmtimer_period (view h)" rest for n hz
proof (unfold_locales, goal_cases)
  case (1 us h)
  then show ?case by (rule init_ok)
next
  case (2 h k)
  have "(d_status (view h) AND NOT IRQ_OVF) AND IRQ_OVF = 0"
    by (rule bit_eqI) (simp add: bit_simps)
  then show ?case by (simp add: dmtimer_irq_def status_write write_rest dmtimer_period_def)
qed

end

end
