(* ===== verification/Intc_drv.thy ===== *)
theory Intc_drv
  imports Hw
begin

text \<open>
  The two interrupt controller drivers, \<open>kernel/drivers/intc/gicv1.c\<close> and \<open>am335x_intc.c\<close>.
  \<open>gicv1_hw\<close> and \<open>am335x_hw\<close> state the documented register behaviour. The line that a
  controller presents (\<open>sig\<close>) may change at any time and is not part of the view of its
  registers.
\<close>

section \<open>GIC v1 (gicv1.c)\<close>

definition GICD_CTLR :: u32 where "GICD_CTLR = 0x000"
definition GICD_TYPER :: u32 where "GICD_TYPER = 0x004"
definition GICD_ISENABLER :: "u32 \<Rightarrow> u32" where "GICD_ISENABLER n = 0x100 + n * 4"
definition GICD_ICENABLER :: "u32 \<Rightarrow> u32" where "GICD_ICENABLER n = 0x180 + n * 4"
definition GICD_IPRIORITYR :: "u32 \<Rightarrow> u32" where "GICD_IPRIORITYR n = 0x400 + n"
definition GICD_ITARGETSR :: "u32 \<Rightarrow> u32" where "GICD_ITARGETSR n = 0x800 + n"
definition GICC_CTLR :: u32 where "GICC_CTLR = 0x000"
definition GICC_PMR :: u32 where "GICC_PMR = 0x004"
definition GICC_BPR :: u32 where "GICC_BPR = 0x008"
definition GICC_IAR :: u32 where "GICC_IAR = 0x00C"
definition GICC_EOIR :: u32 where "GICC_EOIR = 0x010"
definition GIC_SPURIOUS :: u32 where "GIC_SPURIOUS = 1023"

lemmas gic_regs [kconst] = GICD_CTLR_def GICD_TYPER_def GICD_ISENABLER_def GICD_ICENABLER_def
  GICD_IPRIORITYR_def GICD_ITARGETSR_def GICC_CTLR_def GICC_PMR_def GICC_BPR_def GICC_IAR_def
  GICC_EOIR_def GIC_SPURIOUS_def

text \<open>The two loops of \<open>gicv1_init\<close>: the first counts in steps of 32 and would wrap for a huge bound.\<close>

partial_function (option) gic_disable_loop :: "'h bus \<Rightarrow> u32 \<Rightarrow> u32 \<Rightarrow> u32 \<Rightarrow> 'h \<Rightarrow> 'h option" where
  "gic_disable_loop bus dist lines i h =
     (if i < lines then
        gic_disable_loop bus dist lines (i + 32) (wr32 bus (dist + GICD_ICENABLER (i div 32)) 0xFFFFFFFF h)
      else Some h)"

function gic_route_loop :: "'h bus \<Rightarrow> u32 \<Rightarrow> u32 \<Rightarrow> u32 \<Rightarrow> 'h \<Rightarrow> 'h" where
  "gic_route_loop bus dist lines i h =
     (if i < lines then
        (let h = wr8 bus (dist + GICD_IPRIORITYR i) 0xA0 h;
             h = wr8 bus (dist + GICD_ITARGETSR i) 0x01 h
         in gic_route_loop bus dist lines (i + 1) h)
      else h)"
  by pat_completeness auto
termination
  by (relation "measure (\<lambda>(bus, dist, lines, i, h). unat lines - unat i)") (simp_all add: count_up_decreases)

declare gic_route_loop.simps [simp del]

definition gicv1_init :: "'h bus \<Rightarrow> intc_device \<Rightarrow> 'h \<Rightarrow> 'h option" where
  "gicv1_init bus dev h =
     (let dist = id_dist_base dev;
          cpu = id_cpu_base dev;
          h = wr32 bus (dist + GICD_CTLR) 0 h
      in case rd32 bus (dist + GICD_TYPER) h of (typer, h) \<Rightarrow>
         (let lines = ((typer AND 0x1F) + 1) * 32;
              lines = (if lines > MAX_IRQS then MAX_IRQS else lines)
          in Option.bind (gic_disable_loop bus dist lines 32 h) (\<lambda>h.
             let h = gic_route_loop bus dist lines 32 h;
                 h = wr32 bus (dist + GICD_CTLR) 1 h;
                 h = wr32 bus (cpu + GICC_PMR) 0xF0 h;
                 h = wr32 bus (cpu + GICC_BPR) 0x00 h;
                 h = wr32 bus (cpu + GICC_CTLR) 1 h
             in Some h)))"

definition gicv1_enable_line :: "'h bus \<Rightarrow> intc_device \<Rightarrow> u32 \<Rightarrow> 'h \<Rightarrow> 'h" where
  "gicv1_enable_line bus dev irq h =
     wr32 bus (id_dist_base dev + GICD_ISENABLER (irq div 32)) (push_bit (unat (irq AND 0x1F)) 1) h"

definition gicv1_disable_line :: "'h bus \<Rightarrow> intc_device \<Rightarrow> u32 \<Rightarrow> 'h \<Rightarrow> 'h" where
  "gicv1_disable_line bus dev irq h =
     wr32 bus (id_dist_base dev + GICD_ICENABLER (irq div 32)) (push_bit (unat (irq AND 0x1F)) 1) h"

definition gicv1_get_active :: "'h bus \<Rightarrow> intc_device \<Rightarrow> 'h \<Rightarrow> u32 \<times> 'h" where
  "gicv1_get_active bus dev h =
     (case rd32 bus (id_cpu_base dev + GICC_IAR) h of (iar, h) \<Rightarrow>
        let ident = iar AND 0x3FF in
        if ident \<ge> GIC_SPURIOUS then (MAX_IRQS, h) else (ident, h))"

definition gicv1_eoi :: "'h bus \<Rightarrow> intc_device \<Rightarrow> u32 \<Rightarrow> 'h \<Rightarrow> 'h" where
  "gicv1_eoi bus dev irq h =
     (let ident = (if irq \<ge> MAX_IRQS then GIC_SPURIOUS else irq) in
      wr32 bus (id_cpu_base dev + GICC_EOIR) ident h)"

definition gicv1_ops :: "'h bus \<Rightarrow> 'h intc_ops" where
  "gicv1_ops bus = \<lparr>io_init = gicv1_init bus, io_enable_line = gicv1_enable_line bus,
     io_disable_line = gicv1_disable_line bus, io_get_active = gicv1_get_active bus, io_eoi = gicv1_eoi bus\<rparr>"

subsection \<open>What the chip promises\<close>

record gic_view =
  g_dctl :: u32
  g_cctl :: u32
  g_pmr :: u32
  g_en :: "nat \<Rightarrow> bool"
  g_prio :: "nat \<Rightarrow> u8"
  g_target :: "nat \<Rightarrow> u8"
  g_srv :: "u32 option"

text \<open>The bits of the \<open>n\<close>-th word of a register array with one bit per line.\<close>

definition word_lines :: "u32 \<Rightarrow> u32 \<Rightarrow> nat \<Rightarrow> bool" where
  "word_lines n v l \<longleftrightarrow> l div 32 = unat n \<and> bit v (l mod 32)"

text \<open>
  \<open>wired\<close>: no line from 128 to 1022 is connected (96 lines on the board, as the driver's comment
  says); \<open>sig\<close> is 1023 if there is nothing to acknowledge.
\<close>

locale gicv1_hw =
  fixes bus :: "'h bus"
    and cpu :: u32
    and dist :: u32
    and view :: "'h \<Rightarrow> gic_view"
    and sig :: "'h \<Rightarrow> u32"
    and typer :: u32
    and rest :: "'h \<Rightarrow> 'r"
  assumes wired: "sig h < 128 \<or> sig h = 1023"
    and dctl_write: "view (wr32 bus (dist + GICD_CTLR) v h) = (view h)\<lparr>g_dctl := v\<rparr>"
    and typer_read: "rd32 bus (dist + GICD_TYPER) h = (v, h') \<Longrightarrow> v = typer \<and> view h' = view h \<and> rest h' = rest h"
    and icen_write: "n < 32 \<Longrightarrow> view (wr32 bus (dist + GICD_ICENABLER n) v h) =
      (view h)\<lparr>g_en := \<lambda>l. g_en (view h) l \<and> \<not> word_lines n v l\<rparr>"
    and isen_write: "n < 32 \<Longrightarrow> view (wr32 bus (dist + GICD_ISENABLER n) v h) =
      (view h)\<lparr>g_en := \<lambda>l. g_en (view h) l \<or> word_lines n v l\<rparr>"
    and prio_write: "i < 1020 \<Longrightarrow> view (wr8 bus (dist + GICD_IPRIORITYR i) b h) =
      (view h)\<lparr>g_prio := (g_prio (view h))(unat i := b)\<rparr>"
    and target_write: "i < 1020 \<Longrightarrow> view (wr8 bus (dist + GICD_ITARGETSR i) b h) =
      (view h)\<lparr>g_target := (g_target (view h))(unat i := b)\<rparr>"
    and pmr_write: "view (wr32 bus (cpu + GICC_PMR) v h) = (view h)\<lparr>g_pmr := v\<rparr>"
    and bpr_write: "view (wr32 bus (cpu + GICC_BPR) v h) = view h"
    and cctl_write: "view (wr32 bus (cpu + GICC_CTLR) v h) = (view h)\<lparr>g_cctl := v\<rparr>"
    and iar_read: "rd32 bus (cpu + GICC_IAR) h = (v, h') \<Longrightarrow> v AND 0x3FF = sig h \<and> rest h' = rest h \<and>
      view h' = (view h)\<lparr>g_srv := if sig h = 1023 then g_srv (view h) else Some (sig h)\<rparr>"
    and eoir_write: "view (wr32 bus (cpu + GICC_EOIR) v h) =
      (view h)\<lparr>g_srv := if g_srv (view h) = Some v then None else g_srv (view h)\<rparr>"
    and dist_rest: "n < 32 \<Longrightarrow> off \<in> {GICD_CTLR, GICD_ICENABLER n, GICD_ISENABLER n} \<Longrightarrow>
      rest (wr32 bus (dist + off) v h) = rest h"
    and byte_rest: "i < 1020 \<Longrightarrow> off \<in> {GICD_IPRIORITYR i, GICD_ITARGETSR i} \<Longrightarrow> rest (wr8 bus (dist + off) b h) = rest h"
    and cpu_rest: "off \<in> {GICC_PMR, GICC_BPR, GICC_CTLR, GICC_EOIR} \<Longrightarrow> rest (wr32 bus (cpu + off) v h) = rest h"

section \<open>Selecting a line\<close>

lemma unat_line: "l \<le> 128 \<Longrightarrow> unat (of_nat l :: u32) = l"
  by (simp add: unat_of_nat)

text \<open>\<open>1U << (irq & 0x1F)\<close> in word \<open>irq / 32\<close> is exactly the bit of the line.\<close>

lemma one_line:
  assumes "l < 128"
  shows "word_lines (of_nat l div 32) (push_bit (unat ((of_nat l :: u32) AND 0x1F)) 1) l' \<longleftrightarrow> l' = l"
proof -
  have "unat (of_nat l div 32 :: u32) = l div 32" using assms by (simp add: unat_div unat_line)
  moreover have "unat ((of_nat l :: u32) AND 0x1F) = l mod 32" using assms by (simp add: unat_mask5 unat_line)
  moreover have "bit (push_bit (l mod 32) 1 :: u32) (l' mod 32) \<longleftrightarrow> l' mod 32 = l mod 32"
    by (auto simp: bit_simps)
  ultimately show ?thesis unfolding word_lines_def by (metis div_mod_decomp)
qed

lemma bank_small: "l < 128 \<Longrightarrow> (of_nat l div 32 :: u32) < 32"
  by (simp add: word_less_nat_alt unat_div unat_line)

section \<open>The GIC driver keeps the contract\<close>

text \<open>The number of lines that \<open>gicv1_init\<close> sets up for a given \<open>GICD_TYPER\<close>.\<close>

definition gic_lines :: "u32 \<Rightarrow> nat" where
  "gic_lines typer = min 128 (32 * (unat typer mod 32 + 1))"

lemma gic_lines_word:
  defines "n \<equiv> \<lambda>typer :: u32. ((typer AND 0x1F) + 1) * 32"
  shows "(if n typer > MAX_IRQS then MAX_IRQS else n typer) = of_nat (gic_lines typer)"
proof -
  have lt: "unat typer mod 32 < 32" by simp
  have n: "unat (n typer) = 32 * (unat typer mod 32 + 1)"
    unfolding n_def using lt by (simp only: unat_word_ariths unat_mask5) (simp add: unat_mask5)
  show ?thesis
  proof (cases "n typer > MAX_IRQS")
    case True
    then have "gic_lines typer = 128" using n by (simp add: gic_lines_def MAX_IRQS_def word_less_nat_alt)
    then show ?thesis using True by (simp add: MAX_IRQS_def)
  next
    case False
    then have "gic_lines typer = unat (n typer)" using n by (simp add: gic_lines_def MAX_IRQS_def word_less_nat_alt)
    then show ?thesis using False by simp
  qed
qed

lemma gic_lines_steps: "\<exists>m. gic_lines typer = 32 * m \<and> 1 \<le> m \<and> m \<le> 4"
proof -
  have "gic_lines typer = 32 * min 4 (unat typer mod 32 + 1)" by (simp add: gic_lines_def min_def)
  then show ?thesis by (intro exI [of _ "min 4 (unat typer mod 32 + 1)"]) simp
qed

lemma full_word_lines:
  assumes "j < 4"
  shows "word_lines (of_nat (32 * j) div 32) 0xFFFFFFFF l \<longleftrightarrow> 32 * j \<le> l \<and> l < 32 * Suc j"
proof -
  have "unat (of_nat (32 * j) div 32 :: u32) = j" using assms unat_line [of "32 * j"] by (simp add: unat_div)
  moreover have "(0xFFFFFFFF :: u32) = - 1" by simp
  then have "bit (0xFFFFFFFF :: u32) (l mod 32)" by (simp only: bit_minus_1_iff) simp
  moreover have "l div 32 = j \<longleftrightarrow> 32 * j \<le> l \<and> l < 32 * Suc j" by auto
  ultimately show ?thesis by (simp add: word_lines_def)
qed

context gicv1_hw
begin

lemma disable_loop_ok:
  assumes "j \<le> m" "m \<le> 4"
  shows "\<exists>h'. gic_disable_loop bus dist (of_nat (32 * m)) (of_nat (32 * j)) h = Some h' \<and> rest h' = rest h \<and>
    view h' = (view h)\<lparr>g_en := \<lambda>l. g_en (view h) l \<and> \<not> (32 * j \<le> l \<and> l < 32 * m)\<rparr>"
  using assms
proof (induction "m - j" arbitrary: j h)
  case 0
  then show ?case by (subst gic_disable_loop.simps) simp
next
  case (Suc d)
  then have lt: "j < m" "j < 4" and d: "d = m - Suc j" by simp_all
  let ?h = "wr32 bus (dist + GICD_ICENABLER (of_nat (32 * j) div 32)) 0xFFFFFFFF h"
  have bank: "(of_nat (32 * j) div 32 :: u32) < 32" using bank_small [of "32 * j"] lt by simp
  obtain h' where h': "gic_disable_loop bus dist (of_nat (32 * m)) (of_nat (32 * Suc j)) ?h = Some h'" "rest h' = rest ?h"
    "view h' = (view ?h)\<lparr>g_en := \<lambda>l. g_en (view ?h) l \<and> \<not> (32 * Suc j \<le> l \<and> l < 32 * m)\<rparr>"
    using Suc.hyps(1) [OF d Suc_leI [OF lt(1)] Suc.prems(2), of ?h] by (elim exE conjE) (rule that)
  have "(of_nat (32 * j) :: u32) < of_nat (32 * m)"
    using lt Suc.prems unat_line [of "32 * j"] unat_line [of "32 * m"] by (simp only: word_less_nat_alt)
  moreover have "(of_nat (32 * j) :: u32) + 32 = of_nat (32 * Suc j)" by simp
  ultimately have "gic_disable_loop bus dist (of_nat (32 * m)) (of_nat (32 * j)) h = Some h'"
    using h'(1) by (subst gic_disable_loop.simps) (simp only: if_True)
  moreover have "rest h' = rest h" using h'(2) dist_rest [OF bank] by simp
  moreover have "view h' = (view h)\<lparr>g_en := \<lambda>l. g_en (view h) l \<and> \<not> (32 * j \<le> l \<and> l < 32 * m)\<rparr>"
    unfolding h'(3) icen_write [OF bank] full_word_lines [OF lt(2)] using lt(1)
    by (auto intro!: arg_cong [where f = "\<lambda>e. (view h)\<lparr>g_en := e\<rparr>"])
  ultimately show ?case by blast
qed

lemma route_loop_ok:
  assumes "lines \<le> 128" "i \<le> lines"
  shows "rest (gic_route_loop bus dist lines i h) = rest h \<and> view (gic_route_loop bus dist lines i h) =
    (view h)\<lparr>g_prio := \<lambda>l. if unat i \<le> l \<and> l < unat lines then 0xA0 else g_prio (view h) l,
      g_target := \<lambda>l. if unat i \<le> l \<and> l < unat lines then 0x01 else g_target (view h) l\<rparr>"
  using assms
proof (induction "unat lines - unat i" arbitrary: i h)
  case 0
  then have "unat i = unat lines" by (simp add: word_le_nat_alt)
  then have "i = lines" by (simp only: word_unat_eq_iff)
  then show ?case by (subst (1 2) gic_route_loop.simps) (simp flip: not_le)
next
  case (Suc d)
  then have lt: "i < lines" by (simp add: word_less_nat_alt)
  have small: "i < 1020" using lt Suc.prems(1) by (simp add: word_less_nat_alt word_le_nat_alt)
  define h1 where "h1 = wr8 bus (dist + GICD_ITARGETSR i) 1 (wr8 bus (dist + GICD_IPRIORITYR i) 0xA0 h)"
  have h1: "rest h1 = rest h" "view h1 = (view h)\<lparr>g_prio := (g_prio (view h))(unat i := 0xA0),
      g_target := (g_target (view h))(unat i := 1)\<rparr>"
    by (simp_all add: h1_def byte_rest [OF small] prio_write [OF small] target_write [OF small])
  note inc = unat_inc [OF lt]
  have "d = unat lines - unat (i + 1)" using Suc.hyps(2) inc by simp
  moreover have "i + 1 \<le> lines" using lt inc by (simp add: word_less_nat_alt word_le_nat_alt)
  ultimately have ih: "rest (gic_route_loop bus dist lines (i + 1) h1) = rest h1 \<and>
      view (gic_route_loop bus dist lines (i + 1) h1) =
      (view h1)\<lparr>g_prio := \<lambda>l. if unat (i + 1) \<le> l \<and> l < unat lines then 0xA0 else g_prio (view h1) l,
        g_target := \<lambda>l. if unat (i + 1) \<le> l \<and> l < unat lines then 0x01 else g_target (view h1) l\<rparr>"
    using Suc.hyps(1) Suc.prems(1) by blast
  have step: "gic_route_loop bus dist lines i h = gic_route_loop bus dist lines (i + 1) h1"
    using lt by (subst gic_route_loop.simps) (simp add: h1_def)
  have "unat i < unat lines" using lt by (simp add: word_less_nat_alt)
  then have "(\<lambda>l. if unat (i + 1) \<le> l \<and> l < unat lines then b else (f(unat i := b)) l) =
      (\<lambda>l. if unat i \<le> l \<and> l < unat lines then b else f l)" for f :: "nat \<Rightarrow> u8" and b
    unfolding inc by (intro ext) auto
  moreover have "g_prio (view h1) = (g_prio (view h))(unat i := 0xA0)" "g_target (view h1) = (g_target (view h))(unat i := 1)"
    by (simp_all add: h1(2))
  ultimately have "view (gic_route_loop bus dist lines (i + 1) h1) = (view h1)
      \<lparr>g_prio := \<lambda>l. if unat i \<le> l \<and> l < unat lines then 0xA0 else g_prio (view h) l,
       g_target := \<lambda>l. if unat i \<le> l \<and> l < unat lines then 0x01 else g_target (view h) l\<rparr>"
    using ih by (simp only:)
  then show ?case unfolding step using ih h1(1) by (simp only:) (simp add: h1(2))
qed

text \<open>
  After \<open>gicv1_init\<close>: the shared lines that the distributor reports are disabled, have priority
  0xA0 and go to CPU 0; the priority mask 0xF0 lets that priority through; distributor and CPU
  interface are on.
\<close>

lemma init_ok:
  "\<exists>h'. gicv1_init bus \<lparr>id_base = b, id_cpu_base = cpu, id_dist_base = dist\<rparr> h = Some h' \<and> rest h' = rest h \<and>
     g_dctl (view h') = 1 \<and> g_cctl (view h') = 1 \<and> g_pmr (view h') = 0xF0 \<and>
     (\<forall>l. 32 \<le> l \<and> l < gic_lines typer \<longrightarrow>
        \<not> g_en (view h') l \<and> g_prio (view h') l = 0xA0 \<and> g_target (view h') l = 1)"
proof -
  obtain t h1 where rd: "rd32 bus (dist + GICD_TYPER) (wr32 bus (dist + GICD_CTLR) 0 h) = (t, h1)" by fastforce
  note ty = typer_read [OF rd]
  have zero: "(0 :: u32) < 32" by simp
  note dr = dist_rest [OF zero]
  have r1: "rest h1 = rest h" using ty dr by simp
  obtain m where m: "gic_lines typer = 32 * m" "1 \<le> m" "m \<le> 4" using gic_lines_steps by blast
  obtain h2 where h2: "gic_disable_loop bus dist (of_nat (gic_lines typer)) 32 h1 = Some h2" "rest h2 = rest h1"
    "view h2 = (view h1)\<lparr>g_en := \<lambda>l. g_en (view h1) l \<and> \<not> (32 \<le> l \<and> l < gic_lines typer)\<rparr>"
    using disable_loop_ok [OF m(2,3), of h1] by (auto simp: m(1))
  define h3 where "h3 = gic_route_loop bus dist (of_nat (gic_lines typer)) 32 h2"
  have un: "unat (of_nat (gic_lines typer) :: u32) = gic_lines typer" using m by (intro unat_line) simp
  then have "of_nat (gic_lines typer) \<le> (128 :: u32)" "(32 :: u32) \<le> of_nat (gic_lines typer)"
    using m by (simp_all only: word_le_nat_alt) simp_all
  from route_loop_ok [OF this, of h2] have h3: "rest h3 = rest h2"
    "view h3 = (view h2)\<lparr>g_prio := \<lambda>l. if 32 \<le> l \<and> l < gic_lines typer then 0xA0 else g_prio (view h2) l,
      g_target := \<lambda>l. if 32 \<le> l \<and> l < gic_lines typer then 0x01 else g_target (view h2) l\<rparr>"
    unfolding un by (simp_all add: h3_def)
  let ?h = "wr32 bus (cpu + GICC_CTLR) 1 (wr32 bus (cpu + GICC_BPR) 0 (wr32 bus (cpu + GICC_PMR) 0xF0
    (wr32 bus (dist + GICD_CTLR) 1 h3)))"
  have "gicv1_init bus \<lparr>id_base = b, id_cpu_base = cpu, id_dist_base = dist\<rparr> h = Some ?h"
    unfolding gicv1_init_def Let_def
    by (simp only: intc_device.select_convs rd prod.case ty gic_lines_word h2(1) bind.bind_lunit h3_def)
  moreover have "view ?h = (view h3)\<lparr>g_dctl := 1, g_pmr := 0xF0, g_cctl := 1\<rparr>"
    by (simp add: cctl_write bpr_write pmr_write dctl_write)
  moreover have "rest ?h = rest h" using h2(2) h3(1) r1 cpu_rest dr by simp
  ultimately show ?thesis using h2(3) h3(2) by auto
qed

lemma get_active_ok:
  assumes "gicv1_get_active bus \<lparr>id_base = b, id_cpu_base = cpu, id_dist_base = dist\<rparr> h = (n, h')"
  shows "n = (if sig h < 128 then sig h else MAX_IRQS) \<and> rest h' = rest h \<and>
    view h' = (view h)\<lparr>g_srv := if sig h = 1023 then g_srv (view h) else Some (sig h)\<rparr>"
proof -
  obtain v h1 where rd: "rd32 bus (cpu + GICC_IAR) h = (v, h1)" by fastforce
  note iar = iar_read [OF rd]
  show ?thesis using assms rd iar wired [of h]
    by (auto simp: gicv1_get_active_def Let_def GIC_SPURIOUS_def MAX_IRQS_def word_less_nat_alt word_le_nat_alt
        split: if_splits)
qed

sublocale intc_chip "gicv1_init bus \<lparr>id_base = b, id_cpu_base = cpu, id_dist_base = dist\<rparr>"
    "gicv1_enable_line bus \<lparr>id_base = b, id_cpu_base = cpu, id_dist_base = dist\<rparr>"
    "gicv1_disable_line bus \<lparr>id_base = b, id_cpu_base = cpu, id_dist_base = dist\<rparr>"
    "gicv1_get_active bus \<lparr>id_base = b, id_cpu_base = cpu, id_dist_base = dist\<rparr>"
    "gicv1_eoi bus \<lparr>id_base = b, id_cpu_base = cpu, id_dist_base = dist\<rparr>"
    "\<lambda>h. if sig h < 128 then Some (unat (sig h)) else None" "\<lambda>h. map_option unat (g_srv (view h))"
    "\<lambda>h. g_en (view h)" "{32..<gic_lines typer}" rest for b
proof (unfold_locales, goal_cases)
  case (1 h)
  then show ?case using init_ok [of b h] by auto
next
  case (2 l h)
  then show ?case using dist_rest [OF bank_small [OF 2]] isen_write [OF bank_small [OF 2]] one_line [OF 2]
    by (auto simp: gicv1_enable_line_def fun_eq_iff)
next
  case (3 l h)
  then show ?case using dist_rest [OF bank_small [OF 3]] icen_write [OF bank_small [OF 3]] one_line [OF 3]
    by (auto simp: gicv1_disable_line_def fun_eq_iff)
next
  case (4 h n h')
  then show ?case using get_active_ok [OF 4] wired [of h] by (auto simp: word_less_nat_alt)
next
  case (5 h l)
  then have "g_srv (view h) = Some (of_nat l)" by auto
  moreover have "\<not> MAX_IRQS \<le> of_nat l" using 5(2) unat_line [of l] by (simp add: MAX_IRQS_def word_le_nat_alt)
  ultimately show ?case by (simp add: gicv1_eoi_def eoir_write)
next
  case (6 h)
  then show ?case by (simp add: gicv1_eoi_def eoir_write)
next
  case (7 n h)
  then show ?case using cpu_rest by (simp add: gicv1_eoi_def eoir_write Let_def)
qed

end

section \<open>AM335x INTC (am335x\_intc.c)\<close>

definition INTC_SYSCONFIG :: u32 where "INTC_SYSCONFIG = 0x010"
definition INTC_SYSSTATUS :: u32 where "INTC_SYSSTATUS = 0x014"
definition INTC_SIR_IRQ :: u32 where "INTC_SIR_IRQ = 0x040"
definition INTC_CONTROL :: u32 where "INTC_CONTROL = 0x048"
definition INTC_THRESHOLD :: u32 where "INTC_THRESHOLD = 0x068"
definition INTC_MIR_CLEAR :: "u32 \<Rightarrow> u32" where "INTC_MIR_CLEAR n = 0x088 + n * 0x20"
definition INTC_MIR_SET :: "u32 \<Rightarrow> u32" where "INTC_MIR_SET n = 0x08C + n * 0x20"
definition INTC_ILR :: "u32 \<Rightarrow> u32" where "INTC_ILR m = 0x100 + m * 0x04"
definition INTC_SYSCONFIG_SOFTRESET :: u32 where "INTC_SYSCONFIG_SOFTRESET = push_bit 1 1"
definition INTC_SYSSTATUS_RESETDONE :: u32 where "INTC_SYSSTATUS_RESETDONE = push_bit 0 1"
definition INTC_CONTROL_NEWIRQAGR :: u32 where "INTC_CONTROL_NEWIRQAGR = push_bit 0 1"
definition INTC_SIR_SPURIOUS_MASK :: u32 where "INTC_SIR_SPURIOUS_MASK = 0xFFFFFF80"

lemmas am335x_regs [kconst] = INTC_SYSCONFIG_def INTC_SYSSTATUS_def INTC_SIR_IRQ_def INTC_CONTROL_def
  INTC_THRESHOLD_def INTC_MIR_CLEAR_def INTC_MIR_SET_def INTC_ILR_def INTC_SYSCONFIG_SOFTRESET_def
  INTC_SYSSTATUS_RESETDONE_def INTC_CONTROL_NEWIRQAGR_def INTC_SIR_SPURIOUS_MASK_def

function mask_loop :: "'h bus \<Rightarrow> u32 \<Rightarrow> u32 \<Rightarrow> 'h \<Rightarrow> 'h" where
  "mask_loop bus base b h =
     (if b < 4 then mask_loop bus base (b + 1) (wr32 bus (base + INTC_MIR_SET b) 0xFFFFFFFF h) else h)"
  by pat_completeness auto
termination
  by (relation "measure (\<lambda>(bus, base, b, h). unat (4 :: u32) - unat b)") (simp_all only: in_measure split_conv wf_measure count_up_decreases)

function ilr_loop :: "'h bus \<Rightarrow> u32 \<Rightarrow> u32 \<Rightarrow> 'h \<Rightarrow> 'h" where
  "ilr_loop bus base m h =
     (if m < MAX_IRQS then ilr_loop bus base (m + 1) (wr32 bus (base + INTC_ILR m) 0 h) else h)"
  by pat_completeness auto
termination
  by (relation "measure (\<lambda>(bus, base, m, h). unat MAX_IRQS - unat m)") (simp_all only: in_measure split_conv wf_measure count_up_decreases)

declare mask_loop.simps [simp del] ilr_loop.simps [simp del]

definition am335x_intc_init :: "'h bus \<Rightarrow> intc_device \<Rightarrow> 'h \<Rightarrow> 'h option" where
  "am335x_intc_init bus dev h =
     (let base = id_base dev;
          h = wr32 bus (base + INTC_SYSCONFIG) INTC_SYSCONFIG_SOFTRESET h
      in Option.bind (poll bus (base + INTC_SYSSTATUS) (\<lambda>v. v AND INTC_SYSSTATUS_RESETDONE = 0) h) (\<lambda>h.
         let h = mask_loop bus base 0 h;
             h = wr32 bus (base + INTC_THRESHOLD) 0xFF h;
             h = ilr_loop bus base 0 h;
             h = wr32 bus (base + INTC_CONTROL) INTC_CONTROL_NEWIRQAGR h
         in Some h))"

definition am335x_intc_enable_line :: "'h bus \<Rightarrow> intc_device \<Rightarrow> u32 \<Rightarrow> 'h \<Rightarrow> 'h" where
  "am335x_intc_enable_line bus dev irq h =
     (let bank = drop_bit 5 irq; b = irq AND 0x1F in
      wr32 bus (id_base dev + INTC_MIR_CLEAR bank) (push_bit (unat b) 1) h)"

definition am335x_intc_disable_line :: "'h bus \<Rightarrow> intc_device \<Rightarrow> u32 \<Rightarrow> 'h \<Rightarrow> 'h" where
  "am335x_intc_disable_line bus dev irq h =
     (let bank = drop_bit 5 irq; b = irq AND 0x1F in
      wr32 bus (id_base dev + INTC_MIR_SET bank) (push_bit (unat b) 1) h)"

definition am335x_intc_get_active :: "'h bus \<Rightarrow> intc_device \<Rightarrow> 'h \<Rightarrow> u32 \<times> 'h" where
  "am335x_intc_get_active bus dev h =
     (case rd32 bus (id_base dev + INTC_SIR_IRQ) h of (sir, h) \<Rightarrow>
        if sir AND INTC_SIR_SPURIOUS_MASK \<noteq> 0 then (MAX_IRQS, h) else (sir AND 0x7F, h))"

definition am335x_intc_eoi :: "'h bus \<Rightarrow> intc_device \<Rightarrow> u32 \<Rightarrow> 'h \<Rightarrow> 'h" where
  "am335x_intc_eoi bus dev irq h = wr32 bus (id_base dev + INTC_CONTROL) INTC_CONTROL_NEWIRQAGR h"

definition am335x_intc_ops :: "'h bus \<Rightarrow> 'h intc_ops" where
  "am335x_intc_ops bus = \<lparr>io_init = am335x_intc_init bus, io_enable_line = am335x_intc_enable_line bus,
     io_disable_line = am335x_intc_disable_line bus, io_get_active = am335x_intc_get_active bus,
     io_eoi = am335x_intc_eoi bus\<rparr>"

subsection \<open>What the chip promises\<close>

record am335x_view =
  a_masked :: "nat \<Rightarrow> bool"
  a_threshold :: u32
  a_srv :: "nat option"

text \<open>
  \<open>SIR_IRQ\<close> holds the number of the presented line, or a value with spurious bits set if there is
  none. A soft reset takes a bounded number of readings.
\<close>

locale am335x_hw =
  fixes bus :: "'h bus"
    and base :: u32
    and view :: "'h \<Rightarrow> am335x_view"
    and sig :: "'h \<Rightarrow> nat option"
    and stall :: "'h \<Rightarrow> nat"
    and rest :: "'h \<Rightarrow> 'r"
  assumes wired: "sig h = Some l \<Longrightarrow> l < 128"
    and sysstatus_read: "rd32 bus (base + INTC_SYSSTATUS) h = (v, h') \<Longrightarrow>
      rest h' = rest h \<and> (v AND INTC_SYSSTATUS_RESETDONE = 0 \<longrightarrow> stall h' < stall h)"
    and mir_set_write: "n < 4 \<Longrightarrow> view (wr32 bus (base + INTC_MIR_SET n) v h) =
      (view h)\<lparr>a_masked := \<lambda>l. a_masked (view h) l \<or> word_lines n v l\<rparr>"
    and mir_clear_write: "n < 4 \<Longrightarrow> view (wr32 bus (base + INTC_MIR_CLEAR n) v h) =
      (view h)\<lparr>a_masked := \<lambda>l. a_masked (view h) l \<and> \<not> word_lines n v l\<rparr>"
    and threshold_write: "view (wr32 bus (base + INTC_THRESHOLD) v h) = (view h)\<lparr>a_threshold := v\<rparr>"
    and ilr_write: "m < 128 \<Longrightarrow> view (wr32 bus (base + INTC_ILR m) v h) = view h"
    and control_write: "v AND INTC_CONTROL_NEWIRQAGR \<noteq> 0 \<Longrightarrow>
      view (wr32 bus (base + INTC_CONTROL) v h) = (view h)\<lparr>a_srv := None\<rparr>"
    and sir_read: "rd32 bus (base + INTC_SIR_IRQ) h = (v, h') \<Longrightarrow> rest h' = rest h \<and>
      (case sig h of Some l \<Rightarrow> v = of_nat l \<and> view h' = (view h)\<lparr>a_srv := Some l\<rparr>
       | None \<Rightarrow> v AND INTC_SIR_SPURIOUS_MASK \<noteq> 0 \<and> view h' = view h)"
    and write_rest: "n < 4 \<Longrightarrow> m < 128 \<Longrightarrow>
      off \<in> {INTC_SYSCONFIG, INTC_MIR_SET n, INTC_MIR_CLEAR n, INTC_THRESHOLD, INTC_ILR m, INTC_CONTROL} \<Longrightarrow>
      rest (wr32 bus (base + off) v h) = rest h"
begin

lemma mask_loop_ok:
  "rest (mask_loop bus base 0 h) = rest h \<and> (\<forall>l < 128. a_masked (view (mask_loop bus base 0 h)) l)"
proof -
  have loop: "mask_loop bus base 0 h = fold (\<lambda>b. wr32 bus (base + INTC_MIR_SET b) 0xFFFFFFFF) [0, 1, 2, 3] h"
    by (subst mask_loop.simps, simp)+
  have full: "word_lines b 0xFFFFFFFF l \<longleftrightarrow> l div 32 = unat b" for b l
  proof -
    have "(0xFFFFFFFF :: u32) = - 1" by simp
    then have "bit (0xFFFFFFFF :: u32) (l mod 32)" by (simp only: bit_minus_1_iff) simp
    then show ?thesis by (simp add: word_lines_def)
  qed
  have "l div 32 \<in> {0, 1, 2, 3}" if "l < 128" for l :: nat using that by auto
  moreover have "rest (wr32 bus (base + INTC_MIR_SET b) v h) = rest h" if "b < 4" for b v h
    using that by (intro write_rest [of b 0]) simp_all
  ultimately show ?thesis unfolding loop by (simp add: mir_set_write full word_less_nat_alt)
qed

lemma ilr_loop_ok: "rest (ilr_loop bus base m h) = rest h \<and> view (ilr_loop bus base m h) = view h"
proof (induction "unat MAX_IRQS - unat m" arbitrary: m h)
  case 0
  then have "\<not> m < MAX_IRQS" by (simp add: word_less_nat_alt)
  then show ?case by (subst (1 2) ilr_loop.simps) simp
next
  case (Suc d)
  then have lt: "m < MAX_IRQS" by (simp add: word_less_nat_alt)
  then have "d = unat MAX_IRQS - unat (m + 1)" using Suc.hyps(2) unat_inc [OF lt] by simp
  from Suc.hyps(1) [OF this, of "wr32 bus (base + INTC_ILR m) 0 h"]
  show ?case using lt ilr_write [of m] write_rest [of 0 m "INTC_ILR m"]
    by (subst (1 2) ilr_loop.simps) (simp add: MAX_IRQS_def)
qed

lemma init_ok:
  "\<exists>h'. am335x_intc_init bus \<lparr>id_base = base, id_cpu_base = c, id_dist_base = d\<rparr> h = Some h' \<and> rest h' = rest h \<and>
     (\<forall>l < 128. a_masked (view h') l) \<and> a_threshold (view h') = 0xFF \<and> a_srv (view h') = None"
proof -
  have small: "(0 :: u32) < 4" "(0 :: u32) < 128" by simp_all
  note wr = write_rest [OF small]
  let ?h0 = "wr32 bus (base + INTC_SYSCONFIG) INTC_SYSCONFIG_SOFTRESET h"
  have "\<exists>h1. poll bus (base + INTC_SYSSTATUS) (\<lambda>v. v AND INTC_SYSSTATUS_RESETDONE = 0) ?h0 = Some h1 \<and> rest h1 = rest h \<and> True"
    by (rule poll_returns [where m = stall]) (use sysstatus_read wr in auto)
  then obtain h1 where h1: "poll bus (base + INTC_SYSSTATUS) (\<lambda>v. v AND INTC_SYSSTATUS_RESETDONE = 0) ?h0 = Some h1"
    "rest h1 = rest h" by blast
  define h2 where "h2 = wr32 bus (base + INTC_THRESHOLD) 0xFF (mask_loop bus base 0 h1)"
  have h2: "rest h2 = rest h" "\<forall>l < 128. a_masked (view h2) l" "a_threshold (view h2) = 0xFF"
    using mask_loop_ok [of h1] h1(2) wr by (simp_all add: h2_def threshold_write)
  have agr: "INTC_CONTROL_NEWIRQAGR AND INTC_CONTROL_NEWIRQAGR \<noteq> 0" by (simp add: INTC_CONTROL_NEWIRQAGR_def)
  show ?thesis using h1(1) h2 ilr_loop_ok [of 0 h2] control_write [OF agr] wr
    by (simp add: am335x_intc_init_def Let_def h2_def)
qed

lemma get_active_ok:
  assumes "am335x_intc_get_active bus \<lparr>id_base = base, id_cpu_base = c, id_dist_base = d\<rparr> h = (n, h')"
  shows "n = (case sig h of Some l \<Rightarrow> of_nat l | None \<Rightarrow> MAX_IRQS) \<and> rest h' = rest h \<and>
    view h' = (case sig h of Some l \<Rightarrow> (view h)\<lparr>a_srv := Some l\<rparr> | None \<Rightarrow> view h)"
proof -
  obtain v h1 where rd: "rd32 bus (base + INTC_SIR_IRQ) h = (v, h1)" by fastforce
  note sir = sir_read [OF rd]
  show ?thesis
  proof (cases "sig h")
    case None
    then show ?thesis using assms rd sir by (simp add: am335x_intc_get_active_def)
  next
    case (Some l)
    have l: "l < 128" by (rule wired [OF Some])
    then have "(of_nat l :: u32) AND 0x7F = of_nat l"
      by (intro word_unat_eq_iff [THEN iffD2]) (simp add: unat_mask7 unat_line)
    moreover have "(of_nat l :: u32) AND INTC_SIR_SPURIOUS_MASK = 0"
    proof -
      have "of_nat l AND INTC_SIR_SPURIOUS_MASK = (of_nat l AND 0x7F) AND (INTC_SIR_SPURIOUS_MASK :: u32)"
        using calculation by simp
      also have "\<dots> = of_nat l AND (0x7F AND INTC_SIR_SPURIOUS_MASK)" by (simp only: and.assoc)
      also have "0x7F AND INTC_SIR_SPURIOUS_MASK = 0" by (simp add: INTC_SIR_SPURIOUS_MASK_def)
      finally show ?thesis by simp
    qed
    ultimately show ?thesis using assms rd sir Some by (simp add: am335x_intc_get_active_def)
  qed
qed

lemma bank: "l < 128 \<Longrightarrow> drop_bit 5 (of_nat l :: u32) = of_nat l div 32 \<and> drop_bit 5 (of_nat l :: u32) < 4"
  by (simp add: drop_bit_eq_div word_less_nat_alt unat_div unat_line)

sublocale intc_chip "am335x_intc_init bus \<lparr>id_base = base, id_cpu_base = c, id_dist_base = d\<rparr>"
    "am335x_intc_enable_line bus \<lparr>id_base = base, id_cpu_base = c, id_dist_base = d\<rparr>"
    "am335x_intc_disable_line bus \<lparr>id_base = base, id_cpu_base = c, id_dist_base = d\<rparr>"
    "am335x_intc_get_active bus \<lparr>id_base = base, id_cpu_base = c, id_dist_base = d\<rparr>"
    "am335x_intc_eoi bus \<lparr>id_base = base, id_cpu_base = c, id_dist_base = d\<rparr>"
    sig "\<lambda>h. a_srv (view h)" "\<lambda>h l. \<not> a_masked (view h) l" "{0..<128}" rest for c d
proof (unfold_locales, goal_cases)
  case (1 h)
  then show ?case using init_ok [of c d h] by auto
next
  case (2 l h)
  have b: "drop_bit 5 (of_nat l :: u32) < 4" using bank [OF 2] by blast
  show ?case using mir_clear_write [OF b] write_rest [OF b, of 0] one_line [OF 2] bank [OF 2]
    by (auto simp: am335x_intc_enable_line_def Let_def fun_eq_iff)
next
  case (3 l h)
  have b: "drop_bit 5 (of_nat l :: u32) < 4" using bank [OF 3] by blast
  show ?case using mir_set_write [OF b] write_rest [OF b, of 0] one_line [OF 3] bank [OF 3]
    by (auto simp: am335x_intc_disable_line_def Let_def fun_eq_iff)
next
  case (4 h n h')
  then show ?case using get_active_ok [OF 4] wired [of h] by (auto split: option.splits)
next
  case (5 h l)
  then show ?case by (simp add: am335x_intc_eoi_def control_write INTC_CONTROL_NEWIRQAGR_def)
next
  case (6 h)
  then show ?case by (simp add: am335x_intc_eoi_def control_write INTC_CONTROL_NEWIRQAGR_def)
next
  case (7 n h)
  then show ?case using write_rest [of 0 0 INTC_CONTROL]
    by (simp add: am335x_intc_eoi_def control_write INTC_CONTROL_NEWIRQAGR_def)
qed

end

end
