(* ===== verification/Devices.thy ===== *)
theory Devices
  imports Uart_drv Timer_drv Intc_drv
begin

text \<open>
  The driver subsystems as the kernel core calls them, and the wiring of the two boards:
  the hardware halves of \<open>uart_core.c\<close>, \<open>timer_core.c\<close> and \<open>intc_core.c\<close>, and \<open>platform/qemu/board.c\<close>
  and \<open>platform/bbb/board.c\<close>.

  A machine is the hardware, the kernel state of the other theories and the three active
  device pointers. The locale \<open>board_devices\<close> combines the contracts of the three drivers on one
  hardware state; in it, the interrupt path through the ops tables is shown to do to the kernel
  state exactly what \<open>Irq.irq_dispatch\<close> does. \<open>qemu_hw\<close> and \<open>bbb_hw\<close> put the chip locales of a board
  together and are instances of it.
\<close>

section \<open>Machine\<close>

record 'h devices =
  console :: "('h uart_ops \<times> uart_device) option"
  active_timer :: "('h timer_ops \<times> timer_device) option"
  active_intc :: "('h intc_ops \<times> intc_device) option"

record 'h machine =
  hw :: 'h
  kst :: kernel
  devs :: "'h devices"

text \<open>A call through a device pointer that was never set has no result.\<close>

section \<open>uart\_core.c\<close>

definition uart_set_console :: "'h uart_ops \<times> uart_device \<Rightarrow> 'h machine \<Rightarrow> 'h machine" where
  "uart_set_console dev m = m\<lparr>devs := (devs m)\<lparr>console := Some dev\<rparr>\<rparr>"

definition dev_uart_init :: "'h machine \<Rightarrow> 'h machine option" where
  "dev_uart_init m =
     Option.bind (console (devs m)) (\<lambda>(ops, dev).
     Option.bind (uo_init ops dev (hw m)) (\<lambda>h. Some (m\<lparr>hw := h\<rparr>)))"

definition dev_putc :: "u8 \<Rightarrow> 'h machine \<Rightarrow> 'h machine option" where
  "dev_putc c m =
     Option.bind (console (devs m)) (\<lambda>(ops, dev).
     Option.bind (uo_putc ops dev c (hw m)) (\<lambda>h. Some (m\<lparr>hw := h\<rparr>)))"

definition dev_uart_putc :: "u8 \<Rightarrow> 'h machine \<Rightarrow> 'h machine option" where
  "dev_uart_putc c m =
     Option.bind (if c = 10 then dev_putc 13 m else Some m) (\<lambda>m. dev_putc c m)"

fun dev_uart_puts :: "u8 list \<Rightarrow> 'h machine \<Rightarrow> 'h machine option" where
  "dev_uart_puts [] m = Some m"
| "dev_uart_puts (c # s) m = Option.bind (dev_uart_putc c m) (\<lambda>m. dev_uart_puts s m)"

definition dev_uart_rx_irq :: "'h machine \<Rightarrow> 'h machine option" where
  "dev_uart_rx_irq m =
     Option.bind (console (devs m)) (\<lambda>(ops, dev).
     Option.bind (uo_rx_irq ops dev (hw m, kst m)) (\<lambda>(h, k). Some (m\<lparr>hw := h, kst := k\<rparr>)))"

section \<open>timer\_core.c\<close>

definition timer_set_device :: "'h timer_ops \<times> timer_device \<Rightarrow> 'h machine \<Rightarrow> 'h machine" where
  "timer_set_device dev m = m\<lparr>devs := (devs m)\<lparr>active_timer := Some dev\<rparr>\<rparr>"

definition dev_timer_init :: "u32 \<Rightarrow> 'h machine \<Rightarrow> 'h machine option" where
  "dev_timer_init period_us m =
     Option.bind (active_timer (devs m)) (\<lambda>(ops, dev).
     Option.bind (to_init ops dev period_us (hw m)) (\<lambda>h. Some (m\<lparr>hw := h\<rparr>)))"

definition dev_timer_irq :: "'h machine \<Rightarrow> 'h machine option" where
  "dev_timer_irq m =
     Option.bind (active_timer (devs m)) (\<lambda>(ops, dev).
     Option.bind (to_irq ops dev (hw m, kst m)) (\<lambda>(h, k). Some (m\<lparr>hw := h, kst := k\<rparr>)))"

section \<open>intc\_core.c\<close>

definition intc_set_device :: "'h intc_ops \<times> intc_device \<Rightarrow> 'h machine \<Rightarrow> 'h machine" where
  "intc_set_device dev m = m\<lparr>devs := (devs m)\<lparr>active_intc := Some dev\<rparr>\<rparr>"

definition dev_irq_init :: "'h machine \<Rightarrow> 'h machine option" where
  "dev_irq_init m =
     (let m = m\<lparr>kst := irq_table_clear (kst m)\<rparr> in
      Option.bind (active_intc (devs m)) (\<lambda>(ops, dev).
      Option.bind (io_init ops dev (hw m)) (\<lambda>h. Some (m\<lparr>hw := h\<rparr>))))"

definition dev_irq_enable :: "u32 \<Rightarrow> 'h machine \<Rightarrow> 'h machine option" where
  "dev_irq_enable irq m =
     (if irq < MAX_IRQS then
        Option.bind (active_intc (devs m)) (\<lambda>(ops, dev). Some (m\<lparr>hw := io_enable_line ops dev irq (hw m)\<rparr>))
      else Some m)"

fun dev_run_handler :: "irq_handler \<Rightarrow> 'h machine \<Rightarrow> 'h machine option" where
  "dev_run_handler H_timer_irq m = dev_timer_irq m"
| "dev_run_handler H_uart_rx_irq m = dev_uart_rx_irq m"

definition dev_irq_dispatch :: "'h machine \<Rightarrow> 'h machine option" where
  "dev_irq_dispatch m =
     Option.bind (active_intc (devs m)) (\<lambda>(ops, dev).
     case io_get_active ops dev (hw m) of (n, h) \<Rightarrow>
       (let m = m\<lparr>hw := h\<rparr> in
        Option.bind
          (if n < MAX_IRQS then
             (case irq_table (kst m) (unat n) of
                Some fn \<Rightarrow> dev_run_handler fn m
              | None \<Rightarrow> Some m)
           else Some m)
          (\<lambda>m. Some (m\<lparr>hw := io_eoi ops dev n (hw m), kst := (kst m)\<lparr>eoi_log := eoi_log (kst m) @ [n]\<rparr>\<rparr>))))"

section \<open>Boards (board.c)\<close>

definition qemu_uart0 :: "'h bus \<Rightarrow> 'h uart_ops \<times> uart_device" where
  "qemu_uart0 bus = (pl011_ops bus, \<lparr>ud_base = UART0_BASE qemu_board, ud_irq = IRQ_UART0 qemu_board\<rparr>)"

definition qemu_timer0 :: "'h bus \<Rightarrow> 'h timer_ops \<times> timer_device" where
  "qemu_timer0 bus = (sp804_ops bus,
     \<lparr>td_base = TIMER_BASE qemu_board, td_irq = IRQ_TIMER qemu_board, td_clk_hz = TIMER_CLK_HZ qemu_board\<rparr>)"

definition qemu_gic :: "'h bus \<Rightarrow> 'h intc_ops \<times> intc_device" where
  "qemu_gic bus = (gicv1_ops bus,
     \<lparr>id_base = 0, id_cpu_base = INTC_CPU_BASE qemu_board, id_dist_base = INTC_DIST_BASE qemu_board\<rparr>)"

definition qemu_init_devices :: "'h bus \<Rightarrow> 'h machine \<Rightarrow> 'h machine option" where
  "qemu_init_devices bus m =
     (let m = uart_set_console (qemu_uart0 bus) m;
          m = timer_set_device (qemu_timer0 bus) m;
          m = intc_set_device (qemu_gic bus) m
      in Some m)"

definition bbb_uart0 :: "'h bus \<Rightarrow> 'h uart_ops \<times> uart_device" where
  "bbb_uart0 bus = (ns16550_ops bus, \<lparr>ud_base = UART0_BASE bbb_board, ud_irq = IRQ_UART0 bbb_board\<rparr>)"

definition bbb_timer2 :: "'h bus \<Rightarrow> 'h timer_ops \<times> timer_device" where
  "bbb_timer2 bus = (dmtimer_ops bus,
     \<lparr>td_base = TIMER_BASE bbb_board, td_irq = IRQ_TIMER bbb_board, td_clk_hz = TIMER_CLK_HZ bbb_board\<rparr>)"

text \<open>The fields that the initialiser of \<open>bbb_intc\<close> leaves out are zero.\<close>

definition bbb_intc :: "'h bus \<Rightarrow> 'h intc_ops \<times> intc_device" where
  "bbb_intc bus = (am335x_intc_ops bus, \<lparr>id_base = INTC_CPU_BASE bbb_board, id_cpu_base = 0, id_dist_base = 0\<rparr>)"

definition CM_PER_BASE :: u32 where "CM_PER_BASE = 0x44E00000"
definition CM_PER_L4LS_CLKSTCTRL :: u32 where "CM_PER_L4LS_CLKSTCTRL = 0x000"
definition CM_PER_TIMER2_CLKCTRL :: u32 where "CM_PER_TIMER2_CLKCTRL = 0x080"
definition CLKSTCTRL_SW_WKUP :: u32 where "CLKSTCTRL_SW_WKUP = 0x2"
definition MODULEMODE_DISABLE :: u32 where "MODULEMODE_DISABLE = 0x0"
definition MODULEMODE_ENABLE :: u32 where "MODULEMODE_ENABLE = 0x2"
definition IDLEST_SHIFT :: nat where "IDLEST_SHIFT = 16"
definition IDLEST_MASK :: u32 where "IDLEST_MASK = push_bit IDLEST_SHIFT 0x3"
definition IDLEST_FUNC :: u32 where "IDLEST_FUNC = 0x0"
definition IDLEST_DISABLED :: u32 where "IDLEST_DISABLED = 0x3"
definition CM_DPLL_BASE :: u32 where "CM_DPLL_BASE = 0x44E00500"
definition CM_CLKSEL_TIMER2_CLK :: u32 where "CM_CLKSEL_TIMER2_CLK = 0x08"
definition TIMER2_CLKSEL_M_OSC :: u32 where "TIMER2_CLKSEL_M_OSC = 0x1"

lemmas cm_regs [kconst] = CM_PER_BASE_def CM_PER_L4LS_CLKSTCTRL_def CM_PER_TIMER2_CLKCTRL_def
  CLKSTCTRL_SW_WKUP_def MODULEMODE_DISABLE_def MODULEMODE_ENABLE_def IDLEST_SHIFT_def IDLEST_MASK_def
  IDLEST_FUNC_def IDLEST_DISABLED_def CM_DPLL_BASE_def CM_CLKSEL_TIMER2_CLK_def TIMER2_CLKSEL_M_OSC_def

definition clock_enable_timer2 :: "'h bus \<Rightarrow> 'h \<Rightarrow> 'h option" where
  "clock_enable_timer2 bus h =
     (let h = wr32 bus (CM_PER_BASE + CM_PER_TIMER2_CLKCTRL) MODULEMODE_DISABLE h
      in Option.bind (poll bus (CM_PER_BASE + CM_PER_TIMER2_CLKCTRL)
           (\<lambda>v. drop_bit IDLEST_SHIFT (v AND IDLEST_MASK) \<noteq> IDLEST_DISABLED) h) (\<lambda>h.
         let h = wr32 bus (CM_DPLL_BASE + CM_CLKSEL_TIMER2_CLK) TIMER2_CLKSEL_M_OSC h;
             h = wr32 bus (CM_PER_BASE + CM_PER_L4LS_CLKSTCTRL) CLKSTCTRL_SW_WKUP h;
             h = wr32 bus (CM_PER_BASE + CM_PER_TIMER2_CLKCTRL) MODULEMODE_ENABLE h
         in poll bus (CM_PER_BASE + CM_PER_TIMER2_CLKCTRL)
              (\<lambda>v. drop_bit IDLEST_SHIFT (v AND IDLEST_MASK) \<noteq> IDLEST_FUNC) h))"

definition bbb_init_devices :: "'h bus \<Rightarrow> 'h machine \<Rightarrow> 'h machine option" where
  "bbb_init_devices bus m =
     Option.bind (clock_enable_timer2 bus (hw m)) (\<lambda>h.
       let m = m\<lparr>hw := h\<rparr>;
           m = uart_set_console (bbb_uart0 bus) m;
           m = timer_set_device (bbb_timer2 bus) m;
           m = intc_set_device (bbb_intc bus) m
       in Some m)"

fun platform_init_devices :: "platform \<Rightarrow> 'h bus \<Rightarrow> 'h machine \<Rightarrow> 'h machine option" where
  "platform_init_devices Qemu bus m = qemu_init_devices bus m"
| "platform_init_devices Bbb bus m = bbb_init_devices bus m"

text \<open>The device calls of \<open>kmain\<close>, in order, without the messages in between.\<close>

definition device_bringup :: "platform \<Rightarrow> 'h bus \<Rightarrow> 'h machine \<Rightarrow> 'h machine option" where
  "device_bringup pl bus m =
     Option.bind (platform_init_devices pl bus m) (\<lambda>m.
     Option.bind (dev_uart_init m) (\<lambda>m.
     Option.bind (dev_irq_init m) (\<lambda>m.
     Option.bind (dev_timer_init 10000 m) (\<lambda>m.
     let m = m\<lparr>kst := irq_register (IRQ_TIMER (board_of pl)) H_timer_irq (kst m)\<rparr> in
     Option.bind (dev_irq_enable (IRQ_TIMER (board_of pl)) m) (\<lambda>m.
     let m = m\<lparr>kst := irq_register (IRQ_UART0 (board_of pl)) H_uart_rx_irq (kst m)\<rparr> in
     dev_irq_enable (IRQ_UART0 (board_of pl)) m)))))"

text \<open>The device pointers after \<open>platform_init_devices\<close>.\<close>

fun board_devs :: "platform \<Rightarrow> 'h bus \<Rightarrow> 'h devices" where
  "board_devs Qemu bus = \<lparr>console = Some (qemu_uart0 bus), active_timer = Some (qemu_timer0 bus),
     active_intc = Some (qemu_gic bus)\<rparr>"
| "board_devs Bbb bus = \<lparr>console = Some (bbb_uart0 bus), active_timer = Some (bbb_timer2 bus),
     active_intc = Some (bbb_intc bus)\<rparr>"

section \<open>Three contracts on one machine\<close>

locale board_devices =
  uart: uart_chip "uo_init uops udev" "uo_putc uops udev" "uo_rx_irq uops udev" live sent rxd
    "\<lambda>h. (period h, in_service h, enabled h)" +
  timer: timer_chip "to_init tops tdev" "to_irq tops tdev" "td_clk_hz tdev" raised period
    "\<lambda>h. ((live h, sent h, rxd h), in_service h, enabled h)" +
  intc: intc_chip "io_init iops idev" "io_enable_line iops idev" "io_disable_line iops idev"
    "io_get_active iops idev" "io_eoi iops idev" signal in_service enabled lines
    "\<lambda>h. ((live h, sent h, rxd h), period h)"
  for uops :: "'h uart_ops" and udev and tops :: "'h timer_ops" and tdev and iops :: "'h intc_ops" and idev
    and live sent rxd raised period signal in_service enabled lines
begin

lemma dev_putc_sends:
  assumes "console (devs m) = Some (uops, udev)" "live (hw m)"
  shows "\<exists>h. dev_putc c m = Some (m\<lparr>hw := h\<rparr>) \<and> live h \<and> sent h = sent (hw m) @ [c] \<and> rxd h = rxd (hw m)"
  using uart.putc_sends [OF assms(2), of c] assms(1) by (auto simp: dev_putc_def)

lemma dev_uart_putc_sends:
  assumes "console (devs m) = Some (uops, udev)" "live (hw m)"
  shows "\<exists>h. dev_uart_putc c m = Some (m\<lparr>hw := h\<rparr>) \<and> live h \<and> sent h = sent (hw m) @ uart_putc c \<and> rxd h = rxd (hw m)"
proof (cases "c = 10")
  case True
  obtain h where h: "dev_putc 13 m = Some (m\<lparr>hw := h\<rparr>)" "live h" "sent h = sent (hw m) @ [13]" "rxd h = rxd (hw m)"
    using dev_putc_sends [OF assms] by blast
  then show ?thesis using dev_putc_sends [of "m\<lparr>hw := h\<rparr>" 10] assms True
    by (auto simp: dev_uart_putc_def uart_putc_def)
next
  case False
  then show ?thesis using dev_putc_sends [OF assms, of c] by (auto simp: dev_uart_putc_def uart_putc_def)
qed

lemma dev_uart_puts_sends:
  assumes "console (devs m) = Some (uops, udev)" "live (hw m)"
  shows "\<exists>h. dev_uart_puts s m = Some (m\<lparr>hw := h\<rparr>) \<and> live h \<and> sent h = sent (hw m) @ concat (map uart_putc s) \<and>
    rxd h = rxd (hw m)"
  using assms
proof (induction s arbitrary: m)
  case Nil
  then show ?case by (intro exI [of _ "hw m"]) simp
next
  case (Cons c s)
  obtain h where h: "dev_uart_putc c m = Some (m\<lparr>hw := h\<rparr>)" "live h" "sent h = sent (hw m) @ uart_putc c" "rxd h = rxd (hw m)"
    using dev_uart_putc_sends [OF Cons.prems] by blast
  then show ?case using Cons.IH [of "m\<lparr>hw := h\<rparr>"] Cons.prems by auto
qed

lemma run_handler_refines:
  assumes "devs m = \<lparr>console = Some (uops, udev), active_timer = Some (tops, tdev), active_intc = Some (iops, idev)\<rparr>"
    "live (hw m)"
  shows "\<exists>h. dev_run_handler fn m = Some (m\<lparr>hw := h, kst := run_irq_handler (rxd (hw m)) fn (kst m)\<rparr>) \<and>
    live h \<and> sent h = sent (hw m) \<and> in_service h = in_service (hw m) \<and> enabled h = enabled (hw m) \<and> period h = period (hw m)"
proof (cases fn)
  case H_timer_irq
  then show ?thesis using timer.irq_ticks [of "hw m" "kst m"] assms by (auto simp: dev_timer_irq_def)
next
  case H_uart_rx_irq
  then show ?thesis using uart.rx_drains [OF assms(2), of "kst m"] assms by (auto simp: dev_uart_rx_irq_def)
qed

text \<open>The interrupt path through the ops tables implements \<open>irq_dispatch\<close>.\<close>

lemma dispatch_refines:
  assumes "devs m = \<lparr>console = Some (uops, udev), active_timer = Some (tops, tdev), active_intc = Some (iops, idev)\<rparr>"
    "live (hw m)" "in_service (hw m) = None"
  defines "n \<equiv> (case signal (hw m) of Some l \<Rightarrow> of_nat l | None \<Rightarrow> MAX_IRQS)"
  shows "\<exists>h. dev_irq_dispatch m = Some (m\<lparr>hw := h, kst := irq_dispatch n (rxd (hw m)) (kst m)\<rparr>) \<and>
    live h \<and> sent h = sent (hw m) \<and> in_service h = None \<and> enabled h = enabled (hw m) \<and> period h = period (hw m)"
proof -
  obtain n' h1 where ga: "io_get_active iops idev (hw m) = (n', h1)" by fastforce
  note g = intc.get_active [OF ga]
  then have n: "n' = n" by (simp add: n_def)
  have h1: "live h1" "sent h1 = sent (hw m)" "rxd h1 = rxd (hw m)" "period h1 = period (hw m)" "enabled h1 = enabled (hw m)"
    using g assms(2) by auto
  have srv: "in_service h1 = signal (hw m)" using g assms(3) by (cases "signal (hw m)") auto
  define step where "step = (if n < MAX_IRQS then (case irq_table (kst (m\<lparr>hw := h1\<rparr>)) (unat n) of
      Some fn \<Rightarrow> dev_run_handler fn (m\<lparr>hw := h1\<rparr>) | None \<Rightarrow> Some (m\<lparr>hw := h1\<rparr>)) else Some (m\<lparr>hw := h1\<rparr>))"
  define k1 where "k1 = (if n < MAX_IRQS then (case irq_table (kst m) (unat n) of
      Some fn \<Rightarrow> run_irq_handler (rxd (hw m)) fn (kst m) | None \<Rightarrow> kst m) else kst m)"
  have "\<exists>h2. step = Some (m\<lparr>hw := h2, kst := k1\<rparr>) \<and> live h2 \<and> sent h2 = sent (hw m) \<and> in_service h2 = signal (hw m) \<and>
      enabled h2 = enabled (hw m) \<and> period h2 = period (hw m)"
    using run_handler_refines [of "m\<lparr>hw := h1\<rparr>"] assms(1) h1 srv
    by (auto simp: step_def k1_def split: option.splits)
  then obtain h2 where h2: "step = Some (m\<lparr>hw := h2, kst := k1\<rparr>)" "live h2" "sent h2 = sent (hw m)"
    "in_service h2 = signal (hw m)" "enabled h2 = enabled (hw m)" "period h2 = period (hw m)" by blast
  have "dev_irq_dispatch m = Some (m\<lparr>hw := io_eoi iops idev n h2, kst := k1\<lparr>eoi_log := eoi_log k1 @ [n]\<rparr>\<rparr>)"
  proof -
    have "dev_irq_dispatch m = Option.bind step
        (\<lambda>m. Some (m\<lparr>hw := io_eoi iops idev n (hw m), kst := (kst m)\<lparr>eoi_log := eoi_log (kst m) @ [n]\<rparr>\<rparr>))"
      using assms(1) ga n by (simp add: dev_irq_dispatch_def step_def Let_def split del: if_split)
    then show ?thesis by (simp add: h2(1))
  qed
  moreover have "k1\<lparr>eoi_log := eoi_log k1 @ [n]\<rparr> = irq_dispatch n (rxd (hw m)) (kst m)"
    by (simp add: k1_def irq_dispatch_def Let_def)
  moreover have "in_service (io_eoi iops idev n h2) = None"
    using g h2(4) intc.eoi [of h2] intc.eoi_spurious [of h2] by (cases "signal (hw m)") (auto simp: n_def)
  ultimately show ?thesis using h2 intc.eoi_rest [of n h2] by auto
qed

lemma bringup_ok:
  assumes "devs m = \<lparr>console = Some (uops, udev), active_timer = Some (tops, tdev), active_intc = Some (iops, idev)\<rparr>"
    "1000000 \<le> unat (td_clk_hz tdev)" "10000 * (unat (td_clk_hz tdev) div 1000000) < 2 ^ 32"
    "t < 128" "u < 128"
  shows "\<exists>h. Option.bind (dev_uart_init m) (\<lambda>m. Option.bind (dev_irq_init m) (\<lambda>m. Option.bind (dev_timer_init 10000 m) (\<lambda>m.
      let m = m\<lparr>kst := irq_register (of_nat t) H_timer_irq (kst m)\<rparr> in
      Option.bind (dev_irq_enable (of_nat t) m) (\<lambda>m.
      let m = m\<lparr>kst := irq_register (of_nat u) H_uart_rx_irq (kst m)\<rparr> in dev_irq_enable (of_nat u) m)))) =
    Some (m\<lparr>hw := h, kst := irq_register (of_nat u) H_uart_rx_irq (irq_register (of_nat t) H_timer_irq (irq_table_clear (kst m)))\<rparr>) \<and>
    live h \<and> period h = Some (10000 * (unat (td_clk_hz tdev) div 1000000)) \<and>
    enabled h t \<and> enabled h u \<and> (\<forall>l \<in> lines - {t, u}. \<not> enabled h l)"
proof -
  obtain h1 where h1: "uo_init uops udev (hw m) = Some h1" "live h1" using uart.init_live by blast
  obtain h2 where h2: "io_init iops idev h1 = Some h2" "live h2" "\<forall>l \<in> lines. \<not> enabled h2 l"
    using intc.init_masks [of h1] h1(2) by auto
  have us: "(0 :: u32) < 10000" "unat (10000 :: u32) = 10000" by simp_all
  obtain h3 where h3: "to_init tops tdev 10000 h2 = Some h3" "live h3" "enabled h3 = enabled h2"
    "period h3 = Some (10000 * (unat (td_clk_hz tdev) div 1000000))"
    using timer.init_period [OF us(1) assms(2), of h2] assms(3) h2(2) by (auto simp: us(2))
  let ?h4 = "io_enable_line iops idev (of_nat t) h3"
  let ?h5 = "io_enable_line iops idev (of_nat u) ?h4"
  have lt: "(of_nat t :: u32) < MAX_IRQS" "(of_nat u :: u32) < MAX_IRQS"
    using unat_line [of t] unat_line [of u] assms(4,5) by (simp_all add: MAX_IRQS_def word_less_nat_alt)
  have "enabled ?h5 = (enabled h2)(t := True, u := True)" "live ?h5" "period ?h5 = period h3"
    using intc.enable [OF assms(4), of h3] intc.enable [OF assms(5), of ?h4] h3 by auto
  then show ?thesis using assms(1) h1(1) h2(1,3) h3(1,4) lt
    by (intro exI [of _ ?h5]) (simp add: dev_uart_init_def dev_irq_init_def dev_timer_init_def dev_irq_enable_def Let_def)
qed

end

end
