(* ===== verification/Board_hw.thy ===== *)
theory Board_hw
  imports Devices
begin

text \<open>
  The hardware of the two boards. \<open>qemu_hw\<close> and \<open>bbb_hw\<close> combine the chip locales at the
  addresses of \<open>board.h\<close>; each is an instance of \<open>board_devices\<close>. \<open>hw_model\<close> gathers them into
  one hypothesis for a theorem about both builds, in terms of what can be observed of a board:
  bytes sent and received, the timer's period, the presented, the acknowledged and the enabled
  interrupt lines.
\<close>

section \<open>QEMU realview-pb-a8\<close>

locale qemu_hw =
  pl: pl011_hw bus "UART0_BASE qemu_board" uview room ustall
    "\<lambda>h. (sp804_period (tview h), map_option unat (g_srv (iview h)), g_en (iview h))" +
  sp: sp804_hw bus "TIMER_BASE qemu_board" tview
    "\<lambda>h. ((pl011_on (uview h), p_sent (uview h), p_rxd (uview h)), map_option unat (g_srv (iview h)), g_en (iview h))" +
  gic: gicv1_hw bus "INTC_CPU_BASE qemu_board" "INTC_DIST_BASE qemu_board" iview sig typer
    "\<lambda>h. ((pl011_on (uview h), p_sent (uview h), p_rxd (uview h)), sp804_period (tview h))"
  for bus :: "'h bus" and uview room ustall tview iview sig typer
begin

sublocale board_devices "pl011_ops bus" "snd (qemu_uart0 bus)" "sp804_ops bus" "snd (qemu_timer0 bus)"
    "gicv1_ops bus" "snd (qemu_gic bus)"
    "\<lambda>h. pl011_on (uview h)" "\<lambda>h. p_sent (uview h)" "\<lambda>h. p_rxd (uview h)"
    "\<lambda>h. s_raised (tview h)" "\<lambda>h. sp804_period (tview h)"
    "\<lambda>h. if sig h < 128 then Some (unat (sig h)) else None" "\<lambda>h. map_option unat (g_srv (iview h))"
    "\<lambda>h. g_en (iview h)" "{32..<gic_lines typer}"
  unfolding board_devices_def qemu_uart0_def qemu_timer0_def qemu_gic_def pl011_ops_def sp804_ops_def gicv1_ops_def
    snd_conv uart_ops.simps timer_ops.simps intc_ops.simps timer_device.simps
  by (intro conjI pl.uart_chip_axioms sp.timer_chip_axioms gic.intc_chip_axioms)

lemmas devices = board_devices_axioms

end

section \<open>BeagleBone Black\<close>

text \<open>
  The clock gate of DMTIMER2: \<open>mode\<close> is the \<open>MODULEMODE\<close> last written, \<open>clksel\<close> the selected
  source. The selection may be written only after the module reported that it is disabled
  (\<open>gated\<close>).
\<close>

locale am335x_cm =
  fixes bus :: "'h bus"
    and mode :: "'h \<Rightarrow> u32"
    and clksel :: "'h \<Rightarrow> u32"
    and gated :: "'h \<Rightarrow> bool"
    and stall :: "'h \<Rightarrow> nat"
  assumes clkctrl_write: "mode (wr32 bus (CM_PER_BASE + CM_PER_TIMER2_CLKCTRL) v h) = v \<and>
      clksel (wr32 bus (CM_PER_BASE + CM_PER_TIMER2_CLKCTRL) v h) = clksel h"
    and clkctrl_read: "rd32 bus (CM_PER_BASE + CM_PER_TIMER2_CLKCTRL) h = (v, h') \<Longrightarrow>
      mode h' = mode h \<and> clksel h' = clksel h \<and>
      (mode h = MODULEMODE_DISABLE \<longrightarrow>
         (if drop_bit IDLEST_SHIFT (v AND IDLEST_MASK) = IDLEST_DISABLED then gated h' else stall h' < stall h)) \<and>
      (mode h = MODULEMODE_ENABLE \<longrightarrow>
         drop_bit IDLEST_SHIFT (v AND IDLEST_MASK) \<noteq> IDLEST_FUNC \<longrightarrow> stall h' < stall h)"
    and clksel_write: "gated h \<Longrightarrow> clksel (wr32 bus (CM_DPLL_BASE + CM_CLKSEL_TIMER2_CLK) v h) = v"
    and wkup_write: "clksel (wr32 bus (CM_PER_BASE + CM_PER_L4LS_CLKSTCTRL) v h) = clksel h"
begin

lemma clock_ok:
  "\<exists>h'. clock_enable_timer2 bus h = Some h' \<and> clksel h' = TIMER2_CLKSEL_M_OSC \<and> mode h' = MODULEMODE_ENABLE"
proof -
  let ?a = "CM_PER_BASE + CM_PER_TIMER2_CLKCTRL"
  let ?busy = "\<lambda>st v. drop_bit IDLEST_SHIFT (v AND IDLEST_MASK) \<noteq> st"
  have "\<exists>h1. poll bus ?a (?busy IDLEST_DISABLED) (wr32 bus ?a MODULEMODE_DISABLE h) = Some h1 \<and>
      mode h1 = MODULEMODE_DISABLE \<and> gated h1"
  proof (rule poll_returns [where m = stall])
    fix h1 v h2
    assume "mode h1 = MODULEMODE_DISABLE" "rd32 bus ?a h1 = (v, h2)"
    with clkctrl_read [OF this(2)] show "mode h2 = MODULEMODE_DISABLE \<and>
        (?busy IDLEST_DISABLED v \<longrightarrow> stall h2 < stall h1) \<and> (\<not> ?busy IDLEST_DISABLED v \<longrightarrow> gated h2)"
      by auto
  qed (simp add: clkctrl_write)
  then obtain h1 where h1: "poll bus ?a (?busy IDLEST_DISABLED) (wr32 bus ?a MODULEMODE_DISABLE h) = Some h1" "gated h1"
    by blast
  define h2 where "h2 = wr32 bus ?a MODULEMODE_ENABLE (wr32 bus (CM_PER_BASE + CM_PER_L4LS_CLKSTCTRL) CLKSTCTRL_SW_WKUP
      (wr32 bus (CM_DPLL_BASE + CM_CLKSEL_TIMER2_CLK) TIMER2_CLKSEL_M_OSC h1))"
  have h2: "mode h2 = MODULEMODE_ENABLE" "clksel h2 = TIMER2_CLKSEL_M_OSC"
    using clkctrl_write wkup_write clksel_write [OF h1(2)] by (simp_all add: h2_def)
  have "\<exists>h3. poll bus ?a (?busy IDLEST_FUNC) h2 = Some h3 \<and> (mode h3 = MODULEMODE_ENABLE \<and> clksel h3 = TIMER2_CLKSEL_M_OSC) \<and> True"
  proof (rule poll_returns [where m = stall])
    fix h3 v h4
    assume "mode h3 = MODULEMODE_ENABLE \<and> clksel h3 = TIMER2_CLKSEL_M_OSC" "rd32 bus ?a h3 = (v, h4)"
    with clkctrl_read [OF this(2)] show "(mode h4 = MODULEMODE_ENABLE \<and> clksel h4 = TIMER2_CLKSEL_M_OSC) \<and>
        (?busy IDLEST_FUNC v \<longrightarrow> stall h4 < stall h3) \<and> (\<not> ?busy IDLEST_FUNC v \<longrightarrow> True)"
      by auto
  qed (simp add: h2)
  then show ?thesis using h1(1) by (auto simp: clock_enable_timer2_def h2_def)
qed

end

locale bbb_hw =
  ns: ns16550_hw bus "UART0_BASE bbb_board" uview room ustall
    "\<lambda>h. (dmtimer_period (tview h), a_srv (iview h), \<lambda>l. \<not> a_masked (iview h) l)" +
  dm: dmtimer_hw bus "TIMER_BASE bbb_board" tview idle tstall
    "\<lambda>h. ((ns16550_on (uview h), n_sent (uview h), n_rxd (uview h)), a_srv (iview h), \<lambda>l. \<not> a_masked (iview h) l)" +
  ic: am335x_hw bus "INTC_CPU_BASE bbb_board" iview sig istall
    "\<lambda>h. ((ns16550_on (uview h), n_sent (uview h), n_rxd (uview h)), dmtimer_period (tview h))" +
  cm: am335x_cm bus mode clksel gated cstall
  for bus :: "'h bus" and uview room ustall tview idle tstall iview sig istall mode clksel gated cstall
begin

sublocale board_devices "ns16550_ops bus" "snd (bbb_uart0 bus)" "dmtimer_ops bus" "snd (bbb_timer2 bus)"
    "am335x_intc_ops bus" "snd (bbb_intc bus)"
    "\<lambda>h. ns16550_on (uview h)" "\<lambda>h. n_sent (uview h)" "\<lambda>h. n_rxd (uview h)"
    "\<lambda>h. d_status (tview h) AND IRQ_OVF \<noteq> 0" "\<lambda>h. dmtimer_period (tview h)"
    sig "\<lambda>h. a_srv (iview h)" "\<lambda>h l. \<not> a_masked (iview h) l" "{0..<128}"
  unfolding board_devices_def bbb_uart0_def bbb_timer2_def bbb_intc_def ns16550_ops_def dmtimer_ops_def am335x_intc_ops_def
    snd_conv uart_ops.simps timer_ops.simps intc_ops.simps timer_device.simps
  by (intro conjI ns.uart_chip_axioms dm.timer_chip_axioms ic.intc_chip_axioms)

lemmas devices = board_devices_axioms

end

section \<open>One hypothesis for both boards\<close>

record 'h hw_obs =
  o_live :: "'h \<Rightarrow> bool"
  o_sent :: "'h \<Rightarrow> u8 list"
  o_rxd :: "'h \<Rightarrow> u8 list"
  o_period :: "'h \<Rightarrow> nat option"
  o_signal :: "'h \<Rightarrow> nat option"
  o_service :: "'h \<Rightarrow> nat option"
  o_enabled :: "'h \<Rightarrow> nat \<Rightarrow> bool"
  o_lines :: "nat set"

fun hw_model :: "platform \<Rightarrow> 'h bus \<Rightarrow> 'h hw_obs \<Rightarrow> bool" where
  "hw_model Qemu bus ob \<longleftrightarrow>
     (\<exists>uview room ustall tview iview sig typer. qemu_hw bus uview room ustall tview iview sig typer \<and>
        ob = \<lparr>o_live = \<lambda>h. pl011_on (uview h), o_sent = \<lambda>h. p_sent (uview h), o_rxd = \<lambda>h. p_rxd (uview h),
          o_period = \<lambda>h. sp804_period (tview h),
          o_signal = \<lambda>h. if sig h < 128 then Some (unat (sig h)) else None,
          o_service = \<lambda>h. map_option unat (g_srv (iview h)), o_enabled = \<lambda>h. g_en (iview h),
          o_lines = {32..<gic_lines typer}\<rparr>)"
| "hw_model Bbb bus ob \<longleftrightarrow>
     (\<exists>uview room ustall tview idle tstall iview sig istall mode clksel gated cstall.
        bbb_hw bus uview room ustall tview idle tstall iview sig istall mode clksel gated cstall \<and>
        ob = \<lparr>o_live = \<lambda>h. ns16550_on (uview h), o_sent = \<lambda>h. n_sent (uview h), o_rxd = \<lambda>h. n_rxd (uview h),
          o_period = \<lambda>h. dmtimer_period (tview h), o_signal = sig,
          o_service = \<lambda>h. a_srv (iview h), o_enabled = \<lambda>h l. \<not> a_masked (iview h) l,
          o_lines = {0..<128}\<rparr>)"

text \<open>Either board gives the three contracts on its own devices.\<close>

lemma hw_model_devices:
  assumes "hw_model pl bus ob"
  obtains uops udev tops tdev iops idev raised where
    "board_devices uops udev tops tdev iops idev (o_live ob) (o_sent ob) (o_rxd ob) raised (o_period ob)
       (o_signal ob) (o_service ob) (o_enabled ob) (o_lines ob)"
    "board_devs pl bus = \<lparr>console = Some (uops, udev), active_timer = Some (tops, tdev), active_intc = Some (iops, idev)\<rparr>"
    "td_clk_hz tdev = TIMER_CLK_HZ (board_of pl)"
proof (cases pl)
  case Qemu
  then obtain uview room ustall tview iview sig typer where hw: "qemu_hw bus uview room ustall tview iview sig typer"
    and ob: "ob = \<lparr>o_live = \<lambda>h. pl011_on (uview h), o_sent = \<lambda>h. p_sent (uview h), o_rxd = \<lambda>h. p_rxd (uview h),
          o_period = \<lambda>h. sp804_period (tview h),
          o_signal = \<lambda>h. if sig h < 128 then Some (unat (sig h)) else None,
          o_service = \<lambda>h. map_option unat (g_srv (iview h)), o_enabled = \<lambda>h. g_en (iview h),
          o_lines = {32..<gic_lines typer}\<rparr>"
    using assms by auto
  show ?thesis by (rule that [of "pl011_ops bus" "snd (qemu_uart0 bus)" "sp804_ops bus" "snd (qemu_timer0 bus)"
    "gicv1_ops bus" "snd (qemu_gic bus)" "\<lambda>h. s_raised (tview h)"])
    (use qemu_hw.devices [OF hw] in \<open>simp_all add: ob Qemu qemu_uart0_def qemu_timer0_def qemu_gic_def\<close>)
next
  case Bbb
  then obtain uview room ustall tview idle tstall iview sig istall mode clksel gated cstall where
    hw: "bbb_hw bus uview room ustall tview idle tstall iview sig istall mode clksel gated cstall"
    and ob: "ob = \<lparr>o_live = \<lambda>h. ns16550_on (uview h), o_sent = \<lambda>h. n_sent (uview h), o_rxd = \<lambda>h. n_rxd (uview h),
          o_period = \<lambda>h. dmtimer_period (tview h), o_signal = sig,
          o_service = \<lambda>h. a_srv (iview h), o_enabled = \<lambda>h l. \<not> a_masked (iview h) l,
          o_lines = {0..<128}\<rparr>"
    using assms by auto
  show ?thesis by (rule that [of "ns16550_ops bus" "snd (bbb_uart0 bus)" "dmtimer_ops bus" "snd (bbb_timer2 bus)"
    "am335x_intc_ops bus" "snd (bbb_intc bus)" "\<lambda>h. d_status (tview h) AND IRQ_OVF \<noteq> 0"])
    (use bbb_hw.devices [OF hw] in \<open>simp_all add: ob Bbb bbb_uart0_def bbb_timer2_def bbb_intc_def\<close>)
qed

text \<open>The board's own preparation ends, and sets the three device pointers.\<close>

lemma platform_init_ok:
  assumes "hw_model pl bus ob"
  shows "\<exists>h. platform_init_devices pl bus m = Some (m\<lparr>hw := h, devs := board_devs pl bus\<rparr>)"
proof (cases pl)
  case Qemu
  then show ?thesis
    by (intro exI [of _ "hw m"])
      (simp add: qemu_init_devices_def uart_set_console_def timer_set_device_def intc_set_device_def)
next
  case Bbb
  then obtain uview room ustall tview idle tstall iview sig istall mode clksel gated cstall where
    hw: "bbb_hw bus uview room ustall tview idle tstall iview sig istall mode clksel gated cstall"
    using assms by auto
  then have "am335x_cm bus mode clksel gated cstall" by (simp add: bbb_hw_def)
  from am335x_cm.clock_ok [OF this, of "hw m"] obtain h where "clock_enable_timer2 bus (hw m) = Some h" by blast
  then show ?thesis using Bbb
    by (intro exI [of _ h])
      (simp add: bbb_init_devices_def uart_set_console_def timer_set_device_def intc_set_device_def)
qed

end
