(* ===== verification/Sim_hw.thy ===== *)
theory Sim_hw
  imports Board_hw
begin

text \<open>
  Executable register models of the two boards, on which the hardware hypotheses hold: \<open>qsim_bus\<close>
  for the realview-pb-a8 and \<open>bsim_bus\<close> for the BeagleBone Black. They interpret the chip and
  board locales on the drivers of the development, and supply the instances of the theorems
  about drivers.
\<close>

section \<open>QEMU realview-pb-a8\<close>

text \<open>\<open>q_busy\<close> counts the status readings that still find the transmitter full.\<close>

record qsim =
  q_uart :: pl011_view
  q_busy :: nat
  q_timer :: sp804_view
  q_gic :: gic_view
  q_line :: u32

definition q_sig :: "qsim \<Rightarrow> u32" where
  "q_sig s = (if q_line s < 128 then q_line s else 1023)"

definition qsim_rd :: "u32 \<Rightarrow> qsim \<Rightarrow> u32 \<times> qsim" where
  "qsim_rd a s =
     (if a = 0x10009018 then
        ((if q_busy s > 0 then PL011_FR_TXFF else 0) OR (if p_rxd (q_uart s) = [] then PL011_FR_RXFE else 0),
         s\<lparr>q_busy := q_busy s - 1\<rparr>)
      else if a = 0x10009000 then
        (case p_rxd (q_uart s) of
           [] \<Rightarrow> (0, s)
         | c # cs \<Rightarrow> (ucast c, s\<lparr>q_uart := (q_uart s)\<lparr>p_rxd := cs\<rparr>\<rparr>))
      else if a = 0x1E001004 then (2, s)
      else if a = 0x1E00000C then
        (q_sig s, s\<lparr>q_gic := (q_gic s)\<lparr>g_srv := if q_sig s = 1023 then g_srv (q_gic s) else Some (q_sig s)\<rparr>,
                   q_line := 1023\<rparr>)
      else (0, s))"

definition gic_dist_wr :: "nat \<Rightarrow> u32 \<Rightarrow> gic_view \<Rightarrow> gic_view" where
  "gic_dist_wr off v g =
     (if off = 0 then g\<lparr>g_dctl := v\<rparr>
      else if 0x100 \<le> off \<and> off < 0x180 then
        g\<lparr>g_en := \<lambda>l. g_en g l \<or> word_lines (of_nat ((off - 0x100) div 4)) v l\<rparr>
      else if 0x180 \<le> off \<and> off < 0x200 then
        g\<lparr>g_en := \<lambda>l. g_en g l \<and> \<not> word_lines (of_nat ((off - 0x180) div 4)) v l\<rparr>
      else g)"

definition gic_cpu_wr :: "u32 \<Rightarrow> u32 \<Rightarrow> gic_view \<Rightarrow> gic_view" where
  "gic_cpu_wr off v g =
     (if off = GICC_CTLR then g\<lparr>g_cctl := v\<rparr>
      else if off = GICC_PMR then g\<lparr>g_pmr := v\<rparr>
      else if off = GICC_EOIR then g\<lparr>g_srv := if g_srv g = Some v then None else g_srv g\<rparr>
      else g)"

definition qsim_wr :: "u32 \<Rightarrow> u32 \<Rightarrow> qsim \<Rightarrow> qsim" where
  "qsim_wr a v s =
     (if unat (a - 0x1E001000) < 0x1000 then s\<lparr>q_gic := gic_dist_wr (unat (a - 0x1E001000)) v (q_gic s)\<rparr>
      else if unat (a - 0x1E000000) < 0x1000 then s\<lparr>q_gic := gic_cpu_wr (a - 0x1E000000) v (q_gic s)\<rparr>
      else if a = 0x10009000 then
        s\<lparr>q_uart := (if q_busy s = 0 \<and> pl011_on (q_uart s)
            then (q_uart s)\<lparr>p_sent := p_sent (q_uart s) @ [ucast v]\<rparr> else q_uart s), q_busy := 1\<rparr>
      else if a = 0x10009030 then s\<lparr>q_uart := (q_uart s)\<lparr>p_cr := v\<rparr>\<rparr>
      else if a = 0x10011000 then s\<lparr>q_timer := (q_timer s)\<lparr>s_load := v\<rparr>\<rparr>
      else if a = 0x10011008 then s\<lparr>q_timer := (q_timer s)\<lparr>s_ctrl := v\<rparr>\<rparr>
      else if a = 0x1001100C then s\<lparr>q_timer := (q_timer s)\<lparr>s_raised := False\<rparr>\<rparr>
      else s)"

definition qsim_wr8 :: "u32 \<Rightarrow> u8 \<Rightarrow> qsim \<Rightarrow> qsim" where
  "qsim_wr8 a b s =
     (let off = unat (a - 0x1E001000); g = q_gic s in
      if 0x400 \<le> off \<and> off < 0x800 then s\<lparr>q_gic := g\<lparr>g_prio := (g_prio g)(off - 0x400 := b)\<rparr>\<rparr>
      else if 0x800 \<le> off \<and> off < 0xC00 then s\<lparr>q_gic := g\<lparr>g_target := (g_target g)(off - 0x800 := b)\<rparr>\<rparr>
      else s)"

definition qsim_bus :: "qsim bus" where
  "qsim_bus = \<lparr>rd32 = qsim_rd, wr32 = qsim_wr, wr8 = qsim_wr8\<rparr>"

lemma qsim_bus_simps [simp]:
  "rd32 qsim_bus = qsim_rd" "wr32 qsim_bus = qsim_wr" "wr8 qsim_bus = qsim_wr8"
  by (simp_all add: qsim_bus_def)

text \<open>A byte read from a data register, and offsets into register arrays.\<close>

lemma ucast_byte_mask: "ucast (c :: u8) AND 0xFF = (ucast c :: u32)"
proof -
  have lt: "unat c < 256" using unsigned_less [of c] by simp
  then have "unat (ucast c :: u32) = unat c" by (simp add: unsigned_ucast_eq take_bit_nat_eq_self_iff)
  moreover have "unat (ucast c AND 0xFF :: u32) = unat (ucast c :: u32) mod 256"
    using unat_low_bits [of "ucast c" 8] by simp
  ultimately show ?thesis using lt by (intro word_unat_eq_iff [THEN iffD2]) simp
qed

lemma unat_array4: "c \<le> 0x1000 \<Longrightarrow> n < 128 \<Longrightarrow> unat (of_nat c + n * 4 :: u32) = c + 4 * unat n"
  by (simp add: unat_word_ariths word_less_nat_alt unat_of_nat)

lemma unat_array1: "c \<le> 0x1000 \<Longrightarrow> n < 1020 \<Longrightarrow> unat (of_nat c + n :: u32) = c + unat n"
  by (simp add: unat_word_ariths word_less_nat_alt unat_of_nat)

lemma qsim_dist_wr:
  assumes "unat off < 0x1000"
  shows "qsim_wr (0x1E001000 + off) v s = s\<lparr>q_gic := gic_dist_wr (unat off) v (q_gic s)\<rparr>"
  using assms by (simp add: qsim_wr_def)

lemma qsim_cpu_wr:
  assumes "off \<in> {GICC_CTLR, GICC_PMR, GICC_BPR, GICC_EOIR}"
  shows "qsim_wr (0x1E000000 + off) v s = s\<lparr>q_gic := gic_cpu_wr off v (q_gic s)\<rparr>"
  using assms by (elim insertE) (simp_all add: qsim_wr_def GICC_CTLR_def GICC_PMR_def GICC_BPR_def GICC_EOIR_def)

lemma gic_cpu_regs:
  "gic_cpu_wr GICC_CTLR v g = g\<lparr>g_cctl := v\<rparr>" "gic_cpu_wr GICC_PMR v g = g\<lparr>g_pmr := v\<rparr>"
  "gic_cpu_wr GICC_BPR v g = g"
  "gic_cpu_wr GICC_EOIR v g = g\<lparr>g_srv := if g_srv g = Some v then None else g_srv g\<rparr>"
  by (simp_all add: gic_cpu_wr_def GICC_CTLR_def GICC_PMR_def GICC_BPR_def GICC_EOIR_def)

lemma gic_array_wr:
  assumes "n < 32"
  shows "unat (GICD_ICENABLER n) < 0x1000" "unat (GICD_ISENABLER n) < 0x1000"
    "gic_dist_wr (unat (GICD_ICENABLER n)) v g = g\<lparr>g_en := \<lambda>l. g_en g l \<and> \<not> word_lines n v l\<rparr>"
    "gic_dist_wr (unat (GICD_ISENABLER n)) v g = g\<lparr>g_en := \<lambda>l. g_en g l \<or> word_lines n v l\<rparr>"
proof -
  have n: "unat n < 32" "n < 128" using assms by (simp_all add: word_less_nat_alt)
  have "unat (GICD_ICENABLER n) = 0x180 + 4 * unat n" "unat (GICD_ISENABLER n) = 0x100 + 4 * unat n"
    using unat_array4 [of "0x180" n] unat_array4 [of "0x100" n] n by (simp_all add: gic_regs)
  then show "unat (GICD_ICENABLER n) < 0x1000" "unat (GICD_ISENABLER n) < 0x1000"
    "gic_dist_wr (unat (GICD_ICENABLER n)) v g = g\<lparr>g_en := \<lambda>l. g_en g l \<and> \<not> word_lines n v l\<rparr>"
    "gic_dist_wr (unat (GICD_ISENABLER n)) v g = g\<lparr>g_en := \<lambda>l. g_en g l \<or> word_lines n v l\<rparr>"
    using n by (simp_all add: gic_dist_wr_def)
qed

lemma qsim_byte_wr:
  assumes "i < 1020"
  shows "qsim_wr8 (0x1E001000 + GICD_IPRIORITYR i) b s = s\<lparr>q_gic := (q_gic s)\<lparr>g_prio := (g_prio (q_gic s))(unat i := b)\<rparr>\<rparr>"
    "qsim_wr8 (0x1E001000 + GICD_ITARGETSR i) b s = s\<lparr>q_gic := (q_gic s)\<lparr>g_target := (g_target (q_gic s))(unat i := b)\<rparr>\<rparr>"
proof -
  have "unat (GICD_IPRIORITYR i) = 0x400 + unat i" "unat (GICD_ITARGETSR i) = 0x800 + unat i" "unat i < 1020"
    using unat_array1 [of "0x400" i] unat_array1 [of "0x800" i] assms by (simp_all add: gic_regs word_less_nat_alt)
  then show "qsim_wr8 (0x1E001000 + GICD_IPRIORITYR i) b s = s\<lparr>q_gic := (q_gic s)\<lparr>g_prio := (g_prio (q_gic s))(unat i := b)\<rparr>\<rparr>"
    "qsim_wr8 (0x1E001000 + GICD_ITARGETSR i) b s = s\<lparr>q_gic := (q_gic s)\<lparr>g_target := (g_target (q_gic s))(unat i := b)\<rparr>\<rparr>"
    by (simp_all add: qsim_wr8_def Let_def)
qed

interpretation qpl: pl011_hw qsim_bus "UART0_BASE qemu_board" q_uart "\<lambda>s. q_busy s = 0" q_busy
  "\<lambda>s. (sp804_period (q_timer s), map_option unat (g_srv (q_gic s)), g_en (q_gic s))"
proof (unfold_locales, goal_cases)
  case (1 h v h')
  then show ?case
    by (cases "q_busy h"; cases "p_rxd (q_uart h)") (auto simp: qsim_rd_def board_defs pl011_regs)
next
  case (3 h c cs v h')
  then show ?case using ucast_byte_mask by (auto simp: qsim_rd_def board_defs pl011_regs)
qed (auto simp: qsim_wr_def board_defs pl011_regs pl011_on_def)

interpretation qsp: sp804_hw qsim_bus "TIMER_BASE qemu_board" q_timer
  "\<lambda>s. ((pl011_on (q_uart s), p_sent (q_uart s), p_rxd (q_uart s)), map_option unat (g_srv (q_gic s)), g_en (q_gic s))"
  by unfold_locales (auto simp: qsim_wr_def board_defs sp804_regs)

interpretation qgic: gicv1_hw qsim_bus "INTC_CPU_BASE qemu_board" "INTC_DIST_BASE qemu_board" q_gic q_sig 2
  "\<lambda>s. ((pl011_on (q_uart s), p_sent (q_uart s), p_rxd (q_uart s)), sp804_period (q_timer s))"
proof (unfold_locales, goal_cases)
  case (1 h)
  then show ?case by (simp add: q_sig_def)
next
  case (2 v h)
  then show ?case using qsim_dist_wr [of 0 v h] by (simp add: board_defs GICD_CTLR_def gic_dist_wr_def)
next
  case (3 h v h')
  then show ?case by (auto simp: qsim_rd_def board_defs gic_regs)
next
  case (4 n v h)
  then show ?case using gic_array_wr [OF 4] by (simp add: board_defs qsim_dist_wr)
next
  case (5 n v h)
  then show ?case using gic_array_wr [OF 5] by (simp add: board_defs qsim_dist_wr)
next
  case (6 i b h)
  then show ?case using qsim_byte_wr [OF 6] by (simp add: board_defs)
next
  case (7 i b h)
  then show ?case using qsim_byte_wr [OF 7] by (simp add: board_defs)
next
  case (11 h v h')
  have "q_sig h AND 0x3FF = q_sig h"
  proof (cases "q_line h < 128")
    case True
    then have "q_line h AND 0x3FF = q_line h"
      by (intro word_unat_eq_iff [THEN iffD2])
        (simp add: word_less_nat_alt unat_mask10)
    then show ?thesis using True by (simp add: q_sig_def)
  qed (simp add: q_sig_def)
  then show ?case using 11 by (auto simp: qsim_rd_def board_defs gic_regs)
next
  case (13 n off v h)
  moreover have "unat GICD_CTLR < 0x1000" by (simp add: GICD_CTLR_def)
  ultimately show ?case using gic_array_wr(1,2) [OF 13(1)] by (auto simp: board_defs qsim_dist_wr)
next
  case (14 i off b h)
  then show ?case using qsim_byte_wr [OF 14(1)] by (auto simp: board_defs)
next
  case (15 off v h)
  then have "off \<in> {GICC_CTLR, GICC_PMR, GICC_BPR, GICC_EOIR}" by blast
  then show ?case by (simp only: board_defs board.simps qsim_bus_simps qsim_cpu_wr) simp
qed (simp_all add: board_defs qsim_cpu_wr gic_cpu_regs)

interpretation q: qemu_hw qsim_bus q_uart "\<lambda>s. q_busy s = 0" q_busy q_timer q_gic q_sig 2
  by unfold_locales

section \<open>BeagleBone Black\<close>

text \<open>Resets and posted writes complete at once; \<open>b_busy\<close> is as above.\<close>

record bsim =
  b_uart :: ns16550_view
  b_busy :: nat
  b_timer :: dmtimer_view
  b_intc :: am335x_view
  b_line :: "nat option"
  b_mode :: u32
  b_clksel :: u32

definition b_sig :: "bsim \<Rightarrow> nat option" where
  "b_sig s = (case b_line s of Some l \<Rightarrow> (if l < 128 then Some l else None) | None \<Rightarrow> None)"

definition bsim_rd :: "u32 \<Rightarrow> bsim \<Rightarrow> u32 \<times> bsim" where
  "bsim_rd a s =
     (if a = 0x44E09014 then
        ((if n_rxd (b_uart s) = [] then 0 else NS16550_LSR_DR) OR (if b_busy s = 0 then NS16550_LSR_THRE else 0),
         s\<lparr>b_busy := b_busy s - 1\<rparr>)
      else if a = 0x44E09000 then
        (case n_rxd (b_uart s) of
           [] \<Rightarrow> (0, s)
         | c # cs \<Rightarrow> (ucast c, s\<lparr>b_uart := (b_uart s)\<lparr>n_rxd := cs\<rparr>\<rparr>))
      else if a = 0x48200014 then (1, s)
      else if a = 0x48200040 then
        (case b_sig s of
           None \<Rightarrow> (0xFFFFFF80, s)
         | Some l \<Rightarrow> (of_nat l, s\<lparr>b_intc := (b_intc s)\<lparr>a_srv := Some l\<rparr>, b_line := None\<rparr>))
      else if a = 0x44E00080 then (if b_mode s = 0 then 0x30000 else 0, s)
      else (0, s))"

definition am335x_wr :: "u32 \<Rightarrow> u32 \<Rightarrow> am335x_view \<Rightarrow> am335x_view" where
  "am335x_wr off v g =
     (if off \<in> {0x088, 0x0A8, 0x0C8, 0x0E8} then
        g\<lparr>a_masked := \<lambda>l. a_masked g l \<and> \<not> word_lines ((off - 0x088) div 0x20) v l\<rparr>
      else if off \<in> {0x08C, 0x0AC, 0x0CC, 0x0EC} then
        g\<lparr>a_masked := \<lambda>l. a_masked g l \<or> word_lines ((off - 0x08C) div 0x20) v l\<rparr>
      else if off = 0x068 then g\<lparr>a_threshold := v\<rparr>
      else if off = 0x048 then (if v AND 1 \<noteq> 0 then g\<lparr>a_srv := None\<rparr> else g)
      else g)"

definition ns16550_wr :: "bool \<Rightarrow> u32 \<Rightarrow> u32 \<Rightarrow> ns16550_view \<Rightarrow> ns16550_view" where
  "ns16550_wr ready off v u =
     (let dlab = (n_lcr u AND NS16550_LCR_DLAB \<noteq> 0) in
      if off = 0x00 then
        (if dlab then u\<lparr>n_dll := v\<rparr>
         else if ready \<and> n_mdr1 u = NS16550_MDR1_16X then u\<lparr>n_sent := n_sent u @ [ucast v]\<rparr> else u)
      else if off = 0x04 then (if dlab then u\<lparr>n_dlh := v\<rparr> else u\<lparr>n_ier := v\<rparr>)
      else if off = 0x08 then (if v AND NS16550_FCR_RXCLR \<noteq> 0 then u\<lparr>n_rxd := []\<rparr> else u)
      else if off = 0x0C then u\<lparr>n_lcr := v\<rparr>
      else if off = 0xA4 then u\<lparr>n_mdr1 := v\<rparr>
      else u)"

definition dmtimer_wr :: "u32 \<Rightarrow> u32 \<Rightarrow> dmtimer_view \<Rightarrow> dmtimer_view" where
  "dmtimer_wr off v t =
     (if off = 0x028 then t\<lparr>d_status := d_status t AND NOT v\<rparr>
      else if off = 0x02C then t\<lparr>d_irqen := d_irqen t OR v\<rparr>
      else if off = 0x038 then t\<lparr>d_tclr := v\<rparr>
      else if off = 0x040 then t\<lparr>d_tldr := v\<rparr>
      else t)"

definition bsim_wr :: "u32 \<Rightarrow> u32 \<Rightarrow> bsim \<Rightarrow> bsim" where
  "bsim_wr a v s =
     (if unat (a - 0x48200000) < 0x1000 then s\<lparr>b_intc := am335x_wr (a - 0x48200000) v (b_intc s)\<rparr>
      else if unat (a - 0x44E09000) < 0x1000 then
        s\<lparr>b_uart := ns16550_wr (b_busy s = 0) (a - 0x44E09000) v (b_uart s),
          b_busy := (if a = 0x44E09000 then 1 else b_busy s)\<rparr>
      else if unat (a - 0x48040000) < 0x1000 then s\<lparr>b_timer := dmtimer_wr (a - 0x48040000) v (b_timer s)\<rparr>
      else if a = 0x44E00080 then s\<lparr>b_mode := v\<rparr>
      else if a = 0x44E00508 then s\<lparr>b_clksel := v\<rparr>
      else s)"

definition bsim_bus :: "bsim bus" where
  "bsim_bus = \<lparr>rd32 = bsim_rd, wr32 = bsim_wr, wr8 = \<lambda>a b s. s\<rparr>"

lemma bsim_bus_simps [simp]: "rd32 bsim_bus = bsim_rd" "wr32 bsim_bus = bsim_wr"
  by (simp_all add: bsim_bus_def)

text \<open>Writes, device by device.\<close>

lemma bsim_intc_wr:
  assumes "unat off < 0x1000"
  shows "bsim_wr (0x48200000 + off) v s = s\<lparr>b_intc := am335x_wr off v (b_intc s)\<rparr>"
  using assms by (simp add: bsim_wr_def)

lemma bsim_uart_wr:
  assumes "off \<in> {0x00, 0x04, 0x08, 0x0C, 0xA4}"
  shows "bsim_wr (0x44E09000 + off) v s = s\<lparr>b_uart := ns16550_wr (b_busy s = 0) off v (b_uart s),
    b_busy := (if off = 0 then 1 else b_busy s)\<rparr>"
  using assms by (elim insertE) (simp_all add: bsim_wr_def)

lemma bsim_timer_wr:
  assumes "off \<in> {0x010, 0x028, 0x02C, 0x038, 0x03C, 0x040, 0x054}"
  shows "bsim_wr (0x48040000 + off) v s = s\<lparr>b_timer := dmtimer_wr off v (b_timer s)\<rparr>"
  using assms by (elim insertE) (simp_all add: bsim_wr_def)

lemma less_4_cases: "(n :: u32) < 4 \<Longrightarrow> n = 0 \<or> n = 1 \<or> n = 2 \<or> n = 3"
proof -
  assume "n < 4"
  then have "unat n < 4" by (simp add: word_less_nat_alt)
  then have "unat n = 0 \<or> unat n = 1 \<or> unat n = 2 \<or> unat n = 3" by arith
  then show ?thesis by (elim disjE) (simp_all add: word_unat_eq_iff)
qed

lemma am335x_array_wr:
  assumes "n < 4"
  shows "unat (INTC_MIR_SET n) < 0x1000" "unat (INTC_MIR_CLEAR n) < 0x1000"
    "am335x_wr (INTC_MIR_SET n) v g = g\<lparr>a_masked := \<lambda>l. a_masked g l \<or> word_lines n v l\<rparr>"
    "am335x_wr (INTC_MIR_CLEAR n) v g = g\<lparr>a_masked := \<lambda>l. a_masked g l \<and> \<not> word_lines n v l\<rparr>"
  using less_4_cases [OF assms]
  by (elim disjE; simp add: am335x_wr_def INTC_MIR_SET_def INTC_MIR_CLEAR_def)+

lemma am335x_ilr_wr:
  assumes "m < 128"
  shows "unat (INTC_ILR m) < 0x1000" "am335x_wr (INTC_ILR m) v g = g"
proof -
  have u: "unat (INTC_ILR m) = 0x100 + 4 * unat m" "unat m < 128"
    using unat_array4 [of "0x100" m] assms by (simp_all add: INTC_ILR_def word_less_nat_alt)
  then show "unat (INTC_ILR m) < 0x1000" by simp
  have "INTC_ILR m \<noteq> x" if "unat x < 0x100" for x using u that by auto
  then show "am335x_wr (INTC_ILR m) v g = g" by (simp add: am335x_wr_def)
qed

interpretation bns: ns16550_hw bsim_bus "UART0_BASE bbb_board" b_uart "\<lambda>s. b_busy s = 0" b_busy
  "\<lambda>s. (dmtimer_period (b_timer s), a_srv (b_intc s), \<lambda>l. \<not> a_masked (b_intc s) l)"
proof (unfold_locales, goal_cases)
  case (1 h v h')
  then show ?case
    by (cases "b_busy h"; cases "n_rxd (b_uart h)") (auto simp: bsim_rd_def board_defs ns16550_regs)
next
  case (4 h c cs v h')
  then show ?case using ucast_byte_mask by (auto simp: bsim_rd_def board_defs ns16550_regs)
next
  case (9 off v h)
  then have "off \<in> {0x00, 0x04, 0x08, 0x0C, 0xA4}" by (auto simp: ns16550_regs)
  then show ?case by (simp only: board_defs board.simps bsim_bus_simps bsim_uart_wr) simp
qed (simp_all add: board_defs bsim_wr_def ns16550_wr_def Let_def NS16550_THR_def NS16550_DLL_def NS16550_DLH_def
      NS16550_IER_def NS16550_LCR_def NS16550_MDR1_def)

interpretation bdm: dmtimer_hw bsim_bus "TIMER_BASE bbb_board" b_timer "\<lambda>m s. True" "\<lambda>s. 0"
  "\<lambda>s. ((ns16550_on (b_uart s), n_sent (b_uart s), n_rxd (b_uart s)), a_srv (b_intc s), \<lambda>l. \<not> a_masked (b_intc s) l)"
proof (unfold_locales, goal_cases)
  case (1 h v h')
  then show ?case by (auto simp: bsim_rd_def board_defs dmtimer_regs)
next
  case (2 h v h')
  then show ?case by (auto simp: bsim_rd_def board_defs dmtimer_regs)
next
  case (8 off v h)
  then have "off \<in> {0x010, 0x028, 0x02C, 0x038, 0x03C, 0x040, 0x054}" by (auto simp: dmtimer_regs)
  then show ?case by (simp only: board_defs board.simps bsim_bus_simps bsim_timer_wr) simp
qed (simp_all add: board_defs bsim_wr_def dmtimer_wr_def dmtimer_regs)

interpretation bic: am335x_hw bsim_bus "INTC_CPU_BASE bbb_board" b_intc b_sig "\<lambda>s. 0"
  "\<lambda>s. ((ns16550_on (b_uart s), n_sent (b_uart s), n_rxd (b_uart s)), dmtimer_period (b_timer s))"
proof (unfold_locales, goal_cases)
  case (1 h l)
  then show ?case by (auto simp: b_sig_def split: option.splits if_splits)
next
  case (2 h v h')
  then show ?case by (auto simp: bsim_rd_def board_defs am335x_regs)
next
  case (3 n v h)
  then show ?case using am335x_array_wr [OF 3] by (simp add: board_defs bsim_intc_wr)
next
  case (4 n v h)
  then show ?case using am335x_array_wr [OF 4] by (simp add: board_defs bsim_intc_wr)
next
  case (6 m v h)
  then show ?case using am335x_ilr_wr [OF 6] by (simp add: board_defs bsim_intc_wr)
next
  case (8 h v h')
  then show ?case by (auto simp: bsim_rd_def board_defs am335x_regs split: option.splits)
next
  case (9 n m off v h)
  moreover have "unat INTC_SYSCONFIG < 0x1000" "unat INTC_THRESHOLD < 0x1000" "unat INTC_CONTROL < 0x1000"
    by (simp_all add: INTC_SYSCONFIG_def INTC_THRESHOLD_def INTC_CONTROL_def)
  ultimately have "unat off < 0x1000" using am335x_array_wr(1,2) [OF 9(1)] am335x_ilr_wr(1) [OF 9(2)] by auto
  then show ?case by (simp only: board_defs board.simps bsim_bus_simps bsim_intc_wr) simp
qed (simp_all add: board_defs bsim_wr_def am335x_wr_def INTC_THRESHOLD_def INTC_CONTROL_def INTC_CONTROL_NEWIRQAGR_def)

interpretation bcm: am335x_cm bsim_bus b_mode b_clksel "\<lambda>s. True" "\<lambda>s. 0"
  by unfold_locales (auto simp: bsim_rd_def bsim_wr_def cm_regs split: if_splits)

interpretation b: bbb_hw bsim_bus b_uart "\<lambda>s. b_busy s = 0" b_busy b_timer "\<lambda>m s. True" "\<lambda>s. 0" b_intc b_sig "\<lambda>s. 0"
  b_mode b_clksel "\<lambda>s. True" "\<lambda>s. 0"
  by unfold_locales

end
