(* ===== verification/Driver_Props.thy ===== *)
theory Driver_Props
  imports Sim_hw Demo
begin

text \<open>
  The properties of the chip drivers and of the wiring of the boards, under the hardware
  hypotheses of theory \<open>Board_hw\<close>, with instances on the register models of theory \<open>Sim_hw\<close>.
\<close>

section \<open>Instances\<close>

definition qsim_obs :: "qsim hw_obs" where
  "qsim_obs = \<lparr>o_live = \<lambda>s. pl011_on (q_uart s), o_sent = \<lambda>s. p_sent (q_uart s), o_rxd = \<lambda>s. p_rxd (q_uart s),
     o_period = \<lambda>s. sp804_period (q_timer s),
     o_signal = \<lambda>s. if q_sig s < 128 then Some (unat (q_sig s)) else None,
     o_service = \<lambda>s. map_option unat (g_srv (q_gic s)), o_enabled = \<lambda>s. g_en (q_gic s),
     o_lines = {32..<gic_lines 2}\<rparr>"

lemma qsim_model: "hw_model Qemu qsim_bus qsim_obs"
  unfolding hw_model.simps using q.qemu_hw_axioms by (force simp: qsim_obs_def)

definition bsim_obs :: "bsim hw_obs" where
  "bsim_obs = \<lparr>o_live = \<lambda>s. ns16550_on (b_uart s), o_sent = \<lambda>s. n_sent (b_uart s), o_rxd = \<lambda>s. n_rxd (b_uart s),
     o_period = \<lambda>s. dmtimer_period (b_timer s), o_signal = b_sig,
     o_service = \<lambda>s. a_srv (b_intc s), o_enabled = \<lambda>s l. \<not> a_masked (b_intc s) l, o_lines = {0..<128}\<rparr>"

lemma bsim_model: "hw_model Bbb bsim_bus bsim_obs"
  unfolding hw_model.simps using b.bbb_hw_axioms by (force simp: bsim_obs_def)

text \<open>A working console with two bytes waiting and the transmitter busy for three more polls.\<close>

definition qsim_demo :: qsim where
  "qsim_demo = \<lparr>q_uart = \<lparr>p_sent = [], p_rxd = [108, 115], p_cr = PL011_CR_UARTEN OR PL011_CR_TXE OR PL011_CR_RXE\<rparr>,
     q_busy = 3, q_timer = \<lparr>s_load = 0, s_ctrl = 0, s_raised = False\<rparr>,
     q_gic = \<lparr>g_dctl = 1, g_cctl = 1, g_pmr = 0xF0, g_en = \<lambda>l. False, g_prio = \<lambda>l. 0, g_target = \<lambda>l. 0, g_srv = None\<rparr>,
     q_line = 1023\<rparr>"

definition bsim_demo :: bsim where
  "bsim_demo = \<lparr>b_uart = \<lparr>n_sent = [], n_rxd = [], n_lcr = 0, n_ier = 0, n_dll = 0, n_dlh = 0, n_mdr1 = 7\<rparr>,
     b_busy = 0, b_timer = \<lparr>d_tclr = 0, d_tldr = 0, d_irqen = 0, d_status = 0\<rparr>,
     b_intc = \<lparr>a_masked = \<lambda>l. False, a_threshold = 0, a_srv = None\<rparr>, b_line = None, b_mode = 0, b_clksel = 0\<rparr>"

definition demo_machine :: "qsim \<Rightarrow> qsim machine" where
  "demo_machine s = \<lparr>hw = s, kst = demo_kernel, devs = board_devs Qemu qsim_bus\<rparr>"

section \<open>Properties of the drivers\<close>

text \<open>C18: On both boards the interrupt path through the chip drivers (acknowledge at the controller,
  run the registered handler with its device accesses, end of interrupt) changes the kernel
  state exactly as the model \<open>irq_dispatch\<close> does with the line that the controller presented and
  the bytes that the UART delivered; it ends, and no interrupt stays in service.\<close>

theorem irq_path_refines:
  assumes "hw_model pl bus ob" "devs m = board_devs pl bus" "o_live ob (hw m)" "o_service ob (hw m) = None"
  shows "\<exists>h. dev_irq_dispatch m =
      Some (m\<lparr>hw := h, kst := irq_dispatch (case o_signal ob (hw m) of Some l \<Rightarrow> of_nat l | None \<Rightarrow> MAX_IRQS)
        (o_rxd ob (hw m)) (kst m)\<rparr>) \<and>
    o_service ob h = None \<and> o_live ob h \<and> o_sent ob h = o_sent ob (hw m)"
proof -
  obtain uops udev tops tdev iops idev raised where
    c: "board_devices uops udev tops tdev iops idev (o_live ob) (o_sent ob) (o_rxd ob) raised (o_period ob)
       (o_signal ob) (o_service ob) (o_enabled ob) (o_lines ob)"
    and d: "board_devs pl bus = \<lparr>console = Some (uops, udev), active_timer = Some (tops, tdev), active_intc = Some (iops, idev)\<rparr>"
    by (rule hw_model_devices [OF assms(1)])
  from board_devices.dispatch_refines [OF c assms(2) [unfolded d] assms(3,4)] show ?thesis by blast
qed

theorem irq_path_refines_witness:
  "\<exists>h. dev_irq_dispatch (demo_machine (qsim_demo\<lparr>q_line := 44\<rparr>)) =
     Some ((demo_machine (qsim_demo\<lparr>q_line := 44\<rparr>))\<lparr>hw := h, kst := irq_dispatch 44 [108, 115] demo_kernel\<rparr>)"
proof -
  have sg: "o_signal qsim_obs (qsim_demo\<lparr>q_line := 44\<rparr>) = Some 44" by (simp add: qsim_obs_def q_sig_def)
  have "\<exists>h. dev_irq_dispatch (demo_machine (qsim_demo\<lparr>q_line := 44\<rparr>)) =
      Some ((demo_machine (qsim_demo\<lparr>q_line := 44\<rparr>))\<lparr>hw := h, kst :=
        irq_dispatch (case o_signal qsim_obs (hw (demo_machine (qsim_demo\<lparr>q_line := 44\<rparr>))) of Some l \<Rightarrow> of_nat l | None \<Rightarrow> MAX_IRQS)
        (o_rxd qsim_obs (hw (demo_machine (qsim_demo\<lparr>q_line := 44\<rparr>)))) (kst (demo_machine (qsim_demo\<lparr>q_line := 44\<rparr>)))\<rparr>) \<and>
      o_service qsim_obs h = None \<and> o_live qsim_obs h \<and>
      o_sent qsim_obs h = o_sent qsim_obs (hw (demo_machine (qsim_demo\<lparr>q_line := 44\<rparr>)))"
    by (rule irq_path_refines [OF qsim_model]) (simp_all add: demo_machine_def qsim_obs_def qsim_demo_def pl011_on_def)
  then show ?thesis by (auto simp: demo_machine_def sg) (auto simp: qsim_obs_def qsim_demo_def)
qed

text \<open>C19: On both boards the bring-up of the devices in \<open>kmain\<close> ends: the console works, the timer
  interrupts every 10 ms of its input clock (10000 counts at 1 MHz, 240000 at 24 MHz), of the
  lines that the controller was told to mask exactly those of the timer and the UART are
  enabled, and both handlers are registered.\<close>

theorem bringup_works:
  assumes "hw_model pl bus ob"
  shows "\<exists>m'. device_bringup pl bus m = Some m' \<and> devs m' = board_devs pl bus \<and> o_live ob (hw m') \<and>
    o_period ob (hw m') = Some (case pl of Qemu \<Rightarrow> 10000 | Bbb \<Rightarrow> 240000) \<and>
    o_enabled ob (hw m') (unat (IRQ_TIMER (board_of pl))) \<and> o_enabled ob (hw m') (unat (IRQ_UART0 (board_of pl))) \<and>
    (\<forall>l \<in> o_lines ob. o_enabled ob (hw m') l \<longrightarrow> l = unat (IRQ_TIMER (board_of pl)) \<or> l = unat (IRQ_UART0 (board_of pl))) \<and>
    kst m' = irq_register (IRQ_UART0 (board_of pl)) H_uart_rx_irq
      (irq_register (IRQ_TIMER (board_of pl)) H_timer_irq (irq_table_clear (kst m)))"
proof -
  obtain uops udev tops tdev iops idev raised where
    c: "board_devices uops udev tops tdev iops idev (o_live ob) (o_sent ob) (o_rxd ob) raised (o_period ob)
       (o_signal ob) (o_service ob) (o_enabled ob) (o_lines ob)"
    and d: "board_devs pl bus = \<lparr>console = Some (uops, udev), active_timer = Some (tops, tdev), active_intc = Some (iops, idev)\<rparr>"
    and hz: "td_clk_hz tdev = TIMER_CLK_HZ (board_of pl)"
    by (rule hw_model_devices [OF assms])
  obtain h where h: "platform_init_devices pl bus m = Some (m\<lparr>hw := h, devs := board_devs pl bus\<rparr>)"
    using platform_init_ok [OF assms] by blast
  let ?t = "unat (IRQ_TIMER (board_of pl))" and ?u = "unat (IRQ_UART0 (board_of pl))"
  have n: "?t < 128" "?u < 128" by (cases pl; simp add: board_defs)+
  have clk: "1000000 \<le> unat (td_clk_hz tdev)" "10000 * (unat (td_clk_hz tdev) div 1000000) < 2 ^ 32"
    "10000 * (unat (td_clk_hz tdev) div 1000000) = (case pl of Qemu \<Rightarrow> 10000 | Bbb \<Rightarrow> 240000)"
    by (cases pl; simp add: hz board_defs)+
  from board_devices.bringup_ok [OF c _ clk(1,2) n, of "m\<lparr>hw := h, devs := board_devs pl bus\<rparr>"]
  show ?thesis unfolding device_bringup_def h by (auto simp: d clk(3))
qed

theorem bringup_works_witness:
  "\<exists>m'. device_bringup Bbb bsim_bus \<lparr>hw = bsim_demo, kst = demo_kernel,
      devs = \<lparr>console = None, active_timer = None, active_intc = None\<rparr>\<rparr> = Some m' \<and>
     dmtimer_period (b_timer (hw m')) = Some 240000"
  using bringup_works [OF bsim_model, of "\<lparr>hw = bsim_demo, kst = demo_kernel,
      devs = \<lparr>console = None, active_timer = None, active_intc = None\<rparr>\<rparr>"]
  by (auto simp: bsim_obs_def)

text \<open>C20: On both boards a string printed through the console reaches the line byte by byte, in
  order, with a carriage return before every newline; the polling of the transmitter ends.\<close>

theorem console_transmits:
  assumes "hw_model pl bus ob" "devs m = board_devs pl bus" "o_live ob (hw m)"
  shows "\<exists>h. dev_uart_puts s m = Some (m\<lparr>hw := h\<rparr>) \<and> o_live ob h \<and>
    o_sent ob h = o_sent ob (hw m) @ concat (map uart_putc s) \<and> o_rxd ob h = o_rxd ob (hw m)"
proof -
  obtain uops udev tops tdev iops idev raised where
    c: "board_devices uops udev tops tdev iops idev (o_live ob) (o_sent ob) (o_rxd ob) raised (o_period ob)
       (o_signal ob) (o_service ob) (o_enabled ob) (o_lines ob)"
    and d: "board_devs pl bus = \<lparr>console = Some (uops, udev), active_timer = Some (tops, tdev), active_intc = Some (iops, idev)\<rparr>"
    by (rule hw_model_devices [OF assms(1)])
  show ?thesis by (rule board_devices.dev_uart_puts_sends [OF c]) (simp_all add: assms d)
qed

theorem console_transmits_witness:
  "\<exists>h. dev_uart_puts [104, 105, 10] (demo_machine qsim_demo) = Some ((demo_machine qsim_demo)\<lparr>hw := h\<rparr>) \<and>
     p_sent (q_uart h) = [104, 105, 13, 10]"
  using console_transmits [OF qsim_model, of "demo_machine qsim_demo" "[104, 105, 10]"]
  by (auto simp: demo_machine_def qsim_obs_def qsim_demo_def pl011_on_def uart_putc_def)

text \<open>C40: The GIC driver ends an interrupt with the number it acknowledged exactly if that number is
  below 128 or is the spurious number 1023; for the numbers from 128 to 1022 it writes 1023
  instead, which is not the number of the interrupt.\<close>

theorem gic_eoi_number:
  assumes "rd32 bus (id_cpu_base dev + GICC_IAR) h = (iar, h')"
  shows "gicv1_eoi bus dev (fst (gicv1_get_active bus dev h)) h2 =
    wr32 bus (id_cpu_base dev + GICC_EOIR)
      (if unat (iar AND 0x3FF) < 128 then iar AND 0x3FF else 1023) h2"
proof -
  have "iar AND 0x3FF = (0x3FF :: u32) \<or> iar AND 0x3FF < 0x3FF"
    using word_and_le1 [of iar "0x3FF"] by (auto simp: word_le_less_eq)
  then show ?thesis using assms
    by (auto simp: gicv1_eoi_def gicv1_get_active_def Let_def GIC_SPURIOUS_def MAX_IRQS_def word_less_nat_alt word_le_nat_alt)
qed

theorem gic_eoi_number_witness:
  "gicv1_eoi qsim_bus \<lparr>id_base = 0, id_cpu_base = 0x1E000000, id_dist_base = 0x1E001000\<rparr>
     (fst (gicv1_get_active qsim_bus \<lparr>id_base = 0, id_cpu_base = 0x1E000000, id_dist_base = 0x1E001000\<rparr>
        (qsim_demo\<lparr>q_line := 44\<rparr>))) qsim_demo = qsim_wr 0x1E000010 44 qsim_demo"
proof -
  obtain iar h' where rd: "rd32 qsim_bus (id_cpu_base \<lparr>id_base = 0, id_cpu_base = 0x1E000000, id_dist_base = 0x1E001000\<rparr> + GICC_IAR)
      (qsim_demo\<lparr>q_line := 44\<rparr>) = (iar, h')" by fastforce
  then have "iar = 44" by (simp add: GICC_IAR_def qsim_rd_def q_sig_def)
  with gic_eoi_number [OF rd, of qsim_demo] show ?thesis by (simp add: GICC_EOIR_def)
qed

text \<open>The clock set-up of the BeagleBone ends, with the 24 MHz oscillator selected and the
  timer module enabled, although the hardware ignores the selection unless the module is gated.\<close>

lemma timer_clock_selected:
  assumes "am335x_cm bus mode clksel gated stall"
  shows "\<exists>h'. clock_enable_timer2 bus h = Some h' \<and> clksel h' = 1 \<and> mode h' = 2"
  using am335x_cm.clock_ok [OF assms, of h] by (simp add: cm_regs)

end
