(* ===== verification/Ulib.thy ===== *)
theory Ulib
  imports Demo
begin

text \<open>
  The user library, \<open>src/user/libc/ulib.c\<close> and \<open>syscall.h\<close>. A \<open>char *\<close> is modelled by the bytes
  from the address it holds to the end of the object it points into: \<open>s++\<close> takes the tail, and a
  read past the object has no result (\<open>None\<close>). A C string is such a list with a NUL in it;
  \<open>cstr\<close> is its text.

  What the programs see of the kernel is the record \<open>os\<close>, one field per wrapper of \<open>syscall.h\<close>, at
  the level of buffer contents. The locale \<open>user_os\<close> states what they rely on; the kernel model
  satisfies it (theory \<open>Kernel_os\<close>). The registers that the wrappers load are modelled separately
  and shown to reach the intended handler of the kernel.
\<close>

section \<open>Strings\<close>

definition cstr :: "u8 list \<Rightarrow> u8 list" where
  "cstr s = takeWhile (\<lambda>c. c \<noteq> 0) s"

fun strlen_loop :: "u8 list \<Rightarrow> u32 \<Rightarrow> u32 option" where
  "strlen_loop [] n = None"
| "strlen_loop (c # s) n = (if c \<noteq> 0 then strlen_loop s (n + 1) else Some n)"

definition ulib_strlen :: "u8 list \<Rightarrow> u32 option" where
  "ulib_strlen s = strlen_loop s 0"

text \<open>The difference of the first bytes: \<open>(unsigned char)*a - (unsigned char)*b\<close>.\<close>

definition byte_diff :: "u8 list \<Rightarrow> u8 list \<Rightarrow> int option" where
  "byte_diff a b = (case (a, b) of (x # _, y # _) \<Rightarrow> Some (uint x - uint y) | _ \<Rightarrow> None)"

fun ulib_strcmp :: "u8 list \<Rightarrow> u8 list \<Rightarrow> int option" where
  "ulib_strcmp [] b = None"
| "ulib_strcmp (x # a) [] = None"
| "ulib_strcmp (x # a) (y # b) =
     (if x \<noteq> 0 \<and> x = y then ulib_strcmp a b else byte_diff (x # a) (y # b))"

function ulib_strncmp :: "u8 list \<Rightarrow> u8 list \<Rightarrow> u32 \<Rightarrow> int option" where
  "ulib_strncmp a b n =
     (if n = 0 then Some 0
      else (case a of
              [] \<Rightarrow> None
            | x # a' \<Rightarrow>
                (case b of
                   [] \<Rightarrow> None
                 | y # b' \<Rightarrow> if x \<noteq> 0 \<and> x = y then ulib_strncmp a' b' (n - 1) else byte_diff a b)))"
  by pat_completeness auto
termination by (relation "measure (\<lambda>(a, b, n). length a)") auto

declare ulib_strncmp.simps [simp del]

text \<open>An \<open>int\<close> that overflows is undefined.\<close>

fun atoi_loop :: "u8 list \<Rightarrow> int \<Rightarrow> int option" where
  "atoi_loop [] v = None"
| "atoi_loop (c # s) v =
     (if c \<ge> 48 \<and> c \<le> 57 then
        (let v' = v * 10 + (uint c - 48) in if v' < 2 ^ 31 then atoi_loop s v' else None)
      else Some v)"

definition ulib_atoi :: "u8 list \<Rightarrow> int option" where
  "ulib_atoi s = atoi_loop s 0"

section \<open>System calls as the programs see them\<close>

text \<open>
  \<open>os_write bs\<close> is \<open>sys_write(1, p, n)\<close> with the \<open>n\<close> bytes \<open>bs\<close> at \<open>p\<close>; \<open>os_read n\<close> and \<open>os_ps n\<close> return
  the result and the buffer of \<open>n\<close> bytes afterwards.
\<close>

record 's os =
  os_write :: "u8 list \<Rightarrow> 's \<Rightarrow> int \<times> 's"
  os_read :: "nat \<Rightarrow> 's \<Rightarrow> int \<times> u8 list \<times> 's"
  os_ps :: "nat \<Rightarrow> 's \<Rightarrow> int \<times> u8 list \<times> 's"
  os_kill :: "u32 \<Rightarrow> 's \<Rightarrow> int \<times> 's"
  os_getpid :: "'s \<Rightarrow> u32 \<times> 's"
  os_ticks :: "'s \<Rightarrow> u32 \<times> 's"
  os_yield :: "'s \<Rightarrow> 's"

section \<open>Printing\<close>

definition ulib_putc :: "'s os \<Rightarrow> u8 \<Rightarrow> 's \<Rightarrow> 's" where
  "ulib_putc os c s = snd (os_write os [c] s)"

definition ulib_puts :: "'s os \<Rightarrow> u8 list \<Rightarrow> 's \<Rightarrow> 's option" where
  "ulib_puts os str s =
     Option.bind (ulib_strlen str) (\<lambda>n. Some (snd (os_write os (take (unat n) str) s)))"

text \<open>\<open>while (--i >= 0) ulib_putc(buf[i]);\<close>\<close>

fun putu_emit :: "'s os \<Rightarrow> u8 list \<Rightarrow> nat \<Rightarrow> 's \<Rightarrow> 's" where
  "putu_emit os buf 0 s = s"
| "putu_emit os buf (Suc i) s = putu_emit os buf i (ulib_putc os (buf ! i) s)"

definition ulib_putu :: "'s os \<Rightarrow> u32 \<Rightarrow> 's \<Rightarrow> 's option" where
  "ulib_putu os v s =
     (if v = 0 then Some (ulib_putc os 48 s)
      else Option.bind (dec_fill v (replicate 11 0) 0) (\<lambda>(buf, i). Some (putu_emit os buf i s)))"

definition ulib_tag :: "'s os \<Rightarrow> 's \<Rightarrow> 's option" where
  "ulib_tag os s =
     Option.bind (ulib_puts os (bytes ''[pid '' @ [0]) s) (\<lambda>s.
     case os_getpid os s of (pid, s) \<Rightarrow>
     Option.bind (ulib_putu os pid s) (\<lambda>s.
     ulib_puts os (bytes ''] '' @ [0]) s))"

section \<open>What the programs rely on\<close>

text \<open>\<open>out\<close> is the console output so far, \<open>good\<close> an invariant of the system, \<open>mypid\<close> the pid of the program.\<close>

locale user_os =
  fixes os :: "'s os"
    and good :: "'s \<Rightarrow> bool"
    and out :: "'s \<Rightarrow> u8 list"
    and mypid :: u32
  assumes write_prints: "good s \<Longrightarrow> length bs < 4096 \<Longrightarrow> os_write os bs s = (r, s') \<Longrightarrow>
      good s' \<and> r = int (length bs) \<and> out s' = out s @ concat (map uart_putc bs)"
    and ps_fills: "good s \<Longrightarrow> n < 4096 \<Longrightarrow> os_ps os n s = (r, buf, s') \<Longrightarrow>
      good s' \<and> length buf = n \<and> r \<le> int n \<and> out s' = out s"
    and kill_good: "good s \<Longrightarrow> os_kill os pid s = (r, s') \<Longrightarrow> good s'"
    and getpid_good: "good s \<Longrightarrow> os_getpid os s = (v, s') \<Longrightarrow> good s' \<and> out s' = out s \<and> v = mypid"

text \<open>
  A system whose clock a program can wait for: every \<open>sys_yield\<close> comes back later, after at least one
  tick and fewer than \<open>2 ^ 31\<close>.
\<close>

locale clocked_os = user_os os good out mypid
  for os :: "'s os" and good :: "'s \<Rightarrow> bool" and out :: "'s \<Rightarrow> u8 list" and mypid :: u32 +
  fixes clock :: "'s \<Rightarrow> u32"
  assumes ticks_reads: "good s \<Longrightarrow> os_ticks os s = (t, s') \<Longrightarrow>
      good s' \<and> out s' = out s \<and> t = clock s \<and> clock s' = clock s"
    and yield_later: "good s \<Longrightarrow> good (os_yield os s) \<and> out (os_yield os s) = out s \<and>
      (\<exists>d. 1 \<le> d \<and> d < 2 ^ 31 \<and> clock (os_yield os s) = clock s + of_nat d)"

text \<open>
  A system with a console to read from: \<open>inp\<close> is what has been typed and not yet read. Reading one
  byte takes the oldest, and returns nothing if there is none; the other calls leave the input alone.
\<close>

locale input_os = user_os os good out mypid
  for os :: "'s os" and good :: "'s \<Rightarrow> bool" and out :: "'s \<Rightarrow> u8 list" and mypid :: u32 +
  fixes inp :: "'s \<Rightarrow> u8 list"
  assumes read_char: "good s \<Longrightarrow> os_read os 1 s = (r, buf, s') \<Longrightarrow> good s' \<and> out s' = out s \<and>
      (case inp s of [] \<Rightarrow> r \<le> 0 \<and> inp s' = [] | c # cs \<Rightarrow> r = 1 \<and> buf = [c] \<and> inp s' = cs)"
    and write_inp: "good s \<Longrightarrow> length bs < 4096 \<Longrightarrow> os_write os bs s = (r, s') \<Longrightarrow> inp s' = inp s"
    and ps_inp: "good s \<Longrightarrow> n < 4096 \<Longrightarrow> os_ps os n s = (r, buf, s') \<Longrightarrow> inp s' = inp s"
    and kill_inp: "good s \<Longrightarrow> os_kill os pid s = (r, s') \<Longrightarrow> inp s' = inp s"
    and getpid_inp: "good s \<Longrightarrow> os_getpid os s = (v, s') \<Longrightarrow> inp s' = inp s"

section \<open>Lemmas on strings\<close>

lemma cstr_split: "0 \<in> set s \<Longrightarrow> \<exists>r. s = cstr s @ 0 # r \<and> 0 \<notin> set (cstr s)"
proof -
  assume "0 \<in> set s"
  then have "dropWhile (\<lambda>c. c \<noteq> 0) s \<noteq> []" by (auto simp: dropWhile_eq_Nil_conv)
  then obtain c r where cr: "dropWhile (\<lambda>c. c \<noteq> 0) s = c # r" by (cases "dropWhile (\<lambda>c. c \<noteq> 0) s") auto
  have "c = 0" using hd_dropWhile [of "\<lambda>c. c \<noteq> 0" s] cr by auto
  then have "s = cstr s @ 0 # r" using cr takeWhile_dropWhile_id [of "\<lambda>c. c \<noteq> 0" s] by (simp add: cstr_def)
  moreover have "0 \<notin> set (cstr s)" by (auto simp: cstr_def dest: set_takeWhileD)
  ultimately show ?thesis by blast
qed

lemma cstr_terminated [simp]: "0 \<notin> set t \<Longrightarrow> cstr (t @ 0 # r) = t"
  by (induction t) (auto simp: cstr_def)

lemma cstr_simps [simp]: "cstr [] = []" "cstr (c # s) = (if c = 0 then [] else c # cstr s)"
  by (simp_all add: cstr_def)

lemma strlen_loop_eq: "0 \<in> set s \<Longrightarrow> strlen_loop s n = Some (n + of_nat (length (cstr s)))"
  by (induction s arbitrary: n) (auto simp: ac_simps)

lemma ulib_strlen_eq: "0 \<in> set s \<Longrightarrow> ulib_strlen s = Some (of_nat (length (cstr s)))"
  by (simp add: ulib_strlen_def strlen_loop_eq)

text \<open>\<open>ulib_strcmp\<close> decides equality and the lexicographic order of unsigned bytes.\<close>

lemma strcmp_eq:
  "0 \<in> set a \<Longrightarrow> 0 \<in> set b \<Longrightarrow>
   \<exists>d. ulib_strcmp a b = Some d \<and> (d = 0 \<longleftrightarrow> cstr a = cstr b) \<and> (d < 0 \<longleftrightarrow> ord_class.lexordp (cstr a) (cstr b))"
proof (induction a b rule: ulib_strcmp.induct)
  case (3 x a y b)
  show ?case
  proof (cases "x \<noteq> 0 \<and> x = y")
    case True
    moreover from True have "0 \<in> set a" "0 \<in> set b" using 3(2,3) by auto
    ultimately show ?thesis using 3(1) [OF True] by auto
  next
    case False
    have "uint x - uint y = 0 \<longleftrightarrow> x = y" "uint x - uint y < 0 \<longleftrightarrow> x < y"
      by (simp add: word_uint_eq_iff) (simp add: word_less_def)
    moreover have "x < y \<longleftrightarrow> y \<noteq> 0" if "x = 0" using that by (simp add: word_neq_0_conv)
    moreover have "\<not> x < y" if "y = 0" using that by simp
    ultimately show ?thesis using False 3(2,3)
      by (cases "x = 0"; cases "y = 0") (auto simp: byte_diff_def)
  qed
qed auto

text \<open>A comparison of at most \<open>n\<close> bytes with a text of that length tells whether it is a prefix.\<close>

lemma strncmp_prefix:
  assumes "0 \<in> set s" "0 \<notin> set w" "length w < 2 ^ 32"
  shows "\<exists>d. ulib_strncmp s (w @ [0]) (of_nat (length w)) = Some d \<and> (d = 0 \<longleftrightarrow> take (length w) (cstr s) = w)"
  using assms
proof (induction w arbitrary: s)
  case Nil
  then show ?case by (simp add: ulib_strncmp.simps)
next
  case (Cons y w)
  obtain x s' where s: "s = x # s'" using Cons.prems(1) by (cases s) auto
  have nz: "(of_nat (length (y # w)) :: u32) \<noteq> 0"
    using Cons.prems(3) by (simp add: unat_of_nat word_unat_eq_iff del: of_nat_Suc)
  have dec: "(of_nat (length (y # w)) :: u32) - 1 = of_nat (length w)" by simp
  have step: "ulib_strncmp s ((y # w) @ [0]) (of_nat (length (y # w))) =
      (if x \<noteq> 0 \<and> x = y then ulib_strncmp s' (w @ [0]) (of_nat (length w)) else Some (uint x - uint y))"
    using nz dec by (subst ulib_strncmp.simps) (simp add: s byte_diff_def del: of_nat_Suc length_Cons)
  show ?case
  proof (cases "x \<noteq> 0 \<and> x = y")
    case True
    then show ?thesis using Cons.IH [of s'] Cons.prems step s by auto
  next
    case False
    have "uint x - uint y = 0 \<longleftrightarrow> x = y" by (simp add: word_uint_eq_iff)
    moreover have "y \<noteq> 0" using Cons.prems(2) by auto
    ultimately show ?thesis using False step s by auto
  qed
qed

lemma atoi_digits:
  assumes "\<forall>d \<in> set ds. 48 \<le> d \<and> d \<le> 57" "\<not> (48 \<le> c \<and> c \<le> 57)"
    "foldl (\<lambda>a d. a * 10 + unat (d - 48)) v ds < 2 ^ 31"
  shows "atoi_loop (ds @ c # r) (int v) = Some (int (foldl (\<lambda>a d. a * 10 + unat (d - 48)) v ds))"
  using assms
proof (induction ds arbitrary: v)
  case (Cons d ds)
  have d: "int (unat (d - 48)) = uint d - 48"
  proof -
    have le: "48 \<le> d" using Cons.prems(1) by simp
    then have "unat (d - 48) = unat d - 48" by (simp add: unat_sub)
    moreover have "48 \<le> unat d" using le by (simp add: word_le_nat_alt)
    ultimately show ?thesis by (simp add: of_nat_diff flip: uint_nat)
  qed
  have mono: "v \<le> foldl (\<lambda>a d. a * 10 + unat (d - 48)) v ds" for v :: nat and ds :: "u8 list"
  proof (induction ds arbitrary: v)
    case (Cons d ds)
    have "v \<le> v * 10 + unat (d - 48)" by simp
    then show ?case using Cons.IH [of "v * 10 + unat (d - 48)"] by (simp only: foldl_Cons)
  qed simp
  let ?v = "v * 10 + unat (d - 48)"
  have "?v < 2 ^ 31" using mono [of ?v ds] Cons.prems(3) by simp
  then have "int ?v < int (2 ^ 31)" by (simp only: of_nat_less_iff)
  moreover have v: "int v * 10 + (uint d - 48) = int ?v" using d by simp
  ultimately have lt: "int v * 10 + (uint d - 48) < 2 ^ 31" by simp
  have "atoi_loop ((d # ds) @ c # r) (int v) = atoi_loop (ds @ c # r) (int ?v)"
    using Cons.prems(1) lt v by (simp only: append_Cons atoi_loop.simps Let_def) simp
  then show ?case using Cons.IH [of ?v] Cons.prems by simp
qed auto

lemma dec_digits_are_digits: "\<forall>d \<in> set (dec_digits n). 48 \<le> d \<and> d \<le> 57"
proof (induction n rule: dec_digits.induct)
  case (1 n)
  have dig: "48 \<le> (48 + of_nat m :: u8) \<and> (48 + of_nat m :: u8) \<le> 57" if "m < 10" for m
  proof -
    have "unat (48 + of_nat m :: u8) = 48 + m" using that by (simp add: unat_word_ariths unat_of_nat)
    then show ?thesis using that by (simp add: word_le_nat_alt)
  qed
  show ?case
  proof (cases "n < 10")
    case True
    then show ?thesis using dig [of n] by (simp add: dec_digits.simps [of n])
  next
    case False
    then show ?thesis using "1" dig [of "n mod 10"] by (auto simp: dec_digits.simps [of n])
  qed
qed

section \<open>Printing, once the system keeps its promises\<close>

context user_os
begin

lemma putc_prints: "good s \<Longrightarrow> good (ulib_putc os c s) \<and> out (ulib_putc os c s) = out s @ uart_putc c"
  using write_prints [of s "[c]"] by (cases "os_write os [c] s") (simp add: ulib_putc_def)

lemma puts_prints:
  assumes "good s" "0 \<in> set str" "length (cstr str) < 4096"
  shows "\<exists>s'. ulib_puts os str s = Some s' \<and> good s' \<and> out s' = out s @ concat (map uart_putc (cstr str))"
proof -
  obtain r where r: "str = cstr str @ 0 # r" using cstr_split [OF assms(2)] by blast
  have "unat (of_nat (length (cstr str)) :: u32) = length (cstr str)" using assms(3) by (simp add: unat_of_nat)
  then have "take (unat (of_nat (length (cstr str)) :: u32)) str = cstr str" by (subst r) simp
  then show ?thesis using write_prints [OF assms(1,3)]
    by (cases "os_write os (cstr str) s") (simp add: ulib_puts_def ulib_strlen_eq [OF assms(2)])
qed

lemma putu_emit_prints:
  "good s \<Longrightarrow> good (putu_emit os buf i s) \<and> out (putu_emit os buf i s) = out s @ dec_emit uart_putc buf i"
  by (induction i arbitrary: s) (simp_all add: putc_prints)

text \<open>\<open>ulib_putu\<close> prints the decimal digits; its buffer of eleven bytes is large enough.\<close>

lemma putu_prints:
  assumes "good s"
  shows "\<exists>s'. ulib_putu os v s = Some s' \<and> good s' \<and> out s' = out s @ dec_digits (unat v)"
proof (cases "v = 0")
  case True
  then show ?thesis using putc_prints [OF assms, of 48] by (simp add: ulib_putu_def dec_digits.simps)
next
  case False
  then have "v > 0" by (simp add: word_gt_0)
  from dec_fill_digits [OF this, of 0 "replicate 11 0" uart_putc]
  obtain buf where "dec_fill v (replicate 11 0) 0 = Some (buf, length (dec_digits (unat v)))"
    and "dec_emit uart_putc buf (length (dec_digits (unat v))) = dec_digits (unat v)"
    using dec_digits_u32_bound [of v] by (auto simp: concat_putc_plain dec_digits_no_newline)
  then show ?thesis using False putu_emit_prints [OF assms, of buf "length (dec_digits (unat v))"]
    by (simp add: ulib_putu_def)
qed

text \<open>The prefix that tells which process speaks.\<close>

lemma tag_prints:
  assumes "good s"
  shows "\<exists>s'. ulib_tag os s = Some s' \<and> good s' \<and>
    out s' = out s @ bytes ''[pid '' @ dec_digits (unat mypid) @ bytes ''] ''"
proof -
  have lit: "0 \<in> set (bytes ''[pid '' @ [0])" "cstr (bytes ''[pid '' @ [0]) = bytes ''[pid ''"
    "0 \<in> set (bytes ''] '' @ [0])" "cstr (bytes ''] '' @ [0]) = bytes ''] ''"
    by simp_all
  obtain s1 where s1: "ulib_puts os (bytes ''[pid '' @ [0]) s = Some s1" "good s1" "out s1 = out s @ bytes ''[pid ''"
    using puts_prints [OF assms lit(1)] by (auto simp: concat_putc_plain lit simp del: append.simps)
  obtain pid s2 where g: "os_getpid os s1 = (pid, s2)" by fastforce
  note s2 = getpid_good [OF s1(2) g]
  obtain s3 where s3: "ulib_putu os pid s2 = Some s3" "good s3" "out s3 = out s1 @ dec_digits (unat pid)"
    using putu_prints [of s2 pid] s2 by auto
  obtain s4 where s4: "ulib_puts os (bytes ''] '' @ [0]) s3 = Some s4" "good s4" "out s4 = out s3 @ bytes ''] ''"
    using puts_prints [OF s3(2) lit(3)] by auto
  show ?thesis using s1 s2 g s3 s4 by (auto simp: ulib_tag_def)
qed

end

section \<open>The register interface (syscall.h)\<close>

text \<open>Numbers of \<open>user/libc/syscall.h\<close>.\<close>

definition U_SYS_WRITE :: u32 where [simp]: "U_SYS_WRITE = 0"
definition U_SYS_GETPID :: u32 where [simp]: "U_SYS_GETPID = 1"
definition U_SYS_YIELD :: u32 where [simp]: "U_SYS_YIELD = 2"
definition U_SYS_EXIT :: u32 where [simp]: "U_SYS_EXIT = 3"
definition U_SYS_READ :: u32 where [simp]: "U_SYS_READ = 4"
definition U_SYS_PS :: u32 where [simp]: "U_SYS_PS = 5"
definition U_SYS_KILL :: u32 where [simp]: "U_SYS_KILL = 6"
definition U_SYS_TICKS :: u32 where [simp]: "U_SYS_TICKS = 7"

text \<open>
  The registers r0 to r12 at the \<open>svc\<close> of each wrapper; \<open>regs\<close> is what they held before.
\<close>

definition u_sys_write :: "u32 \<Rightarrow> u32 \<Rightarrow> u32 \<Rightarrow> u32 list \<Rightarrow> u32 list" where
  "u_sys_write fd buf len regs = regs[0 := fd, 1 := buf, 2 := len, 7 := U_SYS_WRITE]"

definition u_sys_getpid :: "u32 list \<Rightarrow> u32 list" where
  "u_sys_getpid regs = regs[7 := U_SYS_GETPID]"

definition u_sys_yield :: "u32 list \<Rightarrow> u32 list" where
  "u_sys_yield regs = regs[7 := U_SYS_YIELD]"

definition u_sys_exit :: "u32 list \<Rightarrow> u32 list" where
  "u_sys_exit regs = regs[7 := U_SYS_EXIT]"

definition u_sys_read :: "u32 \<Rightarrow> u32 \<Rightarrow> u32 \<Rightarrow> u32 list \<Rightarrow> u32 list" where
  "u_sys_read fd buf len regs = regs[0 := fd, 1 := buf, 2 := len, 7 := U_SYS_READ]"

definition u_sys_ps :: "u32 \<Rightarrow> u32 \<Rightarrow> u32 list \<Rightarrow> u32 list" where
  "u_sys_ps buf sz regs = regs[0 := buf, 1 := sz, 7 := U_SYS_PS]"

definition u_sys_kill :: "u32 \<Rightarrow> u32 list \<Rightarrow> u32 list" where
  "u_sys_kill pid regs = regs[0 := pid, 7 := U_SYS_KILL]"

definition u_sys_ticks :: "u32 list \<Rightarrow> u32 list" where
  "u_sys_ticks regs = regs[7 := U_SYS_TICKS]"

lemmas u_wrappers = u_sys_write_def u_sys_getpid_def u_sys_yield_def u_sys_exit_def u_sys_read_def
  u_sys_ps_def u_sys_kill_def u_sys_ticks_def

text \<open>The frame of process \<open>c\<close> with the given registers.\<close>

definition with_regs :: "nat \<Rightarrow> u32 list \<Rightarrow> kernel \<Rightarrow> kernel" where
  "with_regs c r k = k\<lparr>frames := (frames k)(c := (frames k c)\<lparr>e_r := r\<rparr>)\<rparr>"

lemma with_regs_simps [simp]:
  "current (with_regs c r k) = current k" "tx (with_regs c r k) = tx k" "pmem (with_regs c r k) = pmem k"
  "rx_q (with_regs c r k) = rx_q k" "tick_count (with_regs c r k) = tick_count k"
  "processes (with_regs c r k) = processes k"
  "kinv pl (with_regs c r k) = kinv pl k" "e_r (frames (with_regs c r k) c) = r"
  by (simp_all add: with_regs_def)

lemma dispatch_wrappers:
  assumes "length regs = 13"
  shows "syscall_dispatch c (with_regs c (u_sys_write fd buf len regs) k) =
      Some (deliver c (sys_write fd buf len (with_regs c (u_sys_write fd buf len regs) k)))"
    "syscall_dispatch c (with_regs c (u_sys_getpid regs) k) = Some (deliver c (sys_getpid (with_regs c (u_sys_getpid regs) k)))"
    "syscall_dispatch c (with_regs c (u_sys_yield regs) k) = Some (deliver c (sys_yield (with_regs c (u_sys_yield regs) k)))"
    "syscall_dispatch c (with_regs c (u_sys_exit regs) k) = Some (deliver c (sys_exit (with_regs c (u_sys_exit regs) k)))"
    "syscall_dispatch c (with_regs c (u_sys_read fd buf len regs) k) =
      map_option (deliver c) (sys_read fd buf len (with_regs c (u_sys_read fd buf len regs) k))"
    "syscall_dispatch c (with_regs c (u_sys_ps buf len regs) k) =
      Some (deliver c (sys_ps buf len (with_regs c (u_sys_ps buf len regs) k)))"
    "syscall_dispatch c (with_regs c (u_sys_kill pid regs) k) =
      Some (deliver c (sys_kill pid (with_regs c (u_sys_kill pid regs) k)))"
    "syscall_dispatch c (with_regs c (u_sys_ticks regs) k) = Some (deliver c (sys_ticks (with_regs c (u_sys_ticks regs) k)))"
  using assms
  by (simp_all add: syscall_dispatch_def u_wrappers NR_SYSCALLS_def syscall_table_def Let_def word_le_nat_alt)

section \<open>Properties\<close>

text \<open>C21: The two sides of the system call interface agree: the registers that each wrapper of the
  user library loads make the kernel's dispatcher call the handler of the same name with the
  wrapper's arguments in the right places.\<close>

theorem syscall_abi_agrees:
  assumes "length regs = 13"
  shows "syscall_dispatch c (with_regs c (u_sys_write fd buf len regs) k) =
      Some (deliver c (sys_write fd buf len (with_regs c (u_sys_write fd buf len regs) k))) \<and>
    syscall_dispatch c (with_regs c (u_sys_getpid regs) k) = Some (deliver c (sys_getpid (with_regs c (u_sys_getpid regs) k))) \<and>
    syscall_dispatch c (with_regs c (u_sys_yield regs) k) = Some (deliver c (sys_yield (with_regs c (u_sys_yield regs) k))) \<and>
    syscall_dispatch c (with_regs c (u_sys_exit regs) k) = Some (deliver c (sys_exit (with_regs c (u_sys_exit regs) k))) \<and>
    syscall_dispatch c (with_regs c (u_sys_read fd buf len regs) k) =
      map_option (deliver c) (sys_read fd buf len (with_regs c (u_sys_read fd buf len regs) k)) \<and>
    syscall_dispatch c (with_regs c (u_sys_ps buf len regs) k) =
      Some (deliver c (sys_ps buf len (with_regs c (u_sys_ps buf len regs) k))) \<and>
    syscall_dispatch c (with_regs c (u_sys_kill pid regs) k) =
      Some (deliver c (sys_kill pid (with_regs c (u_sys_kill pid regs) k))) \<and>
    syscall_dispatch c (with_regs c (u_sys_ticks regs) k) = Some (deliver c (sys_ticks (with_regs c (u_sys_ticks regs) k)))"
  by (simp add: dispatch_wrappers [OF assms])

theorem syscall_abi_agrees_witness:
  "syscall_dispatch 0 (with_regs 0 (u_sys_kill 1 (replicate 13 9)) demo_kernel) =
     Some (deliver 0 (sys_kill 1 (with_regs 0 (u_sys_kill 1 (replicate 13 9)) demo_kernel)))"
  using syscall_abi_agrees [of "replicate 13 9" 0 _ _ _ demo_kernel 1] by simp

text \<open>Reading back what was printed: for every number below \<open>2 ^ 31\<close>, \<open>ulib_atoi\<close> applied to the
  decimal digits of the number, followed by anything that is not a digit, gives the number.\<close>

lemma atoi_reads_digits:
  assumes "unat v < 2 ^ 31" "\<not> (48 \<le> c \<and> c \<le> 57)" "uart_print_dec v = Some ds"
  shows "ulib_atoi (ds @ c # r) = Some (int (unat v))"
proof -
  have ds: "ds = dec_digits (unat v)" using assms(3) by (simp add: uart_print_dec_eq)
  have "foldl (\<lambda>a d. a * 10 + unat (d - 48)) 0 ds = unat v"
    using dec_value_digits [of "unat v"] by (simp add: dec_value_def ds)
  then show ?thesis using atoi_digits [of ds c 0 r] assms(1,2) dec_digits_are_digits by (simp add: ulib_atoi_def ds)
qed

end
