(* ===== verification/Kernel_os.thy ===== *)
theory Kernel_os
  imports Ulib
begin

text \<open>
  The kernel as the programs see it. A call of process \<open>c\<close> loads the registers of the wrapper, puts
  the buffer at a fixed address of the user window and runs the kernel's dispatcher; the result is
  r0 of the frame. This gives an implementation of the interface \<open>os\<close>, and the interpretation
  discharges the promises of the locales \<open>user_os\<close>, \<open>clocked_os\<close> and \<open>input_os\<close> from the lemmas on the system
  calls.

  The view is that of one process between its calls: a read that would put it to sleep is shown as
  one that returns nothing (the shell asks again), and a yield comes back after one timer tick.
\<close>

definition kos_buf :: u32 where "kos_buf = 0x40080000"

definition kos_call :: "nat \<Rightarrow> (u32 list \<Rightarrow> u32 list) \<Rightarrow> kernel \<Rightarrow> (u32 \<times> kernel) option" where
  "kos_call c wrapper k =
     (case syscall_dispatch c (with_regs c (wrapper (replicate 13 0)) k) of
        Some (Returned k') \<Rightarrow> Some (e_r (frames k' c) ! 0, k')
      | _ \<Rightarrow> None)"

definition kos_write :: "platform \<Rightarrow> nat \<Rightarrow> u8 list \<Rightarrow> kernel \<Rightarrow> int \<times> kernel" where
  "kos_write pl c bs k =
     (case kos_call c (u_sys_write 1 kos_buf (of_nat (length bs)))
             (k\<lparr>pmem := store_bytes (upa pl c kos_buf) bs (pmem k)\<rparr>) of
        Some (r, k') \<Rightarrow> (sint r, k')
      | None \<Rightarrow> (-1, k))"

definition kos_fill :: "platform \<Rightarrow> nat \<Rightarrow> (u32 \<Rightarrow> u32 \<Rightarrow> u32 list \<Rightarrow> u32 list) \<Rightarrow> nat \<Rightarrow> kernel \<Rightarrow> int \<times> u8 list \<times> kernel" where
  "kos_fill pl c wrapper n k =
     (case kos_call c (wrapper kos_buf (of_nat n)) k of
        Some (r, k') \<Rightarrow> (sint r, uread pl c kos_buf n k', k')
      | None \<Rightarrow> (0, uread pl c kos_buf n k, k))"

definition kos_kill :: "nat \<Rightarrow> u32 \<Rightarrow> kernel \<Rightarrow> int \<times> kernel" where
  "kos_kill c pid k =
     (case kos_call c (u_sys_kill pid) k of Some (r, k') \<Rightarrow> (sint r, k') | None \<Rightarrow> (-1, k))"

definition kos_value :: "nat \<Rightarrow> (u32 list \<Rightarrow> u32 list) \<Rightarrow> kernel \<Rightarrow> u32 \<times> kernel" where
  "kos_value c wrapper k = (case kos_call c wrapper k of Some x \<Rightarrow> x | None \<Rightarrow> (0, k))"

definition kos_yield :: "nat \<Rightarrow> kernel \<Rightarrow> kernel" where
  "kos_yield c k = timer_tick (snd (kos_value c u_sys_yield k))"

definition kernel_os :: "platform \<Rightarrow> nat \<Rightarrow> kernel os" where
  "kernel_os pl c = \<lparr>os_write = kos_write pl c, os_read = kos_fill pl c (u_sys_read 0),
     os_ps = kos_fill pl c u_sys_ps, os_kill = kos_kill c, os_getpid = kos_value c u_sys_getpid,
     os_ticks = kos_value c u_sys_ticks, os_yield = kos_yield c\<rparr>"

text \<open>The invariant of the view.\<close>

definition kos_good :: "platform \<Rightarrow> nat \<Rightarrow> kernel \<Rightarrow> bool" where
  "kos_good pl c k \<longleftrightarrow> kinv pl k \<and> current k = Some c"

section \<open>The calls\<close>

lemma u_regs_len [simp]:
  "length (u_sys_write fd b n regs) = length regs" "length (u_sys_getpid regs) = length regs"
  "length (u_sys_yield regs) = length regs" "length (u_sys_read fd b n regs) = length regs"
  "length (u_sys_ps b n regs) = length regs" "length (u_sys_kill p regs) = length regs"
  "length (u_sys_ticks regs) = length regs"
  by (simp_all add: u_wrappers)

lemma set_ret_simps [simp]:
  "current (set_ret c v k) = current k" "tx (set_ret c v k) = tx k" "pmem (set_ret c v k) = pmem k"
  "tick_count (set_ret c v k) = tick_count k" "rx_q (set_ret c v k) = rx_q k"
  "e_r (frames k c) \<noteq> [] \<Longrightarrow> e_r (frames (set_ret c v k) c) ! 0 = v"
  by (simp_all add: set_ret_def)

text \<open>A handler that returns and leaves the frames alone delivers its value to the caller.\<close>

lemma kos_call_ret:
  assumes "syscall_dispatch c (with_regs c (wrapper (replicate 13 0)) k) = Some (deliver c (Ret v k'))"
    "frames k' = frames (with_regs c (wrapper (replicate 13 0)) k)" "length (wrapper (replicate 13 0)) = 13"
  shows "kos_call c wrapper k = Some (v, set_ret c v k')"
proof -
  have "e_r (frames k' c) = wrapper (replicate 13 0)" using assms(2) by simp
  then have "e_r (frames k' c) \<noteq> []" using assms(3) by auto
  then show ?thesis using assms(1) by (simp add: kos_call_def)
qed

lemma kos_buf_valid: "n < 4096 \<Longrightarrow> valid_user_ptr kos_buf (of_nat n)" "n < 4096 \<Longrightarrow> unat (of_nat n :: u32) = n"
  by (simp_all add: kos_buf_def valid_user_ptr_iff unat_of_nat)

lemma sint_small: "n < 4096 \<Longrightarrow> sint (of_nat n :: u32) = int n"
  by (simp add: sint_uint signed_take_bit_int_eq_self uint_nat unat_of_nat)

lemma kos_write_prints:
  assumes "kos_good pl c k" "length bs < 4096"
  shows "\<exists>k'. kos_write pl c bs k = (int (length bs), k') \<and> kos_good pl c k' \<and> tx k' = tx k @ uart_puts bs \<and> rx_q k' = rx_q k"
proof -
  let ?n = "of_nat (length bs) :: u32"
  let ?k = "with_regs c (u_sys_write 1 kos_buf ?n (replicate 13 0)) (k\<lparr>pmem := store_bytes (upa pl c kos_buf) bs (pmem k)\<rparr>)"
  have g: "kinv pl ?k" "current ?k = Some c" using assms(1) by (simp_all add: kos_good_def)
  have "uread pl c kos_buf (length bs) ?k = uread pl c kos_buf (length bs) (k\<lparr>pmem := store_bytes (upa pl c kos_buf) bs (pmem k)\<rparr>)"
    by (simp add: uread_def)
  also have "\<dots> = bs" using assms(2) by (intro uread_store) simp
  finally have "sys_write 1 kos_buf ?n ?k = Ret ?n (?k\<lparr>tx := tx ?k @ uart_puts bs\<rparr>)"
    using sys_write_eq [OF g kos_buf_valid(1) [OF assms(2)], of 1] kos_buf_valid(2) [OF assms(2)] by simp
  then have "kos_call c (u_sys_write 1 kos_buf ?n) (k\<lparr>pmem := store_bytes (upa pl c kos_buf) bs (pmem k)\<rparr>) =
      Some (?n, set_ret c ?n (?k\<lparr>tx := tx ?k @ uart_puts bs\<rparr>))"
    by (intro kos_call_ret) (simp_all add: dispatch_wrappers)
  then show ?thesis using g assms(2) by (simp add: kos_write_def sint_small kos_good_def)
qed

lemma kos_ps_fills:
  assumes "kos_good pl c k" "n < 4096" "kos_fill pl c u_sys_ps n k = (r, buf, k')"
  shows "kos_good pl c k' \<and> length buf = n \<and> r \<le> int n \<and> tx k' = tx k \<and> rx_q k' = rx_q k"
proof -
  let ?k = "with_regs c (u_sys_ps kos_buf (of_nat n) (replicate 13 0)) k"
  have g: "kinv pl ?k" "current ?k = Some c" using assms(1) by (simp_all add: kos_good_def)
  let ?w = "take (n - 1) (ps_listing ?k)"
  have "sys_ps kos_buf (of_nat n) ?k =
      Ret (of_nat (length ?w)) (?k\<lparr>pmem := store_bytes (upa pl c kos_buf) ?w (pmem ?k)\<rparr>)"
    using sys_ps_eq [OF g kos_buf_valid(1) [OF assms(2)]] kos_buf_valid(2) [OF assms(2)] by (simp only: Let_def)
  then have "kos_call c (u_sys_ps kos_buf (of_nat n)) k =
      Some (of_nat (length ?w), set_ret c (of_nat (length ?w)) (?k\<lparr>pmem := store_bytes (upa pl c kos_buf) ?w (pmem ?k)\<rparr>))"
    by (intro kos_call_ret) (simp_all only: dispatch_wrappers length_replicate, simp_all)
  moreover have "length ?w < 4096" "length ?w \<le> n" using assms(2) by simp_all
  ultimately show ?thesis using assms(3) g sint_small [of "length ?w"]
    by (auto simp: kos_fill_def kos_good_def simp del: length_take)
qed

lemma kos_read_char:
  assumes "kos_good pl c k" "kos_fill pl c (u_sys_read 0) 1 k = (r, buf, k')"
  shows "kos_good pl c k' \<and> tx k' = tx k \<and>
    (case ring_list (rx_q k) of
       [] \<Rightarrow> r \<le> 0 \<and> ring_list (rx_q k') = []
     | b # bs \<Rightarrow> r = 1 \<and> buf = [b] \<and> ring_list (rx_q k') = bs)"
proof -
  let ?k = "with_regs c (u_sys_read 0 kos_buf 1 (replicate 13 0)) k"
  have g: "kinv pl ?k" "current ?k = Some c" using assms(1) by (simp_all add: kos_good_def)
  have v: "valid_user_ptr kos_buf 1" "(0 :: u32) < 1" using kos_buf_valid(1) [of 1] by simp_all
  have rd: "sys_read 0 kos_buf 1 ?k = sys_read_loop kos_buf 1 0 ?k" using v(1) by (simp add: sys_read_def)
  show ?thesis
  proof (cases rule: sys_read_loop_cases [OF g v])
    case (1 q w)
    then obtain b bs where b: "ring_list (rx_q k) = b # bs" "w = [b]" by (cases "ring_list (rx_q k)") auto
    let ?k1 = "?k\<lparr>rx_q := q, pmem := store_bytes (upa pl c kos_buf) w (pmem ?k)\<rparr>"
    have "kinv pl ?k1" using sys_read_loop_ok [OF g v 1(3)] by simp
    then have good: "kos_good pl c (set_ret c 1 ?k1)" using g(2) by (simp add: kos_good_def)
    have "kos_call c (u_sys_read 0 kos_buf 1) k = Some (1, set_ret c 1 ?k1)"
      using 1(3) rd b(2) by (intro kos_call_ret) (simp_all add: dispatch_wrappers)
    moreover have "uread pl c kos_buf 1 (set_ret c 1 ?k1) = [b]"
      using uread_store [where bs = "[b]" and pl = pl and c = c and va = kos_buf and k = ?k and m = "pmem ?k"] b(2) by (simp add: uread_def)
    ultimately have "r = 1" "buf = [b]" "k' = set_ret c 1 ?k1" using assms(2) by (auto simp: kos_fill_def)
    then show ?thesis using good b 1(5) by simp
  qed (use assms rd in \<open>auto simp: kos_fill_def kos_call_def dispatch_wrappers simp del: ring_list_Nil_iff\<close>)
qed

lemma sys_kill_returns: "\<exists>v k'. sys_kill pid k = Ret v k'"
  by (simp add: sys_kill_def Let_def)

lemma sys_kill_current: "sys_kill pid k = Ret v k' \<Longrightarrow> current k' = current k \<and> rx_q k' = rx_q k"
  by (auto simp: sys_kill_def Let_def kprintf_def scheduler_request_resched_def split: if_splits option.splits)

lemma kos_kill_good:
  assumes "kos_good pl c k" "kos_kill c pid k = (r, k')"
  shows "kos_good pl c k' \<and> rx_q k' = rx_q k"
proof -
  let ?k = "with_regs c (u_sys_kill pid (replicate 13 0)) k"
  have g: "kinv pl ?k" "current ?k = Some c" using assms(1) by (simp_all add: kos_good_def)
  obtain v k'' where v: "sys_kill pid ?k = Ret v k''" using sys_kill_returns by blast
  have "kos_good pl c k''" using sys_kill_ok [OF g(1), of pid] sys_kill_current [OF v] v g(2) by (simp add: kos_good_def)
  moreover have "rx_q k'' = rx_q k" using sys_kill_current [OF v] by simp
  ultimately show ?thesis using assms v by (auto simp: kos_kill_def kos_call_def dispatch_wrappers kos_good_def)
qed

lemma kos_getpid_good:
  assumes "kos_good pl c k" "kos_value c u_sys_getpid k = (v, k')"
  shows "kos_good pl c k' \<and> tx k' = tx k \<and> v = of_nat c \<and> rx_q k' = rx_q k"
proof -
  let ?k = "with_regs c (u_sys_getpid (replicate 13 0)) k"
  have "p_pid (processes k ! c) = of_nat c"
    using assms(1) by (auto simp: kos_good_def dest!: kinvD(1) elim!: sched_invD)
  then have "kos_call c u_sys_getpid k = Some (of_nat c, set_ret c (of_nat c) ?k)"
    using assms(1) by (intro kos_call_ret) (simp_all add: dispatch_wrappers sys_getpid_def current_pid_def kos_good_def)
  then show ?thesis using assms by (auto simp: kos_value_def kos_good_def)
qed

lemma kos_ticks_reads:
  assumes "kos_good pl c k" "kos_value c u_sys_ticks k = (t, k')"
  shows "kos_good pl c k' \<and> tx k' = tx k \<and> t = tick_count k \<and> tick_count k' = tick_count k"
proof -
  let ?k = "with_regs c (u_sys_ticks (replicate 13 0)) k"
  have "kos_call c u_sys_ticks k = Some (tick_count k, set_ret c (tick_count k) ?k)"
    by (rule kos_call_ret) (simp_all add: dispatch_wrappers sys_ticks_def timer_get_ticks_def)
  then show ?thesis using assms by (auto simp: kos_value_def kos_good_def)
qed

lemma kos_yield_later:
  assumes "kos_good pl c k"
  shows "kos_good pl c (kos_yield c k) \<and> tx (kos_yield c k) = tx k \<and> tick_count (kos_yield c k) = tick_count k + 1"
proof -
  let ?k = "scheduler_request_resched (with_regs c (u_sys_yield (replicate 13 0)) k)"
  have f: "frames ?k = frames (with_regs c (u_sys_yield (replicate 13 0)) k)" "tx ?k = tx k" "tick_count ?k = tick_count k"
    "current ?k = current k" by (simp_all add: scheduler_request_resched_def)
  have "kos_call c u_sys_yield k = Some (0, set_ret c 0 ?k)"
    by (rule kos_call_ret) (simp_all add: dispatch_wrappers sys_yield_def f)
  moreover have "tx (timer_tick k) = tx k" for k
    by (cases "user_handler k"; simp add: timer_tick_def; cases "the (user_handler k)"; simp add: scheduler_tick_def)
  ultimately show ?thesis using assms f by (simp add: kos_yield_def kos_value_def kos_good_def frame)
qed

section \<open>The kernel keeps its promises\<close>

lemma uart_puts_concat: "uart_puts bs = concat (map uart_putc bs)"
  by (induction bs) simp_all

interpretation kos: clocked_os "kernel_os pl c" "kos_good pl c" tx "of_nat c" tick_count
proof unfold_locales
  fix k :: kernel and bs r k'
  assume a: "kos_good pl c k" "length bs < 4096" "os_write (kernel_os pl c) bs k = (r, k')"
  then show "kos_good pl c k' \<and> r = int (length bs) \<and> tx k' = tx k @ concat (map uart_putc bs)"
    using kos_write_prints [OF a(1,2)] by (auto simp: kernel_os_def uart_puts_concat)
next
  fix k :: kernel and n r buf k'
  assume a: "kos_good pl c k" "n < 4096" "os_ps (kernel_os pl c) n k = (r, buf, k')"
  then show "kos_good pl c k' \<and> length buf = n \<and> r \<le> int n \<and> tx k' = tx k"
    using kos_ps_fills [OF a(1,2)] by (simp add: kernel_os_def)
next
  fix k :: kernel and pid r k'
  assume "kos_good pl c k" "os_kill (kernel_os pl c) pid k = (r, k')"
  then show "kos_good pl c k'" using kos_kill_good [of pl c k pid r k'] by (simp add: kernel_os_def)
next
  fix k :: kernel and v k'
  assume a: "kos_good pl c k" "os_getpid (kernel_os pl c) k = (v, k')"
  then show "kos_good pl c k' \<and> tx k' = tx k \<and> v = of_nat c" using kos_getpid_good [OF a(1)] by (simp add: kernel_os_def)
next
  fix k :: kernel and t k'
  assume a: "kos_good pl c k" "os_ticks (kernel_os pl c) k = (t, k')"
  show "kos_good pl c k' \<and> tx k' = tx k \<and> t = tick_count k \<and> tick_count k' = tick_count k"
    by (rule kos_ticks_reads [OF a(1)]) (use a(2) in \<open>simp add: kernel_os_def\<close>)
next
  fix k :: kernel
  assume a: "kos_good pl c k"
  have "\<exists>d. 1 \<le> d \<and> d < 2 ^ 31 \<and> tick_count k + 1 = tick_count k + of_nat d" by (intro exI [of _ 1]) simp
  then show "kos_good pl c (os_yield (kernel_os pl c) k) \<and> tx (os_yield (kernel_os pl c) k) = tx k \<and>
      (\<exists>d. 1 \<le> d \<and> d < 2 ^ 31 \<and> tick_count (os_yield (kernel_os pl c) k) = tick_count k + of_nat d)"
    unfolding kernel_os_def os.simps using kos_yield_later [OF a] by (simp only: simp_thms)
qed

interpretation kin: input_os "kernel_os pl c" "kos_good pl c" tx "of_nat c" "\<lambda>k. ring_list (rx_q k)"
proof unfold_locales
  fix k :: kernel and r buf k'
  assume a: "kos_good pl c k" "os_read (kernel_os pl c) 1 k = (r, buf, k')"
  then show "kos_good pl c k' \<and> tx k' = tx k \<and>
      (case ring_list (rx_q k) of [] \<Rightarrow> r \<le> 0 \<and> ring_list (rx_q k') = []
       | b # bs \<Rightarrow> r = 1 \<and> buf = [b] \<and> ring_list (rx_q k') = bs)"
    by (intro kos_read_char) (simp_all add: kernel_os_def)
next
  fix k :: kernel and bs r k'
  assume a: "kos_good pl c k" "length bs < 4096" "os_write (kernel_os pl c) bs k = (r, k')"
  then show "ring_list (rx_q k') = ring_list (rx_q k)" using kos_write_prints [OF a(1,2)] by (auto simp: kernel_os_def)
next
  fix k :: kernel and n r buf k'
  assume a: "kos_good pl c k" "n < 4096" "os_ps (kernel_os pl c) n k = (r, buf, k')"
  then show "ring_list (rx_q k') = ring_list (rx_q k)" using kos_ps_fills [OF a(1,2)] by (simp add: kernel_os_def)
next
  fix k :: kernel and pid r k'
  assume "kos_good pl c k" "os_kill (kernel_os pl c) pid k = (r, k')"
  then show "ring_list (rx_q k') = ring_list (rx_q k)" using kos_kill_good [of pl c k pid r k'] by (simp add: kernel_os_def)
next
  fix k :: kernel and v k'
  assume a: "kos_good pl c k" "os_getpid (kernel_os pl c) k = (v, k')"
  then show "ring_list (rx_q k') = ring_list (rx_q k)" using kos_getpid_good [OF a(1)] by (simp add: kernel_os_def)
qed

text \<open>The first process of the example system.\<close>

lemma demo_good: "kos_good Qemu 0 demo_kernel"
  by (simp add: kos_good_def demo_kinv)

end
