(* ===== verification/Shell.thy ===== *)
theory Shell
  imports Kernel_os
begin

text \<open>
  The interactive shell, \<open>src/user/apps/shell/shell.c\<close>: the line editor, the command parser and the
  commands. \<open>Segv\<close> is the store through a null pointer of the \<open>crash\<close> command, which ends the
  process; \<open>None\<close> is an access outside an array or a signed overflow.

  The loop of \<open>main\<close> does not end; \<open>shell_run n\<close> is its first \<open>n\<close> iterations. The editor is compared
  with \<open>key_edit\<close>, which acts on the text of the line, and the parser with \<open>parse\<close>, which splits
  it into a word and an argument.
\<close>

section \<open>Parsing\<close>

definition LINE_MAX :: u32 where "LINE_MAX = 64"

fun skip_spaces :: "u8 list \<Rightarrow> u8 list option" where
  "skip_spaces [] = None"
| "skip_spaces (c # s) = (if c = 32 \<or> c = 9 then skip_spaces s else Some (c # s))"

text \<open>The inner \<open>None\<close> is the null pointer.\<close>

definition match_word :: "u8 list \<Rightarrow> u8 list \<Rightarrow> u8 list option option" where
  "match_word s word =
     Option.bind (ulib_strlen word) (\<lambda>n.
     Option.bind (ulib_strncmp s word n) (\<lambda>d.
     if d \<noteq> 0 then Some None
     else (case drop (unat n) s of
             [] \<Rightarrow> None
           | c # _ \<Rightarrow>
               if c \<noteq> 0 \<and> c \<noteq> 32 \<and> c \<noteq> 9 then Some None
               else Option.bind (skip_spaces (drop (unat n) s)) (\<lambda>p. Some (Some p)))))"

section \<open>Commands\<close>

datatype 's ures = Done 's | Segv 's

text \<open>A string literal, with its terminator, printed.\<close>

definition say :: "'s os \<Rightarrow> u8 list \<Rightarrow> 's \<Rightarrow> 's ures option" where
  "say os txt s = Option.bind (ulib_puts os (txt @ [0]) s) (\<lambda>s. Some (Done s))"

definition prompt :: "'s os \<Rightarrow> 's \<Rightarrow> 's ures option" where
  "prompt os s = say os (bytes ''shell> '') s"

definition help_text :: "u8 list" where
  "help_text = bytes ''commands:'' @ [10]
     @ bytes ''  help         '' @ emdash @ bytes '' this list'' @ [10]
     @ bytes ''  ps           '' @ emdash @ bytes '' list processes'' @ [10]
     @ bytes ''  kill <pid>   '' @ emdash @ bytes '' kill a process'' @ [10]
     @ bytes ''  echo <text>  '' @ emdash @ bytes '' print text'' @ [10]
     @ bytes ''  clear        '' @ emdash @ bytes '' clear the screen'' @ [10]
     @ bytes ''  crash        '' @ emdash @ bytes '' dereference NULL (demo)'' @ [10]"

definition cmd_help :: "'s os \<Rightarrow> 's \<Rightarrow> 's ures option" where
  "cmd_help os s = say os help_text s"

definition cmd_ps :: "'s os \<Rightarrow> 's \<Rightarrow> 's ures option" where
  "cmd_ps os s =
     (case os_ps os 256 s of (n, buf, s) \<Rightarrow>
        if n > 0 then
          (if nat n \<le> length buf then Some (Done (snd (os_write os (take (nat n) buf) s))) else None)
        else Some (Done s))"

definition cmd_kill :: "'s os \<Rightarrow> u8 list \<Rightarrow> 's \<Rightarrow> 's ures option" where
  "cmd_kill os arg s =
     (case arg of
        [] \<Rightarrow> None
      | c # _ \<Rightarrow>
          if c = 0 then say os (bytes ''usage: kill <pid>'' @ [10]) s
          else Option.bind (ulib_atoi arg) (\<lambda>pid.
            case os_kill os (word_of_int pid) s of (rc, s) \<Rightarrow>
              if rc \<noteq> 0 then say os (bytes ''kill: bad pid'' @ [10]) s else Some (Done s)))"

definition cmd_echo :: "'s os \<Rightarrow> u8 list \<Rightarrow> 's \<Rightarrow> 's ures option" where
  "cmd_echo os arg s = Option.bind (ulib_puts os arg s) (\<lambda>s. Some (Done (ulib_putc os 10 s)))"

definition cmd_clear :: "'s os \<Rightarrow> 's \<Rightarrow> 's ures option" where
  "cmd_clear os s = say os ([0x1B] @ bytes ''[2J'' @ [0x1B] @ bytes ''[H'') s"

definition cmd_crash :: "'s os \<Rightarrow> 's \<Rightarrow> 's ures option" where
  "cmd_crash os s =
     Option.bind (ulib_puts os (bytes ''crash: about to NULL-deref '' @ emdash
         @ bytes '' kernel should survive'' @ [10] @ [0]) s) (\<lambda>s. Some (Segv s))"

definition unknown_text :: "u8 list" where
  "unknown_text = bytes ''unknown command '' @ emdash @ bytes '' try '' @ [39] @ bytes ''help'' @ [39] @ [10]"

text \<open>\<open>if ((rest = match_word(p, w))) { \<dots>; return; }\<close>, otherwise go on.\<close>

definition on_word :: "u8 list \<Rightarrow> u8 list \<Rightarrow> (u8 list \<Rightarrow> 'a option) \<Rightarrow> 'a option \<Rightarrow> 'a option" where
  "on_word p w act otherwise =
     Option.bind (match_word p (w @ [0])) (\<lambda>m. case m of Some rest \<Rightarrow> act rest | None \<Rightarrow> otherwise)"

definition dispatch :: "'s os \<Rightarrow> u8 list \<Rightarrow> 's \<Rightarrow> 's ures option" where
  "dispatch os line s =
     Option.bind (skip_spaces line) (\<lambda>p.
     if hd p = 0 then Some (Done s)
     else on_word p (bytes ''help'') (\<lambda>rest. cmd_help os s)
         (on_word p (bytes ''ps'') (\<lambda>rest. cmd_ps os s)
         (on_word p (bytes ''kill'') (\<lambda>rest. cmd_kill os rest s)
         (on_word p (bytes ''echo'') (\<lambda>rest. cmd_echo os rest s)
         (on_word p (bytes ''clear'') (\<lambda>rest. cmd_clear os s)
         (on_word p (bytes ''crash'') (\<lambda>rest. cmd_crash os s)
         (say os unknown_text s)))))))"

section \<open>The line editor\<close>

record shell =
  sh_line :: "u8 list"
  sh_n :: u32

definition and_then :: "'s ures option \<Rightarrow> ('s \<Rightarrow> 's ures option) \<Rightarrow> 's ures option" where
  "and_then r f = Option.bind r (\<lambda>x. case x of Done s \<Rightarrow> f s | Segv s \<Rightarrow> Some (Segv s))"

text \<open>The body of the loop of \<open>main\<close> for one character.\<close>

definition shell_key :: "'s os \<Rightarrow> u8 \<Rightarrow> shell \<Rightarrow> 's \<Rightarrow> (shell \<times> 's ures) option" where
  "shell_key os c sh s =
     (let n = sh_n sh; line = sh_line sh in
      if c = 13 \<or> c = 10 then
        (if unat n < length line then
           (let line = line[unat n := 0] in
            Option.bind (and_then (and_then (say os [13, 10] s) (dispatch os line)) (prompt os)) (\<lambda>r.
              Some (\<lparr>sh_line = line, sh_n = 0\<rparr>, r)))
         else None)
      else if c = 0x08 \<or> c = 0x7F then
        (if n > 0 then
           Option.bind (say os [8, 32, 8] s) (\<lambda>r. Some (sh\<lparr>sh_n := n - 1\<rparr>, r))
         else Some (sh, Done s))
      else if n + 1 < LINE_MAX then
        (if unat n < length line then
           Some (sh\<lparr>sh_line := line[unat n := c], sh_n := n + 1\<rparr>, Done (snd (os_write os [c] s)))
         else None)
      else Some (sh, Done s))"

definition shell_iter :: "'s os \<Rightarrow> shell \<Rightarrow> 's \<Rightarrow> (shell \<times> 's ures) option" where
  "shell_iter os sh s =
     (case os_read os 1 s of (r, buf, s) \<Rightarrow>
        if r \<le> 0 then Some (sh, Done s) else shell_key os (hd buf) sh s)"

fun shell_run :: "'s os \<Rightarrow> nat \<Rightarrow> shell \<Rightarrow> 's \<Rightarrow> (shell \<times> 's ures) option" where
  "shell_run os 0 sh s = Some (sh, Done s)"
| "shell_run os (Suc i) sh s =
     Option.bind (shell_iter os sh s) (\<lambda>(sh, r).
       case r of Done s \<Rightarrow> shell_run os i sh s | Segv s \<Rightarrow> Some (sh, Segv s))"

text \<open>\<open>line\<close> is not initialised: \<open>junk\<close> is what the stack held.\<close>

definition shell_main :: "'s os \<Rightarrow> u8 list \<Rightarrow> nat \<Rightarrow> 's \<Rightarrow> (shell \<times> 's ures) option" where
  "shell_main os junk iterations s =
     Option.bind (ulib_puts os ([10] @ bytes ''RingNova shell '' @ emdash @ bytes '' type '' @ [39] @ bytes ''help''
         @ [39] @ bytes '' for commands'' @ [10] @ [0]) s) (\<lambda>s.
     Option.bind (prompt os s) (\<lambda>r.
       case r of
         Done s \<Rightarrow> shell_run os iterations \<lparr>sh_line = junk, sh_n = 0\<rparr> s
       | Segv s \<Rightarrow> Some (\<lparr>sh_line = junk, sh_n = 0\<rparr>, Segv s)))"

section \<open>References\<close>

definition shell_inv :: "shell \<Rightarrow> bool" where
  "shell_inv sh \<longleftrightarrow> length (sh_line sh) = 64 \<and> unat (sh_n sh) \<le> 63"

definition text_of :: "shell \<Rightarrow> u8 list" where
  "text_of sh = take (unat (sh_n sh)) (sh_line sh)"

text \<open>What a key does to the text of the line: at most 63 characters are kept.\<close>

definition key_edit :: "u8 list \<Rightarrow> u8 \<Rightarrow> u8 list" where
  "key_edit t c =
     (if c = 13 \<or> c = 10 then []
      else if c = 0x08 \<or> c = 0x7F then butlast t
      else if length t < 63 then t @ [c]
      else t)"

definition space :: "u8 \<Rightarrow> bool" where
  "space c \<longleftrightarrow> c = 32 \<or> c = 9"

text \<open>The first word of a line, and what follows it after spaces.\<close>

definition parse :: "u8 list \<Rightarrow> u8 list \<times> u8 list" where
  "parse t =
     (let t = dropWhile space t in
      (takeWhile (\<lambda>c. \<not> space c) t, dropWhile space (dropWhile (\<lambda>c. \<not> space c) t)))"

text \<open>Execution of a parsed command; \<open>r\<close> is what follows the line's terminator in memory.\<close>

definition exec :: "'s os \<Rightarrow> u8 list \<Rightarrow> u8 list \<Rightarrow> u8 list \<Rightarrow> 's \<Rightarrow> 's ures option" where
  "exec os w arg r s =
     (if w = [] then Some (Done s)
      else if w = bytes ''help'' then cmd_help os s
      else if w = bytes ''ps'' then cmd_ps os s
      else if w = bytes ''kill'' then cmd_kill os (arg @ 0 # r) s
      else if w = bytes ''echo'' then cmd_echo os (arg @ 0 # r) s
      else if w = bytes ''clear'' then cmd_clear os s
      else if w = bytes ''crash'' then cmd_crash os s
      else say os unknown_text s)"

section \<open>The parser\<close>

lemma skip_spaces_eq: "skip_spaces (t @ 0 # r) = Some (dropWhile space t @ 0 # r)"
  by (induction t) (auto simp: space_def)

lemma match_word_eq:
  assumes "0 \<notin> set t" "0 \<notin> set w" "\<forall>c \<in> set w. \<not> space c" "length w < 2 ^ 32"
  shows "match_word (t @ 0 # r) (w @ [0]) =
    Some (if takeWhile (\<lambda>c. \<not> space c) t = w
          then Some (dropWhile space (dropWhile (\<lambda>c. \<not> space c) t) @ 0 # r) else None)"
proof -
  let ?n = "of_nat (length w) :: u32"
  have n: "ulib_strlen (w @ [0]) = Some ?n" "unat ?n = length w"
    using ulib_strlen_eq [of "w @ [0]"] assms(2,4) by (simp_all add: unat_of_nat)
  obtain d where d: "ulib_strncmp (t @ 0 # r) (w @ [0]) ?n = Some d" "d = 0 \<longleftrightarrow> take (length w) t = w"
    using strncmp_prefix [of "t @ 0 # r" w] assms by auto
  show ?thesis
  proof (cases "take (length w) t = w")
    case False
    then have "takeWhile (\<lambda>c. \<not> space c) t \<noteq> w"
      by (metis takeWhile_eq_take)
    then show ?thesis using n d False by (simp add: match_word_def)
  next
    case True
    define q where "q = drop (length w) t"
    have t: "t = w @ q" using True append_take_drop_id [of "length w" t] by (simp add: q_def)
    have drop: "drop (unat ?n) (t @ 0 # r) = q @ 0 # r" by (simp add: n(2) t)
    have tw: "takeWhile (\<lambda>c. \<not> space c) t = w @ takeWhile (\<lambda>c. \<not> space c) q"
      "dropWhile (\<lambda>c. \<not> space c) t = dropWhile (\<lambda>c. \<not> space c) q"
      using assms(3) by (simp_all add: t takeWhile_append2 dropWhile_append2)
    show ?thesis
    proof (cases q)
      case Nil
      have "takeWhile (\<lambda>c. \<not> space c) t = w" using tw Nil by simp
      moreover have "dropWhile space (dropWhile (\<lambda>c. \<not> space c) t) = []" by (subst tw(2)) (simp add: Nil)
      ultimately show ?thesis using n d True drop Nil
        by (simp add: match_word_def del: drop_append takeWhile_eq_all_conv dropWhile_eq_Nil_conv)
    next
      case (Cons c q')
      have "c \<noteq> 0" using assms(1) t Cons by auto
      then show ?thesis using n d True drop tw Cons skip_spaces_eq [of q r]
        by (auto simp: match_word_def space_def)
    qed
  qed
qed

lemma on_word_eq:
  assumes "0 \<notin> set t" "0 \<notin> set w" "\<forall>c \<in> set w. \<not> space c" "length w < 2 ^ 32"
  shows "on_word (t @ 0 # r) w act otherwise =
    (if takeWhile (\<lambda>c. \<not> space c) t = w then act (dropWhile space (dropWhile (\<lambda>c. \<not> space c) t) @ 0 # r)
     else otherwise)"
  using match_word_eq [OF assms] by (simp add: on_word_def)

lemma dispatch_eq:
  assumes "0 \<notin> set t"
  shows "dispatch os (t @ 0 # r) s = (case parse t of (w, arg) \<Rightarrow> exec os w arg r s)"
proof -
  define t' where "t' = dropWhile space t"
  have nz: "0 \<notin> set t'" using assms by (auto simp: t'_def dest: set_dropWhileD)
  have ow: "on_word (t' @ 0 # r) w act otherwise =
    (if takeWhile (\<lambda>c. \<not> space c) t' = w then act (dropWhile space (dropWhile (\<lambda>c. \<not> space c) t') @ 0 # r) else otherwise)"
    if "w \<in> bytes ` {''help'', ''ps'', ''kill'', ''echo'', ''clear'', ''crash''}"
    for w and act :: "u8 list \<Rightarrow> 'b option" and otherwise
    by (rule on_word_eq [OF nz]) (use that in \<open>auto simp: space_def\<close>)
  have sk: "skip_spaces (t @ 0 # r) = Some (t' @ 0 # r)" using skip_spaces_eq [of t r] by (simp add: t'_def)
  have ps: "parse t = (takeWhile (\<lambda>c. \<not> space c) t', dropWhile space (dropWhile (\<lambda>c. \<not> space c) t'))"
    by (simp add: parse_def t'_def Let_def)
  show ?thesis
  proof (cases t')
    case Nil
    then show ?thesis by (simp add: dispatch_def exec_def sk ps)
  next
    case (Cons c q)
    have "dropWhile space t = c # q" using Cons by (simp add: t'_def)
    then have "\<not> space c" by (simp add: dropWhile_eq_Cons_conv)
    moreover have "c \<noteq> 0" using nz Cons by auto
    moreover have "hd (t' @ 0 # r) = c" "takeWhile (\<lambda>c. \<not> space c) t' \<noteq> []" using Cons calculation(1) by simp_all
    ultimately show ?thesis by (simp add: dispatch_def ow exec_def sk ps del: bytes_Cons)
  qed
qed

text \<open>The number after \<open>kill\<close> is read up to the terminator, whatever follows it.\<close>

lemma atoi_loop_stops: "atoi_loop (t @ 0 # r) v = atoi_loop (t @ [0]) v"
  by (induction t arbitrary: v) (simp_all add: Let_def)

definition kill_overflows :: "u8 list \<Rightarrow> bool" where
  "kill_overflows t \<longleftrightarrow>
     (case parse t of (w, arg) \<Rightarrow> w = bytes ''kill'' \<and> arg \<noteq> [] \<and> ulib_atoi (arg @ [0]) = None)"

lemma parse_no_nul:
  assumes "0 \<notin> set t" "parse t = (w, arg)"
  shows "0 \<notin> set arg" "0 \<notin> set w" "length arg \<le> length t"
proof -
  define t' where "t' = dropWhile space t"
  have p: "w = takeWhile (\<lambda>c. \<not> space c) t'" "arg = dropWhile space (dropWhile (\<lambda>c. \<not> space c) t')"
    using assms(2) by (auto simp: parse_def Let_def t'_def)
  have t': "0 \<notin> set t'" "length t' \<le> length t"
    using assms(1) by (auto simp: t'_def length_dropWhile_le dest: set_dropWhileD)
  show "0 \<notin> set arg" "0 \<notin> set w" using t'(1) by (auto simp: p dest: set_dropWhileD set_takeWhileD)
  show "length arg \<le> length t"
    using t'(2) length_dropWhile_le [of space "dropWhile (\<lambda>c. \<not> space c) t'"]
      length_dropWhile_le [of "\<lambda>c. \<not> space c" t'] by (simp add: p)
qed

section \<open>The shell on a system that keeps its promises\<close>

definition final :: "'s ures \<Rightarrow> 's" where
  "final r = (case r of Done s \<Rightarrow> s | Segv s \<Rightarrow> s)"

lemma final_simps [simp]: "final (Done s) = s" "final (Segv s) = s"
  by (simp_all add: final_def)

context user_os
begin

lemma say_prints:
  assumes "good s" "0 \<notin> set txt" "length txt < 4096"
  shows "\<exists>s'. say os txt s = Some (Done s') \<and> good s' \<and> out s' = out s @ concat (map uart_putc txt)"
  using puts_prints [of s "txt @ [0]"] assms by (auto simp: say_def)

lemma ps_returns: "good s \<Longrightarrow> \<exists>s'. cmd_ps os s = Some (Done s') \<and> good s'"
proof -
  assume "good s"
  obtain n buf s1 where ps: "os_ps os 256 s = (n, buf, s1)" by (cases "os_ps os 256 s")
  note p = ps_fills [OF \<open>good s\<close> _ ps]
  obtain r s2 where w: "os_write os (take (nat n) buf) s1 = (r, s2)" by fastforce
  have "good s2" using write_prints [OF _ _ w] p by auto
  then show ?thesis using ps p w by (auto simp: cmd_ps_def)
qed

lemma echo_prints:
  assumes "good s" "0 \<notin> set arg" "length arg < 4096"
  shows "\<exists>s'. cmd_echo os (arg @ 0 # r) s = Some (Done s') \<and> good s' \<and>
    out s' = out s @ concat (map uart_putc (arg @ [10]))"
proof -
  obtain s1 where s1: "ulib_puts os (arg @ 0 # r) s = Some s1" "good s1" "out s1 = out s @ concat (map uart_putc arg)"
    using puts_prints [of s "arg @ 0 # r"] assms by auto
  then show ?thesis using putc_prints [OF s1(2), of 10] by (simp add: cmd_echo_def)
qed

lemma kill_returns:
  assumes "good s" "0 \<notin> set arg" "arg = [] \<or> ulib_atoi (arg @ [0]) \<noteq> None"
  shows "\<exists>s'. cmd_kill os (arg @ 0 # r) s = Some (Done s') \<and> good s'"
proof (cases arg)
  case Nil
  then show ?thesis using say_prints [OF assms(1), of "bytes ''usage: kill <pid>'' @ [10]"]
    by (auto simp: cmd_kill_def)
next
  case (Cons c q)
  have "ulib_atoi (arg @ 0 # r) = ulib_atoi (arg @ [0])" unfolding ulib_atoi_def by (rule atoi_loop_stops)
  then obtain pid where pid: "ulib_atoi (arg @ 0 # r) = Some pid" using assms(3) Cons by auto
  obtain rc s1 where k: "os_kill os (word_of_int pid) s = (rc, s1)" by fastforce
  have g: "good s1" using kill_good [OF assms(1) k] .
  have "c \<noteq> 0" using assms(2) Cons by auto
  then have "cmd_kill os (arg @ 0 # r) s =
      (if rc \<noteq> 0 then say os (bytes ''kill: bad pid'' @ [10]) s1 else Some (Done s1))"
    using pid k Cons by (simp add: cmd_kill_def)
  then show ?thesis using g say_prints [OF g, of "bytes ''kill: bad pid'' @ [10]"] by auto
qed

lemma crash_faults: "good s \<Longrightarrow> \<exists>s'. cmd_crash os s = Some (Segv s') \<and> good s'"
  using puts_prints [of s "bytes ''crash: about to NULL-deref '' @ emdash @ bytes '' kernel should survive'' @ [10] @ [0]"]
  by (auto simp: cmd_crash_def emdash_def)

lemma exec_returns:
  assumes "good s" "0 \<notin> set arg" "length arg < 4096"
    "\<not> (w = bytes ''kill'' \<and> arg \<noteq> [] \<and> ulib_atoi (arg @ [0]) = None)"
  shows "\<exists>x. exec os w arg r s = Some x \<and> good (final x) \<and> (\<exists>s'. x = Segv s') = (w = bytes ''crash'')"
proof -
  have lit: "0 \<notin> set help_text \<and> length help_text < 4096" "0 \<notin> set unknown_text \<and> length unknown_text < 4096"
    "0 \<notin> set ([0x1B] @ bytes ''[2J'' @ [0x1B] @ bytes ''[H'' :: u8 list)"
    by (simp_all add: help_text_def unknown_text_def emdash_def)
  consider "w = []" | "w = bytes ''help''" | "w = bytes ''ps''" | "w = bytes ''kill''" | "w = bytes ''echo''"
    | "w = bytes ''clear''" | "w = bytes ''crash''"
    | "w \<notin> {[], bytes ''help'', bytes ''ps'', bytes ''kill'', bytes ''echo'', bytes ''clear'', bytes ''crash''}"
    by blast
  then show ?thesis
  proof cases
    case 1 then show ?thesis using assms(1) by (simp add: exec_def)
  next
    case 2 then show ?thesis using say_prints [OF assms(1), of help_text] lit(1) by (auto simp: exec_def cmd_help_def)
  next
    case 3 then show ?thesis using ps_returns [OF assms(1)] by (auto simp: exec_def)
  next
    case 4 then show ?thesis using kill_returns [OF assms(1,2), of r] assms(4) by (auto simp: exec_def)
  next
    case 5 then show ?thesis using echo_prints [OF assms(1,2,3), of r] by (auto simp: exec_def)
  next
    case 6 then show ?thesis using say_prints [OF assms(1) lit(3)] by (auto simp: exec_def cmd_clear_def)
  next
    case 7 then show ?thesis using crash_faults [OF assms(1)] by (auto simp: exec_def)
  next
    case 8 then show ?thesis using say_prints [OF assms(1), of unknown_text] lit(2)
      by (auto simp: exec_def simp del: bytes_Cons)
  qed
qed

lemma dispatch_returns:
  assumes "good s" "0 \<in> set line" "length line < 4096" "\<not> kill_overflows (cstr line)"
  shows "\<exists>x. dispatch os line s = Some x \<and> good (final x) \<and>
    (\<exists>s'. x = Segv s') = (fst (parse (cstr line)) = bytes ''crash'')"
proof -
  obtain r where r: "line = cstr line @ 0 # r" "0 \<notin> set (cstr line)" using cstr_split [OF assms(2)] by blast
  obtain w arg where p: "parse (cstr line) = (w, arg)" by fastforce
  have "length (cstr line) \<le> length line" by (simp add: cstr_def length_takeWhile_le)
  then have "length arg < 4096" using parse_no_nul(3) [OF r(2) p] assms(3) by simp
  then have "\<exists>x. exec os w arg r s = Some x \<and> good (final x) \<and> (\<exists>s'. x = Segv s') = (w = bytes ''crash'')"
    using assms(4) p by (intro exec_returns [OF assms(1) parse_no_nul(1) [OF r(2) p]]) (auto simp: kill_overflows_def)
  moreover have "dispatch os line s = exec os w arg r s"
    using dispatch_eq [OF r(2), of os r s] p r(1) by simp
  ultimately show ?thesis using p by simp
qed

lemma key_refines:
  assumes "good s" "shell_inv sh" "c = 13 \<or> c = 10 \<Longrightarrow> \<not> kill_overflows (cstr (text_of sh))"
  shows "\<exists>sh' x. shell_key os c sh s = Some (sh', x) \<and> shell_inv sh' \<and> good (final x) \<and>
    text_of sh' = key_edit (text_of sh) c \<and>
    (\<exists>s'. x = Segv s') = ((c = 13 \<or> c = 10) \<and> fst (parse (cstr (text_of sh))) = bytes ''crash'')"
proof -
  let ?n = "unat (sh_n sh)"
  have n: "?n < length (sh_line sh)" "?n \<le> 63" "length (sh_line sh) = 64" using assms(2) by (simp_all add: shell_inv_def)
  consider (enter) "c = 13 \<or> c = 10" | (erase) "c = 0x08 \<or> c = 0x7F" | (other) "c \<notin> {13, 10, 0x08, 0x7F}" by blast
  then show ?thesis
  proof cases
    case enter
    let ?line = "(sh_line sh)[?n := 0]"
    have "?line = text_of sh @ 0 # drop (Suc ?n) (sh_line sh)"
      using n(1) by (simp add: text_of_def upd_conv_take_nth_drop)
    then have cs: "cstr ?line = cstr (text_of sh)" "0 \<in> set ?line"
      by (auto simp: cstr_def takeWhile_append takeWhile_eq_all_conv [THEN iffD2])
    obtain s1 where s1: "say os [13, 10] s = Some (Done s1)" "good s1" using say_prints [OF assms(1), of "[13, 10]"] by auto
    obtain x where x: "dispatch os ?line s1 = Some x" "good (final x)"
      "(\<exists>s'. x = Segv s') = (fst (parse (cstr (text_of sh))) = bytes ''crash'')"
      using dispatch_returns [OF s1(2) cs(2)] assms(3) [OF enter] n cs(1) by auto
    have inv: "shell_inv \<lparr>sh_line = ?line, sh_n = 0\<rparr>" "text_of \<lparr>sh_line = ?line, sh_n = 0\<rparr> = []"
      using n by (simp_all add: shell_inv_def text_of_def)
    show ?thesis
    proof (cases x)
      case (Done s2)
      obtain s3 where "prompt os s2 = Some (Done s3)" "good s3"
        using say_prints [of s2 "bytes ''shell> ''"] x(2) Done by (auto simp: prompt_def)
      then show ?thesis using enter inv s1 x Done n
        by (auto simp: shell_key_def and_then_def key_edit_def Let_def simp del: bytes_Cons)
    next
      case (Segv s2)
      then show ?thesis using enter inv s1 x n
        by (auto simp: shell_key_def and_then_def key_edit_def Let_def simp del: bytes_Cons)
    qed
  next
    case erase
    obtain s1 where s1: "say os [8, 32, 8] s = Some (Done s1)" "good s1" using say_prints [OF assms(1), of "[8, 32, 8]"] by auto
    have "unat (sh_n sh - 1) = ?n - 1" if "sh_n sh > 0" using that by (simp add: unat_minus_one word_gt_0)
    then have "text_of (sh\<lparr>sh_n := sh_n sh - 1\<rparr>) = butlast (text_of sh)" "shell_inv (sh\<lparr>sh_n := sh_n sh - 1\<rparr>)"
      if "sh_n sh > 0" using that n by (auto simp: text_of_def shell_inv_def butlast_take)
    moreover have "text_of sh = []" if "\<not> sh_n sh > 0" using that by (simp add: text_of_def word_gt_0)
    ultimately show ?thesis using erase s1 assms(1,2)
      by (cases "sh_n sh > 0") (auto simp: shell_key_def key_edit_def Let_def)
  next
    case other
    have lim: "sh_n sh + 1 < LINE_MAX \<longleftrightarrow> ?n < 63" "?n < 63 \<longrightarrow> unat (sh_n sh + 1) = ?n + 1"
      using n(2) by (auto simp: LINE_MAX_def word_less_nat_alt unat_word_ariths)
    obtain r s1 where w: "os_write os [c] s = (r, s1)" by fastforce
    have g: "good s1" using write_prints [OF assms(1) _ w] by simp
    have len: "length (text_of sh) = ?n" using n by (simp add: text_of_def)
    have "text_of (sh\<lparr>sh_line := (sh_line sh)[?n := c], sh_n := sh_n sh + 1\<rparr>) = text_of sh @ [c]"
      "shell_inv (sh\<lparr>sh_line := (sh_line sh)[?n := c], sh_n := sh_n sh + 1\<rparr>)" if "?n < 63"
      using that lim n by (simp_all add: text_of_def shell_inv_def take_Suc_conv_app_nth)
    then show ?thesis using other lim n g w assms(1,2) len
      by (cases "?n < 63") (auto simp: shell_key_def key_edit_def Let_def)
  qed
qed

end

section \<open>A session\<close>

text \<open>No line of the session crashes the shell or overflows the number after \<open>kill\<close>.\<close>

fun session_ok :: "u8 list \<Rightarrow> u8 list \<Rightarrow> bool" where
  "session_ok t [] \<longleftrightarrow> True"
| "session_ok t (c # cs) \<longleftrightarrow>
     (c = 13 \<or> c = 10 \<longrightarrow> \<not> kill_overflows (cstr t) \<and> fst (parse (cstr t)) \<noteq> bytes ''crash'') \<and>
     session_ok (key_edit t c) cs"

context input_os
begin

lemma keeps_input: "user_os os (\<lambda>s. good s \<and> inp s = xs) out mypid"
  by unfold_locales (auto dest: write_prints ps_fills kill_good getpid_good write_inp ps_inp kill_inp getpid_inp)

lemma iter_reads:
  assumes "good s" "shell_inv sh" "session_ok (text_of sh) (inp s)"
  shows "\<exists>sh' s'. shell_iter os sh s = Some (sh', Done s') \<and> good s' \<and> shell_inv sh' \<and> inp s' = tl (inp s) \<and>
    text_of sh' = foldl key_edit (text_of sh) (take 1 (inp s)) \<and> session_ok (text_of sh') (inp s')"
proof -
  obtain r buf s1 where rd: "os_read os 1 s = (r, buf, s1)" by (cases "os_read os 1 s")
  note law = read_char [OF assms(1) rd]
  show ?thesis
  proof (cases "inp s")
    case Nil
    then show ?thesis using law rd assms by (simp add: shell_iter_def)
  next
    case (Cons c cs)
    have ok: "c = 13 \<or> c = 10 \<longrightarrow> \<not> kill_overflows (cstr (text_of sh)) \<and> fst (parse (cstr (text_of sh))) \<noteq> bytes ''crash''"
      "session_ok (key_edit (text_of sh) c) cs"
      using assms(3) Cons by simp_all
    have s1: "good s1 \<and> inp s1 = cs" "r = 1" "buf = [c]" using law Cons by simp_all
    from user_os.key_refines [OF keeps_input s1(1) assms(2), of c] ok(1)
    obtain sh' x where k: "shell_key os c sh s1 = Some (sh', x)" "shell_inv sh'" "good (final x)" "inp (final x) = cs"
      "text_of sh' = key_edit (text_of sh) c" "\<nexists>s'. x = Segv s'"
      by blast
    then obtain s' where "x = Done s'" by (cases x) auto
    then show ?thesis using k rd s1 ok(2) Cons by (simp add: shell_iter_def)
  qed
qed

lemma session_runs:
  assumes "good s" "shell_inv sh" "session_ok (text_of sh) (inp s)" "length (inp s) \<le> n"
  shows "\<exists>sh' s'. shell_run os n sh s = Some (sh', Done s') \<and> good s' \<and> shell_inv sh' \<and> inp s' = [] \<and>
    text_of sh' = foldl key_edit (text_of sh) (inp s)"
  using assms
proof (induction n arbitrary: sh s)
  case (Suc n)
  from iter_reads [OF Suc.prems(1-3)] obtain sh1 s1 where s1: "shell_iter os sh s = Some (sh1, Done s1)" "good s1" "shell_inv sh1"
    "inp s1 = tl (inp s)" "text_of sh1 = foldl key_edit (text_of sh) (take 1 (inp s))" "session_ok (text_of sh1) (inp s1)"
    by blast
  have "length (inp s1) \<le> n" using Suc.prems(4) s1(4) by simp
  from Suc.IH [OF s1(2,3,6) this] show ?case using s1 by (cases "inp s") simp_all
qed simp

end

lemma sys_kill_zero:
  assumes "length (processes k) = 3"
  shows "\<exists>k'. sys_kill 0 k = Ret 0 k' \<and> pstate k' 0 = TASK_DEAD \<and> frames k' = frames k"
proof (cases "pstate k 0 = TASK_DEAD")
  case True
  then show ?thesis by (simp add: sys_kill_def NUM_PROCESSES_def word_le_nat_alt)
next
  case False
  then obtain o' where "sys_kill 0 k = Ret 0 (scheduler_request_resched (set_state 0 TASK_DEAD (k\<lparr>tx := o'\<rparr>)))"
    using sys_kill_eq [of 0 k] by (auto simp: NUM_PROCESSES_def word_less_nat_alt simp del: bytes_Cons)
  moreover have "pstate (scheduler_request_resched k) 0 = pstate k 0" for k by (simp add: pstate_def scheduler_request_resched_def)
  ultimately show ?thesis using assms by (simp add: scheduler_request_resched_def)
qed

section \<open>Properties\<close>

text \<open>C23: One key press, on a system that keeps the promises of \<open>user_os\<close>: the shell handles it without
  leaving its 64-byte line buffer, and the text of the line changes as the reference editor says
  (Enter clears it, backspace drops the last character, anything else is appended up to 63
  characters). A null-pointer store happens exactly if the line entered is the \<open>crash\<close> command.
  The only lines excluded are \<open>kill\<close> commands whose number overflows an \<open>int\<close>.\<close>

theorem shell_edits_line:
  assumes "user_os os good out mypid" "good s" "shell_inv sh"
    "c = 13 \<or> c = 10 \<Longrightarrow> \<not> kill_overflows (cstr (text_of sh))"
  shows "\<exists>sh' x. shell_key os c sh s = Some (sh', x) \<and> shell_inv sh' \<and> good (final x) \<and>
    text_of sh' = key_edit (text_of sh) c \<and>
    (\<exists>s'. x = Segv s') = ((c = 13 \<or> c = 10) \<and> fst (parse (cstr (text_of sh))) = bytes ''crash'')"
  by (rule user_os.key_refines [OF assms])

theorem shell_edits_line_witness:
  "\<exists>sh' x. shell_key (kernel_os Qemu 0) 13 \<lparr>sh_line = bytes ''crash'' @ replicate 59 7, sh_n = 5\<rparr> demo_kernel = Some (sh', x) \<and>
     text_of sh' = [] \<and> (\<exists>s'. x = Segv s')"
proof -
  let ?sh = "\<lparr>sh_line = bytes ''crash'' @ replicate 59 7, sh_n = 5\<rparr>"
  have t: "cstr (text_of ?sh) = bytes ''crash''" by (simp add: text_of_def)
  have p: "parse (bytes ''crash'') = (bytes ''crash'', [])" by (simp add: parse_def space_def)
  have "shell_inv ?sh" by (simp add: shell_inv_def)
  moreover have "\<not> kill_overflows (cstr (text_of ?sh))" unfolding t kill_overflows_def p by simp
  ultimately show ?thesis
    using shell_edits_line [OF kos.user_os_axioms demo_good, of ?sh 13] unfolding t p by (auto simp: key_edit_def)
qed



text \<open>C24: The shell's parser, which walks over the line with string comparisons, runs the command that
  the first blank-separated word of the line names, with the rest of the line without its leading
  blanks as argument; an empty line does nothing and an unknown word is reported.\<close>

theorem shell_parses:
  assumes "0 \<notin> set t"
  shows "dispatch os (t @ 0 # r) s = (case parse t of (w, arg) \<Rightarrow> exec os w arg r s)"
  by (rule dispatch_eq [OF assms])

theorem shell_parses_witness:
  "dispatch (kernel_os Qemu 0) (bytes ''  echo  a b'' @ [0]) demo_kernel =
     cmd_echo (kernel_os Qemu 0) (bytes ''a b'' @ [0]) demo_kernel"
proof -
  have p: "parse (bytes ''  echo  a b'') = (bytes ''echo'', bytes ''a b'')" by (simp add: parse_def space_def)
  show ?thesis using shell_parses [of "bytes ''  echo  a b''" "kernel_os Qemu 0" "[]" demo_kernel]
    unfolding p by (simp add: exec_def)
qed

text \<open>The argument of \<open>kill\<close> is not checked to be a number: a word that does not start with a digit is
  read as 0, so on this kernel process 0 is killed and no error is reported.\<close>

lemma kill_non_number:
  assumes "kos_good pl c k" "b \<noteq> 0" "\<not> (48 \<le> b \<and> b \<le> 57)"
  shows "\<exists>k'. cmd_kill (kernel_os pl c) (b # rest) k = Some (Done k') \<and> pstate k' 0 = TASK_DEAD"
proof -
  let ?k = "with_regs c (u_sys_kill 0 (replicate 13 0)) k"
  have g: "kinv pl ?k" using assms(1) by (simp add: kos_good_def)
  then have len: "length (processes k) = 3" by (auto dest!: kinvD(1) elim!: sched_invD)
  obtain k' where v: "sys_kill 0 ?k = Ret 0 k'" "pstate k' 0 = TASK_DEAD" "frames k' = frames ?k"
    using sys_kill_zero [of ?k] len by auto
  have "kos_call c (u_sys_kill 0) k = Some (0, set_ret c 0 k')"
    by (rule kos_call_ret) (simp_all add: dispatch_wrappers v)
  then have "os_kill (kernel_os pl c) 0 k = (0, set_ret c 0 k')" by (simp add: kernel_os_def kos_kill_def)
  moreover have "ulib_atoi (b # rest) = Some 0" using assms(3) by (auto simp: ulib_atoi_def)
  moreover have "pstate (set_ret c 0 k') 0 = TASK_DEAD" using v(2) by (simp add: pstate_def set_ret_def)
  ultimately show ?thesis using assms(2) by (simp add: cmd_kill_def)
qed

end
