(* ===== verification/Apps.thy ===== *)
theory Apps
  imports Kernel_os
begin

text \<open>
  The other two user programs, \<open>src/user/apps/counter/counter.c\<close> and
  \<open>src/user/apps/runaway/runaway.c\<close>. Their loops do not end: \<open>counter_main n\<close> runs the first \<open>n\<close>
  iterations, and \<open>runaway_main n\<close> the first \<open>n\<close> turns of the inner loop of \<open>runaway\<close>, which only counts.
  \<open>delay_wall\<close> waits for the clock; as nothing in the program bounds the wait it is a
  \<open>partial_function\<close>, and on a \<open>clocked_os\<close> it is shown to return.
\<close>

section \<open>counter.c\<close>

definition DELAY_TICKS :: u32 where "DELAY_TICKS = 300"

partial_function (option) delay_loop :: "'s os \<Rightarrow> u32 \<Rightarrow> u32 \<Rightarrow> 's \<Rightarrow> 's option" where
  "delay_loop os ticks start s =
     (case os_ticks os s of (t, s) \<Rightarrow>
        if t - start < ticks then delay_loop os ticks start (os_yield os s) else Some s)"

definition delay_wall :: "'s os \<Rightarrow> u32 \<Rightarrow> 's \<Rightarrow> 's option" where
  "delay_wall os ticks s = (case os_ticks os s of (start, s) \<Rightarrow> delay_loop os ticks start s)"

text \<open>One iteration; the pair holds \<open>count\<close> and \<open>prev\<close>.\<close>

definition counter_iter :: "'s os \<Rightarrow> u32 \<times> u32 \<Rightarrow> 's \<Rightarrow> ((u32 \<times> u32) \<times> 's) option" where
  "counter_iter os v s =
     (case v of (count, prev) \<Rightarrow>
      case os_ticks os s of (now, s) \<Rightarrow>
      let dt = now - prev in
      Option.bind (ulib_tag os s) (\<lambda>s.
      Option.bind (ulib_puts os (bytes ''count='' @ [0]) s) (\<lambda>s.
      Option.bind (ulib_putu os count s) (\<lambda>s.
      Option.bind (ulib_puts os (bytes ''  dt='' @ [0]) s) (\<lambda>s.
      Option.bind (ulib_putu os (dt * 10) s) (\<lambda>s.
      Option.bind (ulib_puts os (bytes ''ms'' @ [10, 0]) s) (\<lambda>s.
      Option.bind (delay_wall os DELAY_TICKS s) (\<lambda>s.
        Some ((count + 1, now), s)))))))))"

fun counter_loop :: "'s os \<Rightarrow> nat \<Rightarrow> u32 \<times> u32 \<Rightarrow> 's \<Rightarrow> ((u32 \<times> u32) \<times> 's) option" where
  "counter_loop os 0 v s = Some (v, s)"
| "counter_loop os (Suc n) v s = Option.bind (counter_iter os v s) (\<lambda>(v, s). counter_loop os n v s)"

definition counter_main :: "'s os \<Rightarrow> nat \<Rightarrow> 's \<Rightarrow> ((u32 \<times> u32) \<times> 's) option" where
  "counter_main os n s = (case os_ticks os s of (prev, s) \<Rightarrow> counter_loop os n (0, prev) s)"

section \<open>runaway.c\<close>

text \<open>The variable \<open>i\<close> of the two nested loops after \<open>n\<close> turns.\<close>

fun spin :: "nat \<Rightarrow> u32 \<Rightarrow> u32" where
  "spin 0 i = i"
| "spin (Suc n) i = spin n (if i < 1000000 then i + 1 else 0)"

definition runaway_main :: "'s os \<Rightarrow> nat \<Rightarrow> 's \<Rightarrow> (u32 \<times> 's) option" where
  "runaway_main os n s =
     Option.bind (ulib_tag os s) (\<lambda>s.
     Option.bind (ulib_puts os (bytes ''runaway started '' @ emdash @ bytes '' silent, no sys_yield'' @ [10, 0]) s)
       (\<lambda>s. Some (spin n 0, s)))"

section \<open>Lemmas\<close>

text \<open>The line that an iteration of the counter prints.\<close>

definition counter_line :: "u32 \<Rightarrow> u32 \<Rightarrow> u32 \<Rightarrow> u8 list" where
  "counter_line pid count dt =
     bytes ''[pid '' @ dec_digits (unat pid) @ bytes ''] count='' @ dec_digits (unat count)
     @ bytes ''  dt='' @ dec_digits (unat (dt * 10)) @ bytes ''ms'' @ [13, 10]"

context clocked_os
begin

text \<open>
  The wait ends whatever the counter reads at its start: the comparison is of differences, so the
  wrap-around of the clock does no harm.
\<close>

lemma delay_loop_ends:
  assumes "good s" "ticks \<le> 2 ^ 31"
  shows "\<exists>s'. delay_loop os ticks start s = Some s' \<and> good s' \<and> out s' = out s \<and> \<not> clock s' - start < ticks"
  using assms(1)
proof (induction "unat ticks - unat (clock s - start)" arbitrary: s rule: less_induct)
  case less
  obtain t s1 where t: "os_ticks os s = (t, s1)" by fastforce
  note r = ticks_reads [OF less.prems t]
  show ?case
  proof (cases "clock s - start < ticks")
    case False
    then show ?thesis using t r by (subst delay_loop.simps) simp
  next
    case True
    note y = yield_later [of s1]
    obtain d where d: "1 \<le> d" "d < 2 ^ 31" "clock (os_yield os s1) = clock s + of_nat d" using y r by auto
    have lt: "unat (clock s - start) < unat ticks" using True by (simp add: word_less_nat_alt)
    have tk: "unat ticks \<le> 2 ^ 31" using assms(2) by (simp add: word_le_nat_alt)
    have "unat (x + of_nat d) = unat x + d" if "unat x < 2 ^ 31" for x :: u32
      using that d(2) by (simp add: unat_word_ariths unat_of_nat)
    then have "unat ((clock s - start) + of_nat d) = unat (clock s - start) + d" using lt tk by simp
    moreover have "clock (os_yield os s1) - start = (clock s - start) + of_nat d" using d(3) by simp
    ultimately have "unat (clock (os_yield os s1) - start) = unat (clock s - start) + d" by (simp only:)
    then have dec: "unat ticks - unat (clock (os_yield os s1) - start) < unat ticks - unat (clock s - start)"
      using lt d(1) by simp
    obtain s' where "delay_loop os ticks start (os_yield os s1) = Some s'" "good s'"
      "out s' = out (os_yield os s1)" "\<not> clock s' - start < ticks"
      using less.hyps [OF dec] y r by blast
    then show ?thesis using True t r y by (subst delay_loop.simps) simp
  qed
qed

lemma delay_wall_ends:
  assumes "good s" "ticks \<le> 2 ^ 31"
  shows "\<exists>s'. delay_wall os ticks s = Some s' \<and> good s' \<and> out s' = out s \<and> ticks \<le> clock s' - clock s"
proof -
  obtain t s1 where t: "os_ticks os s = (t, s1)" by fastforce
  note r = ticks_reads [OF assms(1) t]
  show ?thesis using delay_loop_ends [of s1 ticks "clock s"] r assms(2) t by (auto simp: delay_wall_def not_less)
qed

lemma counter_iter_prints:
  assumes "good s"
  shows "\<exists>s'. counter_iter os (count, prev) s = Some ((count + 1, clock s), s') \<and> good s' \<and>
    out s' = out s @ counter_line mypid count (clock s - prev)"
proof -
  obtain t s1 where t: "os_ticks os s = (t, s1)" by fastforce
  note r = ticks_reads [OF assms t]
  have g1: "good s1" using r by simp
  obtain s2 where s2: "ulib_tag os s1 = Some s2" "good s2"
    "out s2 = out s @ bytes ''[pid '' @ dec_digits (unat mypid) @ bytes ''] ''" using tag_prints [OF g1] r by auto
  obtain s3 where s3: "ulib_puts os (bytes ''count='' @ [0]) s2 = Some s3" "good s3" "out s3 = out s2 @ bytes ''count=''"
    using puts_prints [OF s2(2), of "bytes ''count='' @ [0]"] by (auto simp: uart_putc_def)
  obtain s4 where s4: "ulib_putu os count s3 = Some s4" "good s4" "out s4 = out s3 @ dec_digits (unat count)"
    using putu_prints [OF s3(2)] by blast
  obtain s5 where s5: "ulib_puts os (bytes ''  dt='' @ [0]) s4 = Some s5" "good s5" "out s5 = out s4 @ bytes ''  dt=''"
    using puts_prints [OF s4(2), of "bytes ''  dt='' @ [0]"] by (auto simp: uart_putc_def)
  obtain s6 where s6: "ulib_putu os ((clock s - prev) * 10) s5 = Some s6" "good s6"
    "out s6 = out s5 @ dec_digits (unat ((clock s - prev) * 10))" using putu_prints [OF s5(2)] by blast
  obtain s7 where s7: "ulib_puts os (bytes ''ms'' @ [10, 0]) s6 = Some s7" "good s7" "out s7 = out s6 @ bytes ''ms'' @ [13, 10]"
    using puts_prints [OF s6(2), of "bytes ''ms'' @ [10, 0]"] by (auto simp: uart_putc_def)
  obtain s8 where s8: "delay_wall os DELAY_TICKS s7 = Some s8" "good s8" "out s8 = out s7"
    using delay_wall_ends [OF s7(2), of DELAY_TICKS] by (auto simp: DELAY_TICKS_def)
  show ?thesis using t r s2 s3 s4 s5 s6 s7 s8
    by (simp add: counter_iter_def Let_def counter_line_def del: bytes_Cons bytes_Nil) (simp add: bytes_def)
qed

text \<open>The whole run: the lines of \<open>n\<close> iterations, numbered from \<open>count\<close>.\<close>

lemma counter_loop_prints:
  "good s \<Longrightarrow> \<exists>dts prev' s'. counter_loop os n (count, prev) s = Some ((count + of_nat n, prev'), s') \<and> good s' \<and>
    length dts = n \<and> out s' = out s @ concat (map (\<lambda>i. counter_line mypid (count + of_nat i) (dts ! i)) [0..<n])"
proof (induction n arbitrary: s count prev)
  case (Suc n)
  obtain s1 where s1: "counter_iter os (count, prev) s = Some ((count + 1, clock s), s1)" "good s1"
    "out s1 = out s @ counter_line mypid count (clock s - prev)" using counter_iter_prints [OF Suc.prems] by blast
  obtain dts prev' s2 where s2: "counter_loop os n (count + 1, clock s) s1 = Some ((count + 1 + of_nat n, prev'), s2)" "good s2"
    "length dts = n" "out s2 = out s1 @ concat (map (\<lambda>i. counter_line mypid (count + 1 + of_nat i) (dts ! i)) [0..<n])"
    using Suc.IH [OF s1(2)] by blast
  have up: "[0..<Suc n] = 0 # map Suc [0..<n]" by (simp add: map_Suc_upt upt_conv_Cons del: upt_Suc)
  show ?case
    by (rule exI [of _ "(clock s - prev) # dts"], rule exI [of _ prev'], rule exI [of _ s2])
      (use s1 s2 in \<open>simp add: up comp_def ac_simps del: upt_Suc\<close>)
qed simp

lemma counter_main_prints:
  assumes "good s"
  shows "\<exists>dts prev' s'. counter_main os n s = Some ((of_nat n, prev'), s') \<and> good s' \<and> length dts = n \<and>
    out s' = out s @ concat (map (\<lambda>i. counter_line mypid (of_nat i) (dts ! i)) [0..<n])"
proof -
  obtain t s1 where t: "os_ticks os s = (t, s1)" by fastforce
  note r = ticks_reads [OF assms t]
  show ?thesis using counter_loop_prints [of s1 n 0 t] r t by (simp add: counter_main_def)
qed

lemma runaway_prints:
  assumes "good s"
  shows "\<exists>s'. runaway_main os n s = Some (spin n 0, s') \<and> good s' \<and>
    out s' = out s @ bytes ''[pid '' @ dec_digits (unat mypid) @ bytes ''] runaway started '' @ emdash
      @ bytes '' silent, no sys_yield'' @ [13, 10]"
proof -
  let ?txt = "bytes ''runaway started '' @ emdash @ bytes '' silent, no sys_yield'' @ [10, 0]"
  obtain s1 where s1: "ulib_tag os s = Some s1" "good s1"
    "out s1 = out s @ bytes ''[pid '' @ dec_digits (unat mypid) @ bytes ''] ''" using tag_prints [OF assms] by auto
  obtain s2 where s2: "ulib_puts os ?txt s1 = Some s2" "good s2"
    "out s2 = out s1 @ bytes ''runaway started '' @ emdash @ bytes '' silent, no sys_yield'' @ [13, 10]"
    using puts_prints [OF s1(2), of ?txt] by (auto simp: uart_putc_def emdash_def)
  show ?thesis using s1 s2 by (simp add: runaway_main_def)
qed

end

section \<open>Properties\<close>

text \<open>On a system whose clock advances while a program yields, \<open>delay_wall\<close> returns for every wait
  of at most \<open>2 ^ 31\<close> ticks, also when the 32-bit tick counter wraps during the wait; it prints
  nothing, and at least the requested number of ticks has passed.\<close>

lemma delay_wall_returns:
  assumes "clocked_os os good out mypid clock" "good s" "ticks \<le> 2 ^ 31"
  shows "\<exists>s'. delay_wall os ticks s = Some s' \<and> good s' \<and> out s' = out s \<and> ticks \<le> clock s' - clock s"
  by (rule clocked_os.delay_wall_ends [OF assms])



end
