(* ===== verification/Arm.thy ===== *)
theory Arm
  imports Process
begin

text \<open>
  The part of the ARMv7-A machine that the assembly files of the kernel use: the general
  registers, the banked stack pointers, link registers and saved status registers, the
  status register, a few system control registers and word memory. Programs are lists of
  instructions; a branch ends a list, and until then \<open>a_pc\<close> stays the address at which the list
  was entered. An access to an address that is not a multiple of four has
  no result. Cache, TLB and barrier instructions are \<open>Maint\<close> and leave the state alone.

  FIQ mode is never entered (its stub halts), so its own r8 to r12 are left out.
\<close>

section \<open>State\<close>

datatype bank = B_usr | B_fiq | B_irq | B_svc | B_abt | B_und

datatype cpreg = TTBR0 | TTBCR | DACR | SCTLR | VBAR | DFSR | DFAR | IFSR | IFAR

record cpu =
  a_r :: "nat \<Rightarrow> u32"
  a_sp :: "bank \<Rightarrow> u32"
  a_lr :: "bank \<Rightarrow> u32"
  a_spsr :: "bank \<Rightarrow> u32"
  a_cpsr :: u32
  a_pc :: u32
  a_cp :: "cpreg \<Rightarrow> u32"
  a_mem :: "u32 \<Rightarrow> u32"

text \<open>The bank of a status word. SYS mode (0x1F) shares the registers of USR mode.\<close>

definition bank_of :: "u32 \<Rightarrow> bank" where
  "bank_of psr =
     (let m = psr AND 0x1F in
      if m = 0x11 then B_fiq
      else if m = 0x12 then B_irq
      else if m = 0x13 then B_svc
      else if m = 0x17 then B_abt
      else if m = 0x1B then B_und
      else B_usr)"

definition set_mode :: "u32 \<Rightarrow> u32 \<Rightarrow> u32" where
  "set_mode m psr = (psr AND NOT 0x1F) OR m"

text \<open>The interrupt masks: I is bit 7, F is bit 6.\<close>

definition irq_masked :: "u32 \<Rightarrow> bool" where
  "irq_masked psr \<longleftrightarrow> psr AND 0x80 \<noteq> 0"

datatype reg = R nat | SP | LR | PC

fun get_reg :: "reg \<Rightarrow> cpu \<Rightarrow> u32" where
  "get_reg (R i) s = a_r s i"
| "get_reg SP s = a_sp s (bank_of (a_cpsr s))"
| "get_reg LR s = a_lr s (bank_of (a_cpsr s))"
| "get_reg PC s = a_pc s"

fun set_reg :: "reg \<Rightarrow> u32 \<Rightarrow> cpu \<Rightarrow> cpu" where
  "set_reg (R i) v s = s\<lparr>a_r := (a_r s)(i := v)\<rparr>"
| "set_reg SP v s = s\<lparr>a_sp := (a_sp s)(bank_of (a_cpsr s) := v)\<rparr>"
| "set_reg LR v s = s\<lparr>a_lr := (a_lr s)(bank_of (a_cpsr s) := v)\<rparr>"
| "set_reg PC v s = s\<lparr>a_pc := v\<rparr>"

fun set_regs :: "reg list \<Rightarrow> u32 list \<Rightarrow> cpu \<Rightarrow> cpu" where
  "set_regs (r # rs) (v # vs) s = set_regs rs vs (set_reg r v s)"
| "set_regs _ _ s = s"

section \<open>Words in memory\<close>

definition word_aligned :: "u32 \<Rightarrow> bool" where
  "word_aligned a \<longleftrightarrow> a AND 3 = 0"

fun load_words :: "u32 \<Rightarrow> nat \<Rightarrow> (u32 \<Rightarrow> u32) \<Rightarrow> u32 list" where
  "load_words a 0 m = []"
| "load_words a (Suc n) m = m a # load_words (a + 4) n m"

section \<open>Instructions\<close>

datatype instr =
    Stmfd "reg list"             \<comment> \<open>\<open>stmfd sp!, {\<dots>}\<close>, \<open>push\<close>\<close>
  | Ldmfd "reg list"             \<comment> \<open>\<open>ldmfd sp!, {\<dots>}\<close>, \<open>pop\<close>\<close>
  | Ldmfd_ret "reg list"         \<comment> \<open>\<open>ldmfd sp!, {\<dots>, pc}^\<close>\<close>
  | Srsdb u32                    \<comment> \<open>\<open>srsdb sp!, #mode\<close>\<close>
  | Rfefd                        \<comment> \<open>\<open>rfefd sp!\<close>\<close>
  | Str reg reg u32              \<comment> \<open>\<open>str rt, [rn, #off]\<close>\<close>
  | Ldr reg reg u32              \<comment> \<open>\<open>ldr rt, [rn, #off]\<close>\<close>
  | Mov reg reg
  | Movi reg u32                 \<comment> \<open>\<open>mov rd, #imm\<close> and \<open>ldr rd, =sym\<close>\<close>
  | Subi reg reg u32
  | Sub reg reg reg
  | Orri reg reg u32
  | Mrs_spsr reg
  | Msr_spsr reg
  | Cps u32                      \<comment> \<open>\<open>cps #mode\<close>\<close>
  | Cpsid_if
  | Mcr cpreg reg
  | Mrc cpreg reg
  | Maint
  | Bx reg
  | Bl u32 u32                   \<comment> \<open>\<open>bl target\<close>; the second word is the return address\<close>

fun exec_instr :: "instr \<Rightarrow> cpu \<Rightarrow> cpu option" where
  "exec_instr (Stmfd rs) s =
     (let a = get_reg SP s - 4 * of_nat (length rs) in
      if word_aligned a
      then Some (set_reg SP a (s\<lparr>a_mem := store_words a (map (\<lambda>r. get_reg r s) rs) (a_mem s)\<rparr>))
      else None)"
| "exec_instr (Ldmfd rs) s =
     (let a = get_reg SP s in
      if word_aligned a
      then Some (set_regs rs (load_words a (length rs) (a_mem s)) (set_reg SP (a + 4 * of_nat (length rs)) s))
      else None)"
| "exec_instr (Ldmfd_ret rs) s =
     (let a = get_reg SP s; psr = a_spsr s (bank_of (a_cpsr s)) in
      if word_aligned a
      then Some ((set_regs (rs @ [PC]) (load_words a (length rs + 1) (a_mem s))
              (set_reg SP (a + 4 * (of_nat (length rs) + 1)) s))\<lparr>a_cpsr := psr\<rparr>)
      else None)"
| "exec_instr (Srsdb m) s =
     (let b = bank_of m; a = a_sp s b - 8 in
      if word_aligned a
      then Some (s\<lparr>a_mem := store_words a [get_reg LR s, a_spsr s (bank_of (a_cpsr s))] (a_mem s),
                   a_sp := (a_sp s)(b := a)\<rparr>)
      else None)"
| "exec_instr Rfefd s =
     (let a = get_reg SP s in
      if word_aligned a
      then Some ((set_reg SP (a + 8) s)\<lparr>a_pc := a_mem s a, a_cpsr := a_mem s (a + 4)\<rparr>)
      else None)"
| "exec_instr (Str rt rn off) s =
     (let a = get_reg rn s + off in
      if word_aligned a then Some (s\<lparr>a_mem := (a_mem s)(a := get_reg rt s)\<rparr>) else None)"
| "exec_instr (Ldr rt rn off) s =
     (let a = get_reg rn s + off in
      if word_aligned a then Some (set_reg rt (a_mem s a) s) else None)"
| "exec_instr (Mov rd rm) s = Some (set_reg rd (get_reg rm s) s)"
| "exec_instr (Movi rd v) s = Some (set_reg rd v s)"
| "exec_instr (Subi rd rn v) s = Some (set_reg rd (get_reg rn s - v) s)"
| "exec_instr (Sub rd rn rm) s = Some (set_reg rd (get_reg rn s - get_reg rm s) s)"
| "exec_instr (Orri rd rn v) s = Some (set_reg rd (get_reg rn s OR v) s)"
| "exec_instr (Mrs_spsr rd) s = Some (set_reg rd (a_spsr s (bank_of (a_cpsr s))) s)"
| "exec_instr (Msr_spsr rm) s = Some (s\<lparr>a_spsr := (a_spsr s)(bank_of (a_cpsr s) := get_reg rm s)\<rparr>)"
| "exec_instr (Cps m) s = Some (s\<lparr>a_cpsr := set_mode m (a_cpsr s)\<rparr>)"
| "exec_instr Cpsid_if s = Some (s\<lparr>a_cpsr := a_cpsr s OR 0xC0\<rparr>)"
| "exec_instr (Mcr c rt) s = Some (s\<lparr>a_cp := (a_cp s)(c := get_reg rt s)\<rparr>)"
| "exec_instr (Mrc c rt) s = Some (set_reg rt (a_cp s c) s)"
| "exec_instr Maint s = Some s"
| "exec_instr (Bx rm) s = Some (s\<lparr>a_pc := get_reg rm s\<rparr>)"
| "exec_instr (Bl target ret) s = Some ((set_reg LR ret s)\<lparr>a_pc := target\<rparr>)"

fun exec_code :: "instr list \<Rightarrow> cpu \<Rightarrow> cpu option" where
  "exec_code [] s = Some s"
| "exec_code (i # is) s = Option.bind (exec_instr i s) (\<lambda>s. exec_code is s)"

lemma exec_append: "exec_code (is @ js) s = Option.bind (exec_code is s) (exec_code js)"
proof (induction "is" arbitrary: s)
  case (Cons i "is")
  then show ?case by (cases "exec_instr i s") simp_all
qed simp

section \<open>Lemmas on modes\<close>

definition is_mode :: "u32 \<Rightarrow> bool" where
  "is_mode m \<longleftrightarrow> m \<in> {0x10, 0x11, 0x12, 0x13, 0x17, 0x1B, 0x1F}"

lemma set_mode_and: "is_mode m \<Longrightarrow> set_mode m psr AND 0x1F = m"
proof -
  assume "is_mode m"
  then have "m AND 0x1F = m" by (auto simp: is_mode_def)
  then show ?thesis by (simp add: set_mode_def bit.conj_disj_distrib2 and.assoc)
qed

lemma bank_of_set_mode: "is_mode m \<Longrightarrow> bank_of (set_mode m psr) = bank_of m"
proof -
  assume "is_mode m"
  then have "m AND 0x1F = m" by (auto simp: is_mode_def)
  then show ?thesis using set_mode_and [OF \<open>is_mode m\<close>, of psr] by (simp add: bank_of_def)
qed

lemma bank_simps [simp]:
  "bank_of 0x10 = B_usr" "bank_of 0x11 = B_fiq" "bank_of 0x12 = B_irq" "bank_of 0x13 = B_svc"
  "bank_of 0x17 = B_abt" "bank_of 0x1B = B_und" "bank_of 0x1F = B_usr"
  "bank_of (set_mode 0x11 psr) = B_fiq" "bank_of (set_mode 0x12 psr) = B_irq"
  "bank_of (set_mode 0x13 psr) = B_svc" "bank_of (set_mode 0x17 psr) = B_abt"
  "bank_of (set_mode 0x1B psr) = B_und" "bank_of (set_mode 0x1F psr) = B_usr"
  by (simp_all add: bank_of_set_mode is_mode_def) (simp_all add: bank_of_def)

lemma irq_masked_set_mode [simp]: "is_mode m \<Longrightarrow> irq_masked (set_mode m psr) = irq_masked psr"
proof -
  assume "is_mode m"
  then have "m AND 0x80 = 0" by (auto simp: is_mode_def)
  then have "set_mode m psr AND 0x80 = psr AND 0x80" by (simp add: set_mode_def bit.conj_disj_distrib2 and.assoc)
  then show ?thesis by (simp add: irq_masked_def)
qed

lemma set_mode_twice [simp]: "is_mode m \<Longrightarrow> is_mode n \<Longrightarrow> set_mode m (set_mode n psr) = set_mode m psr"
proof -
  assume "is_mode m" "is_mode n"
  then have "n AND NOT 0x1F = 0" by (auto simp: is_mode_def)
  then show ?thesis by (simp add: set_mode_def bit.conj_disj_distrib2 and.assoc)
qed

section \<open>Lemmas on word memory\<close>

lemma length_load_words [simp]: "length (load_words a n m) = n"
  by (induction n arbitrary: a) simp_all

lemma store_words_other:
  "(\<And>i. i < length ws \<Longrightarrow> x \<noteq> a + 4 * of_nat i) \<Longrightarrow> store_words a ws m x = m x"
proof (induction ws arbitrary: a m)
  case (Cons w ws)
  have "x \<noteq> a" using Cons.prems [of 0] by simp
  moreover have "x \<noteq> (a + 4) + 4 * of_nat i" if "i < length ws" for i
    using Cons.prems [of "Suc i"] that by (simp add: algebra_simps)
  ultimately show ?case by (simp add: Cons.IH)
qed simp

lemma word_offset_inj: "(4 * of_nat i :: u32) = 4 * of_nat j \<Longrightarrow> i < 2 ^ 30 \<Longrightarrow> j < 2 ^ 30 \<Longrightarrow> i = j"
proof -
  assume a: "(4 * of_nat i :: u32) = 4 * of_nat j" "i < 2 ^ 30" "j < 2 ^ 30"
  then have "(of_nat (4 * i) :: u32) = of_nat (4 * j)" by simp
  then have "unat (of_nat (4 * i) :: u32) = unat (of_nat (4 * j) :: u32)" by (simp only:)
  moreover have "unat (of_nat (4 * n) :: u32) = 4 * n" if "n < 2 ^ 30" for n
    using that by (simp add: unat_of_nat del: of_nat_mult)
  ultimately show "i = j" using a(2,3) by simp
qed

lemma store_words_nth:
  "i < length ws \<Longrightarrow> length ws \<le> 2 ^ 30 \<Longrightarrow> store_words a ws m (a + 4 * of_nat i) = ws ! i"
proof (induction ws arbitrary: a m i)
  case (Cons w ws)
  show ?case
  proof (cases i)
    case 0
    have "a \<noteq> (a + 4) + 4 * of_nat j" if "j < length ws" for j
    proof
      assume "a = (a + 4) + 4 * of_nat j"
      then have "(4 * of_nat 0 :: u32) = 4 * of_nat (Suc j)" by (simp add: algebra_simps)
      from word_offset_inj [OF this] that Cons.prems(2) show False by simp
    qed
    then have "store_words (a + 4) ws (m(a := w)) a = w" by (subst store_words_other) simp_all
    then show ?thesis using 0 by simp
  next
    case (Suc j)
    have "a + 4 * of_nat i = (a + 4) + 4 * of_nat j" using Suc by (simp add: algebra_simps)
    then show ?thesis using Suc Cons.IH [of j "a + 4"] Cons.prems by (simp add: add.assoc)
  qed
qed simp

lemma load_words_nth: "i < n \<Longrightarrow> load_words a n m ! i = m (a + 4 * of_nat i)"
proof (induction n arbitrary: a i)
  case (Suc n)
  then show ?case by (cases i) (simp_all add: algebra_simps)
qed simp

lemma load_words_eq: "load_words a n m = map (\<lambda>i. m (a + 4 * of_nat i)) [0..<n]"
  by (rule nth_equalityI) (simp_all add: load_words_nth)

lemma load_store_words [simp]:
  "n = length ws \<Longrightarrow> length ws \<le> 2 ^ 30 \<Longrightarrow> load_words a n (store_words a ws m) = ws"
  by (rule nth_equalityI) (simp_all add: load_words_nth store_words_nth)

lemma load_words_cong:
  "(\<And>i. i < n \<Longrightarrow> m' (a + 4 * of_nat i) = m (a + 4 * of_nat i)) \<Longrightarrow> load_words a n m' = load_words a n m"
  by (simp add: load_words_eq)

lemma load_words_add: "load_words a (i + j) m = load_words a i m @ load_words (a + 4 * of_nat i) j m"
  by (induction i arbitrary: a) (simp_all add: algebra_simps)

lemma store_words_append:
  "store_words a (us @ vs) m = store_words (a + 4 * of_nat (length us)) vs (store_words a us m)"
  by (induction us arbitrary: a m) (simp_all add: algebra_simps)

end
