(* ===== verification/Asm_switch.thy ===== *)
theory Asm_switch
  imports Arm
begin

text \<open>
  \<open>kernel/arch/arm/proc/context_switch.S\<close> at the level of instructions, with the layout of the
  process control block (\<open>proc.h\<close>) that it relies on and the trampoline \<open>ret_from_first_entry\<close> of
  \<open>exception_entry.S\<close>. It is shown to implement the operation \<open>perform_switch\<close> of the scheduler
  model, in which a switched-out process is a continuation: the continuation is the return
  address in the nine words that the routine leaves on the kernel stack of the process.
\<close>

section \<open>Layout of the process control block\<close>

text \<open>
  The members of \<open>proc_context_t\<close> and of \<open>process_t\<close>, each with its size and alignment in bytes. The
  size \<open>e\<close> of an enumeration is up to the compiler.
\<close>

type_synonym field = "string \<times> nat \<times> nat"

definition proc_context_fields :: "field list" where
  "proc_context_fields = map (\<lambda>f. (f, 4, 4))
     [''r0'', ''r1'', ''r2'', ''r3'', ''r4'', ''r5'', ''r6'', ''r7'',
      ''r8'', ''r9'', ''r10'', ''r11'', ''r12'',
      ''sp_svc'', ''lr_svc'', ''spsr'', ''sp_usr'', ''lr_usr'']"

definition align_up :: "nat \<Rightarrow> nat \<Rightarrow> nat" where
  "align_up al n = (n + al - 1) div al * al"

fun layout :: "nat \<Rightarrow> field list \<Rightarrow> (string \<times> nat) list \<times> nat" where
  "layout n [] = ([], n)"
| "layout n ((f, sz, al) # fs) =
     (let off = align_up al n; (offs, n') = layout (off + sz) fs in ((f, off) # offs, n'))"

definition offsetof :: "field list \<Rightarrow> string \<Rightarrow> nat option" where
  "offsetof fs f = map_of (fst (layout 0 fs)) f"

definition struct_size :: "field list \<Rightarrow> nat" where
  "struct_size fs = align_up (Max (set (map (snd \<circ> snd) fs))) (snd (layout 0 fs))"

definition process_fields :: "nat \<Rightarrow> field list" where
  "process_fields e =
     [(''ctx'', struct_size proc_context_fields, 4), (''pid'', 4, 4), (''state'', e, e), (''name'', 4, 4),
      (''pgd'', 4, 4), (''pgd_pa'', 4, 4), (''kstack_base'', 4, 4), (''kstack_size'', 4, 4),
      (''user_entry'', 4, 4), (''user_stack_top'', 4, 4), (''user_phys_base'', 4, 4)]"

definition CTX_SP_SVC_OFFSET :: u32 where "CTX_SP_SVC_OFFSET = 52"
definition CTX_LR_SVC_OFFSET :: u32 where "CTX_LR_SVC_OFFSET = 56"
definition CTX_SPSR_OFFSET :: u32 where "CTX_SPSR_OFFSET = 60"
definition CTX_SP_USR_OFFSET :: u32 where "CTX_SP_USR_OFFSET = 64"
definition CTX_LR_USR_OFFSET :: u32 where "CTX_LR_USR_OFFSET = 68"
definition PROC_PGD_PA_OFFSET :: u32 where "PROC_PGD_PA_OFFSET = 88"

lemmas ctx_offsets = CTX_SP_SVC_OFFSET_def CTX_LR_SVC_OFFSET_def CTX_SPSR_OFFSET_def
  CTX_SP_USR_OFFSET_def CTX_LR_USR_OFFSET_def PROC_PGD_PA_OFFSET_def

text \<open>\<open>&processes[i]\<close>, for the table at address \<open>ptab\<close>; \<open>pcb_layout\<close> shows that the size of the enumeration
  does not matter.\<close>

definition pcb_addr :: "u32 \<Rightarrow> nat \<Rightarrow> u32" where
  "pcb_addr ptab i = ptab + of_nat (struct_size (process_fields 4) * i)"

section \<open>The code\<close>

definition callee_saved :: "reg list" where
  "callee_saved = [R 4, R 5, R 6, R 7, R 8, R 9, R 10, R 11, LR]"

definition ctxsw_save :: "instr list" where
  "ctxsw_save =
     [Stmfd callee_saved,
      Str SP (R 0) CTX_SP_SVC_OFFSET,
      Cps 0x1F,
      Str SP (R 0) CTX_SP_USR_OFFSET,
      Str LR (R 0) CTX_LR_USR_OFFSET,
      Cps 0x13]"

definition ctxsw_load :: "instr list" where
  "ctxsw_load =
     [Ldr (R 2) (R 1) PROC_PGD_PA_OFFSET,
      Orri (R 2) (R 2) TTBR_ATTRS,
      Mcr TTBR0 (R 2),
      Movi (R 2) 0,
      Maint, Maint, Maint, Maint,
      Cps 0x1F,
      Ldr SP (R 1) CTX_SP_USR_OFFSET,
      Ldr LR (R 1) CTX_LR_USR_OFFSET,
      Cps 0x13,
      Ldr SP (R 1) CTX_SP_SVC_OFFSET,
      Ldmfd callee_saved,
      Bx LR]"

definition context_switch_S :: "cpu \<Rightarrow> cpu option" where
  "context_switch_S s =
     (if a_r s 0 = 0 then exec_code ctxsw_load s
      else Option.bind (exec_code ctxsw_save s) (exec_code ctxsw_load))"

definition user_regs :: "reg list" where
  "user_regs = [R 0, R 1, R 2, R 3, R 4, R 5, R 6, R 7, R 8, R 9, R 10, R 11, R 12]"

definition ret_from_first_entry :: "instr list" where
  "ret_from_first_entry = [Ldmfd (user_regs @ [LR]), Rfefd]"

section \<open>Alignment\<close>

lemma word_aligned_iff: "word_aligned a \<longleftrightarrow> 4 dvd uint a"
proof -
  have "unat (a AND 3) = unat a mod 4" using unat_low_bits [of a 2] by simp
  then have "(a AND 3 = 0) = (unat a mod 4 = 0)" by (simp add: unat_eq_zero [symmetric])
  also have "\<dots> = (4 dvd unat a)" by (simp add: dvd_eq_mod_eq_0)
  also have "\<dots> = (int 4 dvd int (unat a))" by (simp only: int_dvd_int_iff)
  finally show ?thesis by (simp add: word_aligned_def)
qed

lemma word_aligned_add: "word_aligned a \<Longrightarrow> word_aligned b \<Longrightarrow> word_aligned (a + b)"
  by (simp add: word_aligned_iff uint_word_ariths dvd_mod_iff)

lemma word_aligned_diff: "word_aligned a \<Longrightarrow> word_aligned b \<Longrightarrow> word_aligned (a - b)"
  by (simp add: word_aligned_iff uint_word_ariths dvd_mod_iff)

lemma word_aligned_const [simp]:
  "word_aligned 0" "word_aligned 4" "word_aligned 8" "word_aligned 32" "word_aligned 36" "word_aligned 52"
  "word_aligned 56" "word_aligned 60" "word_aligned 64" "word_aligned 68" "word_aligned 88"
  by (simp_all add: word_aligned_def)

lemmas aligned_intros = word_aligned_add word_aligned_diff word_aligned_const

section \<open>What the two halves do\<close>

text \<open>The words that a switch pushes, and the members it writes.\<close>

definition resume_frame :: "cpu \<Rightarrow> u32 list" where
  "resume_frame s = map (a_r s) [4, 5, 6, 7, 8, 9, 10, 11] @ [a_lr s B_svc]"

lemma length_resume_frame [simp]: "length (resume_frame s) = 9"
  by (simp add: resume_frame_def)

definition saved_mem :: "cpu \<Rightarrow> u32 \<Rightarrow> u32" where
  "saved_mem s = (let f = a_sp s B_svc - 36; p = a_r s 0 in
     (store_words f (resume_frame s) (a_mem s))
       (p + CTX_SP_SVC_OFFSET := f, p + CTX_SP_USR_OFFSET := a_sp s B_usr, p + CTX_LR_USR_OFFSET := a_lr s B_usr))"

lemma ctxsw_save_eq:
  assumes "bank_of (a_cpsr s) = B_svc" "word_aligned (a_r s 0)" "word_aligned (a_sp s B_svc)"
  shows "exec_code ctxsw_save s =
    Some (s\<lparr>a_sp := (a_sp s)(B_svc := a_sp s B_svc - 36), a_mem := saved_mem s, a_cpsr := set_mode 0x13 (a_cpsr s)\<rparr>)"
  using assms
  by (simp add: ctxsw_save_def callee_saved_def Let_def saved_mem_def resume_frame_def ctx_offsets aligned_intros is_mode_def)

lemma ctxsw_load_eq:
  assumes "word_aligned (a_r s 1)" "word_aligned f" "a_mem s (a_r s 1 + CTX_SP_SVC_OFFSET) = f"
  obtains s' where "exec_code ctxsw_load s = Some s'" "a_mem s' = a_mem s" "a_spsr s' = a_spsr s"
    "a_cp s' = (a_cp s)(TTBR0 := a_mem s (a_r s 1 + PROC_PGD_PA_OFFSET) OR TTBR_ATTRS)"
    "a_cpsr s' = set_mode 0x13 (a_cpsr s)" "a_pc s' = a_mem s (f + 32)"
    "a_sp s' = (a_sp s)(B_usr := a_mem s (a_r s 1 + CTX_SP_USR_OFFSET), B_svc := f + 36)"
    "a_lr s' = (a_lr s)(B_usr := a_mem s (a_r s 1 + CTX_LR_USR_OFFSET), B_svc := a_mem s (f + 32))"
    "resume_frame s' = load_words f 9 (a_mem s)"
proof -
  have n: "(9 :: nat) = Suc (Suc (Suc (Suc (Suc (Suc (Suc (Suc (Suc 0))))))))" by simp
  have "load_words f 9 (a_mem s) = [a_mem s f, a_mem s (f + 4), a_mem s (f + 8), a_mem s (f + 12), a_mem s (f + 16),
      a_mem s (f + 20), a_mem s (f + 24), a_mem s (f + 28), a_mem s (f + 32)]"
    unfolding n by (simp add: add.assoc)
  then show ?thesis using assms that
    by (simp add: ctxsw_load_def callee_saved_def Let_def ctx_offsets aligned_intros is_mode_def resume_frame_def)
      (simp add: add.commute)
qed

section \<open>Disjoint regions\<close>

text \<open>The process table and the kernel stacks of a build.\<close>

definition in_pcb :: "u32 \<Rightarrow> nat \<Rightarrow> u32 \<Rightarrow> bool" where
  "in_pcb ptab i x \<longleftrightarrow> unat ptab + 112 * i \<le> unat x \<and> unat x < unat ptab + 112 * (i + 1)"

definition in_kstack :: "linkmap \<Rightarrow> nat \<Rightarrow> u32 \<Rightarrow> bool" where
  "in_kstack lm i x \<longleftrightarrow>
     unat (lm_proc_kstack lm) + 8192 * i \<le> unat x \<and> unat x < unat (lm_proc_kstack lm) + 8192 * (i + 1)"

text \<open>Both arrays lie in memory without wrapping around, aligned and apart.\<close>

definition layout_ok :: "linkmap \<Rightarrow> u32 \<Rightarrow> bool" where
  "layout_ok lm ptab \<longleftrightarrow> word_aligned ptab \<and> word_aligned (lm_proc_kstack lm) \<and> ptab \<noteq> 0 \<and>
     unat ptab + 336 < 2 ^ 32 \<and> unat (lm_proc_kstack lm) + 24576 < 2 ^ 32 \<and>
     (unat ptab + 336 \<le> unat (lm_proc_kstack lm) \<or> unat (lm_proc_kstack lm) + 24576 \<le> unat ptab)"

lemmas layout_defs = struct_size_def offsetof_def proc_context_fields_def process_fields_def align_up_def

lemma process_size: "struct_size (process_fields 4) = 112"
  by (simp add: layout_defs)

lemma unat_plus_small: "unat a + n < 2 ^ 32 \<Longrightarrow> unat (a + of_nat n) = unat a + n" for a :: u32
  by (simp add: unat_word_ariths unat_of_nat)

lemma unat_pcb_field:
  assumes "layout_ok lm ptab" "i < 3" "n < 112"
  shows "unat (pcb_addr ptab i + of_nat n) = unat ptab + 112 * i + n"
proof -
  have "pcb_addr ptab i + of_nat n = ptab + of_nat (112 * i + n)"
    by (simp add: pcb_addr_def process_size add.assoc)
  moreover have "unat ptab + (112 * i + n) < 2 ^ 32" using assms by (simp add: layout_ok_def)
  ultimately show ?thesis using unat_plus_small [of ptab "112 * i + n"] by (simp only: add.assoc)
qed

lemma in_pcb_field:
  assumes "layout_ok lm ptab" "i < 3"
  shows "in_pcb ptab i (pcb_addr ptab i + CTX_SP_SVC_OFFSET)" "in_pcb ptab i (pcb_addr ptab i + CTX_SP_USR_OFFSET)"
    "in_pcb ptab i (pcb_addr ptab i + CTX_LR_USR_OFFSET)" "in_pcb ptab i (pcb_addr ptab i + PROC_PGD_PA_OFFSET)"
  using unat_pcb_field [OF assms, of 52] unat_pcb_field [OF assms, of 64] unat_pcb_field [OF assms, of 68]
    unat_pcb_field [OF assms, of 88]
  by (simp_all add: in_pcb_def ctx_offsets)

lemma pcb_aligned: "layout_ok lm ptab \<Longrightarrow> word_aligned (pcb_addr ptab i)"
proof -
  assume "layout_ok lm ptab"
  moreover have "uint (of_nat (112 * i) :: u32) = (112 * int i) mod 4294967296"
    by (simp add: unsigned_of_nat take_bit_eq_mod zmod_int del: of_nat_mult) simp
  then have "word_aligned (of_nat (112 * i))" unfolding word_aligned_iff by (simp add: dvd_mod_iff del: of_nat_mult)
  ultimately show ?thesis by (auto simp: pcb_addr_def process_size layout_ok_def intro: word_aligned_add)
qed

lemma pcb_nonzero: "layout_ok lm ptab \<Longrightarrow> i < 3 \<Longrightarrow> pcb_addr ptab i \<noteq> 0"
  using unat_pcb_field [of lm ptab i 0] by (auto simp: layout_ok_def unat_eq_zero [symmetric] simp del: unat_eq_zero)

lemma region_disjoint:
  "layout_ok lm ptab \<Longrightarrow> i < 3 \<Longrightarrow> j < 3 \<Longrightarrow> in_pcb ptab i x \<Longrightarrow> in_kstack lm j y \<Longrightarrow> x \<noteq> y"
  "in_pcb ptab i x \<Longrightarrow> in_pcb ptab j y \<Longrightarrow> i \<noteq> j \<Longrightarrow> x \<noteq> y"
  "in_kstack lm i x \<Longrightarrow> in_kstack lm j y \<Longrightarrow> i \<noteq> j \<Longrightarrow> x \<noteq> y"
  by (auto simp: layout_ok_def in_pcb_def in_kstack_def)

text \<open>A resume frame at \<open>f\<close> inside the kernel stack of process \<open>i\<close>.\<close>

definition frame_in :: "linkmap \<Rightarrow> nat \<Rightarrow> u32 \<Rightarrow> bool" where
  "frame_in lm i f \<longleftrightarrow> word_aligned f \<and> unat (lm_proc_kstack lm) + 8192 * i \<le> unat f \<and>
     unat f + 36 \<le> unat (lm_proc_kstack lm) + 8192 * (i + 1)"

lemma frame_words_in:
  assumes "layout_ok lm ptab" "i < 3" "frame_in lm i f" "j < 9"
  shows "in_kstack lm i (f + 4 * of_nat j)"
proof -
  have "unat f + 4 * j < 2 ^ 32" using assms by (simp add: frame_in_def layout_ok_def)
  then have "unat (f + of_nat (4 * j)) = unat f + 4 * j" by (rule unat_plus_small)
  then show ?thesis using assms by (simp add: frame_in_def in_kstack_def)
qed

section \<open>Refinement of the scheduler's switch\<close>

text \<open>
  The memory of a switched-out process \<open>i\<close>: banked registers in its control block, and a resume
  frame on its own kernel stack whose return address is that of its continuation. \<open>ret\<close> gives the
  address of the code after each call of \<open>context_switch\<close>, which the compiler chooses.
\<close>

definition parked :: "linkmap \<Rightarrow> u32 \<Rightarrow> (kcont \<Rightarrow> u32) \<Rightarrow> kernel \<Rightarrow> (u32 \<Rightarrow> u32) \<Rightarrow> nat \<Rightarrow> bool" where
  "parked lm ptab ret k m i \<longleftrightarrow>
     (let p = pcb_addr ptab i; f = m (p + CTX_SP_SVC_OFFSET) in
      m (p + CTX_SP_USR_OFFSET) = c_sp_usr (p_ctx (processes k ! i)) \<and>
      m (p + CTX_LR_USR_OFFSET) = c_lr_usr (p_ctx (processes k ! i)) \<and>
      frame_in lm i f \<and> m (f + 32) = ret (conts k i))"

definition mach_rel :: "linkmap \<Rightarrow> u32 \<Rightarrow> (kcont \<Rightarrow> u32) \<Rightarrow> kernel \<Rightarrow> cpu \<Rightarrow> bool" where
  "mach_rel lm ptab ret k s \<longleftrightarrow>
     a_cp s TTBR0 = ttbr0 k \<and> a_sp s B_usr = sp_usr k \<and> a_lr s B_usr = lr_usr k \<and>
     bank_of (a_cpsr s) = B_svc \<and>
     (\<forall>i < 3. a_mem s (pcb_addr ptab i + PROC_PGD_PA_OFFSET) = p_pgd_pa (processes k ! i)) \<and>
     (\<forall>i < 3. Some i \<noteq> current k \<longrightarrow> parked lm ptab ret k (a_mem s) i)"

text \<open>What the save side leaves alone.\<close>

lemma saved_mem_other:
  assumes "layout_ok lm ptab" "p < 3" "a_r s 0 = pcb_addr ptab p" "frame_in lm p (a_sp s B_svc - 36)"
    "in_pcb ptab i x \<or> in_kstack lm i x" "i < 3" "i \<noteq> p"
  shows "saved_mem s x = a_mem s x"
proof -
  have "y \<noteq> x" if "in_pcb ptab p y" for y
    using assms(5) region_disjoint(1) [OF assms(1,2,6) that] region_disjoint(2) [OF that _ assms(7) [symmetric]] by blast
  then have "x \<noteq> pcb_addr ptab p + CTX_SP_SVC_OFFSET" "x \<noteq> pcb_addr ptab p + CTX_SP_USR_OFFSET"
    "x \<noteq> pcb_addr ptab p + CTX_LR_USR_OFFSET"
    using in_pcb_field [OF assms(1,2)] by blast+
  moreover have "x \<noteq> (a_sp s B_svc - 36) + 4 * of_nat j" if "j < 9" for j
    using frame_words_in [OF assms(1,2,4) that] region_disjoint(1) [OF assms(1,6,2), of x]
      region_disjoint(3) [OF _ _ assms(7), of lm x] assms(5) by blast
  then have "store_words (a_sp s B_svc - 36) (resume_frame s) (a_mem s) x = a_mem s x"
    by (intro store_words_other) simp
  ultimately show ?thesis by (simp add: saved_mem_def Let_def assms(3))
qed

lemma saved_mem_own:
  assumes "layout_ok lm ptab" "p < 3" "a_r s 0 = pcb_addr ptab p" "frame_in lm p (a_sp s B_svc - 36)"
  shows "saved_mem s (pcb_addr ptab p + CTX_SP_SVC_OFFSET) = a_sp s B_svc - 36"
    "saved_mem s (pcb_addr ptab p + CTX_SP_USR_OFFSET) = a_sp s B_usr"
    "saved_mem s (pcb_addr ptab p + CTX_LR_USR_OFFSET) = a_lr s B_usr"
    "saved_mem s (pcb_addr ptab p + PROC_PGD_PA_OFFSET) = a_mem s (pcb_addr ptab p + PROC_PGD_PA_OFFSET)"
    "load_words (a_sp s B_svc - 36) 9 (saved_mem s) = resume_frame s"
proof -
  note f = in_pcb_field [OF assms(1,2)]
  have d: "y \<noteq> (a_sp s B_svc - 36) + 4 * of_nat j" if "j < 9" "in_pcb ptab p y" for j y
    using frame_words_in [OF assms(1,2,4) that(1)] region_disjoint(1) [OF assms(1,2,2) that(2)] by metis
  show "saved_mem s (pcb_addr ptab p + CTX_SP_SVC_OFFSET) = a_sp s B_svc - 36"
    "saved_mem s (pcb_addr ptab p + CTX_SP_USR_OFFSET) = a_sp s B_usr"
    "saved_mem s (pcb_addr ptab p + CTX_LR_USR_OFFSET) = a_lr s B_usr"
    by (simp_all add: saved_mem_def Let_def assms(3) ctx_offsets)
  show "saved_mem s (pcb_addr ptab p + PROC_PGD_PA_OFFSET) = a_mem s (pcb_addr ptab p + PROC_PGD_PA_OFFSET)"
    using store_words_other [of "resume_frame s" _ "a_sp s B_svc - 36" "a_mem s", OF d [OF _ f(4)]]
    by (simp add: saved_mem_def Let_def assms(3)) (simp add: ctx_offsets)
  have "load_words (a_sp s B_svc - 36) 9 (saved_mem s) =
      load_words (a_sp s B_svc - 36) 9 (store_words (a_sp s B_svc - 36) (resume_frame s) (a_mem s))"
    using d [OF _ f(1)] d [OF _ f(2)] d [OF _ f(3)]
    by (intro load_words_cong) (simp add: saved_mem_def Let_def assms(3), metis)
  then show "load_words (a_sp s B_svc - 36) 9 (saved_mem s) = resume_frame s" by simp
qed

lemma resume_frame_last: "load_words f 9 m = resume_frame s \<Longrightarrow> m (f + 32) = a_lr s B_svc"
  using load_words_nth [of 8 9 f m] by (simp add: resume_frame_def)

lemma perform_switch_fields:
  assumes "p < length (processes k)" "n < length (processes k)" "n \<noteq> p"
  shows "ttbr0 (perform_switch p n rc k) = p_pgd_pa (processes k ! n) OR TTBR_ATTRS"
    "sp_usr (perform_switch p n rc k) = c_sp_usr (p_ctx (processes k ! n))"
    "lr_usr (perform_switch p n rc k) = c_lr_usr (p_ctx (processes k ! n))"
    "conts (perform_switch p n rc k) = (conts k)(p := rc)"
    "current (perform_switch p n rc k) = Some n"
    "p_pgd_pa (processes (perform_switch p n rc k) ! i) = p_pgd_pa (processes k ! i)"
    "c_sp_usr (p_ctx (processes (perform_switch p n rc k) ! i)) = (if i = p then sp_usr k else c_sp_usr (p_ctx (processes k ! i)))"
    "c_lr_usr (p_ctx (processes (perform_switch p n rc k) ! i)) = (if i = p then lr_usr k else c_lr_usr (p_ctx (processes k ! i)))"
  using assms
  by (cases "i = p"; cases "i = n"; simp add: perform_switch_def context_switch_def Let_def upd_proc_def set_state_def)+

text \<open>After the save side every process but the next one is parked as the model says, and so is the next one still.\<close>

lemma saved_parked:
  assumes "layout_ok lm ptab" "mach_rel lm ptab ret k s" "current k = Some p" "p < 3" "n < 3" "n \<noteq> p"
    "length (processes k) = 3" "a_r s 0 = pcb_addr ptab p" "frame_in lm p (a_sp s B_svc - 36)" "a_lr s B_svc = ret rc"
  shows "i < 3 \<Longrightarrow> saved_mem s (pcb_addr ptab i + PROC_PGD_PA_OFFSET) = p_pgd_pa (processes k ! i)"
    "i < 3 \<Longrightarrow> i \<noteq> p \<Longrightarrow> parked lm ptab ret k (saved_mem s) i"
    "i < 3 \<Longrightarrow> i \<noteq> n \<Longrightarrow> parked lm ptab ret (perform_switch p n rc k) (saved_mem s) i"
proof -
  note lo = assms(1)
  have rel: "a_sp s B_usr = sp_usr k" "a_lr s B_usr = lr_usr k"
    "\<And>i. i < 3 \<Longrightarrow> a_mem s (pcb_addr ptab i + PROC_PGD_PA_OFFSET) = p_pgd_pa (processes k ! i)"
    "\<And>i. i < 3 \<Longrightarrow> i \<noteq> p \<Longrightarrow> parked lm ptab ret k (a_mem s) i"
    using assms(2,3) by (auto simp: mach_rel_def)
  note oth = saved_mem_other [OF lo assms(4,8,9)] and own = saved_mem_own [OF lo assms(4,8,9)]
  show "saved_mem s (pcb_addr ptab i + PROC_PGD_PA_OFFSET) = p_pgd_pa (processes k ! i)" if "i < 3" for i
    using in_pcb_field(4) [OF lo that] oth own(4) rel(3) [OF that] that by (cases "i = p") metis+
  show pk: "parked lm ptab ret k (saved_mem s) i" if "i < 3" "i \<noteq> p" for i
  proof -
    have "in_kstack lm i (a_mem s (pcb_addr ptab i + CTX_SP_SVC_OFFSET) + 32)"
      using frame_words_in [OF lo that(1), of _ 8] rel(4) [OF that] by (auto simp: parked_def Let_def)
    then show ?thesis
      using in_pcb_field [OF lo that(1)] oth [OF _ that] rel(4) [OF that] by (simp add: parked_def Let_def)
  qed
  show "parked lm ptab ret (perform_switch p n rc k) (saved_mem s) i" if "i < 3" "i \<noteq> n" for i
  proof (cases "i = p")
    case True
    then show ?thesis using own resume_frame_last [OF own(5)] assms(4-7,9,10) rel(1,2)
      by (simp add: parked_def Let_def perform_switch_fields)
  next
    case False
    then show ?thesis using pk [OF that(1) False] assms(4-7)
      by (simp add: parked_def Let_def perform_switch_fields)
  qed
qed

lemma switch_refines:
  assumes "layout_ok lm ptab" "mach_rel lm ptab ret k s" "current k = Some p" "p < 3" "n < 3" "n \<noteq> p"
    "length (processes k) = 3" "a_r s 0 = pcb_addr ptab p" "a_r s 1 = pcb_addr ptab n"
    "frame_in lm p (a_sp s B_svc - 36)" "a_lr s B_svc = ret rc"
  shows "\<exists>s'. context_switch_S s = Some s' \<and> mach_rel lm ptab ret (perform_switch p n rc k) s' \<and>
    a_pc s' = ret (conts k n)"
proof -
  note al = pcb_aligned [OF assms(1)] and sv = saved_parked [OF assms(1-8,10,11)]
  have bank: "bank_of (a_cpsr s) = B_svc" using assms(2) by (simp add: mach_rel_def)
  have sp: "word_aligned (a_sp s B_svc)" using assms(10) word_aligned_add [of "a_sp s B_svc - 36" 36] by (simp add: frame_in_def)
  define s1 where "s1 = s\<lparr>a_sp := (a_sp s)(B_svc := a_sp s B_svc - 36), a_mem := saved_mem s, a_cpsr := set_mode 0x13 (a_cpsr s)\<rparr>"
  have save: "exec_code ctxsw_save s = Some s1"
    using ctxsw_save_eq [OF bank _ sp] al assms(8) by (simp add: s1_def)
  let ?f = "saved_mem s (pcb_addr ptab n + CTX_SP_SVC_OFFSET)"
  have n: "frame_in lm n ?f" "saved_mem s (?f + 32) = ret (conts k n)"
    "saved_mem s (pcb_addr ptab n + CTX_SP_USR_OFFSET) = c_sp_usr (p_ctx (processes k ! n))"
    "saved_mem s (pcb_addr ptab n + CTX_LR_USR_OFFSET) = c_lr_usr (p_ctx (processes k ! n))"
    using sv(2) [OF assms(5,6)] by (auto simp: parked_def Let_def)
  have "word_aligned (a_r s1 1)" "word_aligned ?f" "a_mem s1 (a_r s1 1 + CTX_SP_SVC_OFFSET) = ?f"
    using al n(1) assms(9) by (simp_all add: s1_def frame_in_def)
  then obtain s' where s': "exec_code ctxsw_load s1 = Some s'" "a_mem s' = saved_mem s"
    "a_cp s' = (a_cp s)(TTBR0 := saved_mem s (pcb_addr ptab n + PROC_PGD_PA_OFFSET) OR TTBR_ATTRS)"
    "a_cpsr s' = set_mode 0x13 (a_cpsr s1)" "a_pc s' = saved_mem s (?f + 32)"
    "a_sp s' B_usr = saved_mem s (pcb_addr ptab n + CTX_SP_USR_OFFSET)"
    "a_lr s' B_usr = saved_mem s (pcb_addr ptab n + CTX_LR_USR_OFFSET)"
    by (rule ctxsw_load_eq [of s1 ?f]) (simp_all add: s1_def assms(9) [unfolded One_nat_def])
  have "context_switch_S s = Some s'"
    using save s'(1) pcb_nonzero [OF assms(1,4)] assms(8) by (simp add: context_switch_S_def)
  moreover have "mach_rel lm ptab ret (perform_switch p n rc k) s'"
    using s' sv(1,3) assms(4-7) n by (simp add: mach_rel_def perform_switch_fields)
  ultimately show ?thesis using s'(5) n(2) by auto
qed

section \<open>There and back\<close>

lemma set_regs_mem [simp]: "a_mem (set_regs rs vs s) = a_mem s"
proof (induction rs vs s rule: set_regs.induct)
  case (1 r rs v vs s)
  then show ?case by (cases r) simp_all
qed simp_all

lemma ctxsw_load_mem: "exec_code ctxsw_load s = Some s' \<Longrightarrow> a_mem s' = a_mem s"
  by (auto simp: ctxsw_load_def Let_def simp del: set_regs.simps load_words.simps split: if_splits)

lemma context_switch_mem:
  assumes "bank_of (a_cpsr s) = B_svc" "a_r s 0 \<noteq> 0" "word_aligned (a_r s 0)" "word_aligned (a_sp s B_svc)"
    "context_switch_S s = Some s'"
  shows "a_mem s' = saved_mem s"
  using assms(2,5) ctxsw_save_eq [OF assms(1,3,4)] ctxsw_load_mem by (fastforce simp: context_switch_S_def)

text \<open>The words that belong to a switched-out process.\<close>

definition own_words :: "linkmap \<Rightarrow> u32 \<Rightarrow> nat \<Rightarrow> u32 set" where
  "own_words lm ptab p = {x. in_kstack lm p x} \<union>
     {pcb_addr ptab p + CTX_SP_SVC_OFFSET, pcb_addr ptab p + CTX_SP_USR_OFFSET, pcb_addr ptab p + CTX_LR_USR_OFFSET}"

lemma switch_back:
  assumes "layout_ok lm ptab" "p < 3" "q < 3" "q \<noteq> p"
    "bank_of (a_cpsr s) = B_svc" "a_r s 0 = pcb_addr ptab p" "frame_in lm p (a_sp s B_svc - 36)"
    "context_switch_S s = Some s1"
    "bank_of (a_cpsr s2) = B_svc" "a_r s2 0 = pcb_addr ptab q" "a_r s2 1 = pcb_addr ptab p"
    "frame_in lm q (a_sp s2 B_svc - 36)" "\<forall>x \<in> own_words lm ptab p. a_mem s2 x = a_mem s1 x"
  shows "\<exists>s3. context_switch_S s2 = Some s3 \<and> resume_frame s3 = resume_frame s \<and> a_pc s3 = a_lr s B_svc \<and>
    a_sp s3 B_svc = a_sp s B_svc \<and> a_sp s3 B_usr = a_sp s B_usr \<and> a_lr s3 B_usr = a_lr s B_usr \<and>
    bank_of (a_cpsr s3) = B_svc"
proof -
  note lo = assms(1) and al = pcb_aligned [OF assms(1)] and nz = pcb_nonzero [OF assms(1)]
  let ?f = "a_sp s B_svc - 36" and ?p = "pcb_addr ptab p"
  have sp: "word_aligned (a_sp s B_svc)" "word_aligned (a_sp s2 B_svc)"
    using assms(7,12) word_aligned_add [of "_ - 36" 36] by (force simp: frame_in_def)+
  have m1: "a_mem s1 = saved_mem s"
    by (rule context_switch_mem [OF assms(5) _ _ sp(1) assms(8)]) (simp_all add: assms(6) nz assms(2) al)
  have m2: "saved_mem s2 x = saved_mem s x" if "x \<in> own_words lm ptab p" for x
  proof -
    have "in_pcb ptab p x \<or> in_kstack lm p x"
      using that in_pcb_field [OF lo assms(2)] by (auto simp: own_words_def)
    then have "saved_mem s2 x = a_mem s2 x"
      by (rule saved_mem_other [OF lo assms(3,10,12) _ assms(2) assms(4) [symmetric]])
    then show ?thesis using assms(13) that m1 by simp
  qed
  have own: "saved_mem s2 (?p + CTX_SP_SVC_OFFSET) = ?f" "saved_mem s2 (?p + CTX_SP_USR_OFFSET) = a_sp s B_usr"
    "saved_mem s2 (?p + CTX_LR_USR_OFFSET) = a_lr s B_usr"
    using saved_mem_own(1-3) [OF lo assms(2,6,7)] m2 by (simp_all add: own_words_def)
  have "load_words ?f 9 (saved_mem s2) = load_words ?f 9 (saved_mem s)"
    using frame_words_in [OF lo assms(2,7)] m2 by (intro load_words_cong) (simp add: own_words_def)
  then have fr: "load_words ?f 9 (saved_mem s2) = resume_frame s" using saved_mem_own(5) [OF lo assms(2,6,7)] by simp
  define t where "t = s2\<lparr>a_sp := (a_sp s2)(B_svc := a_sp s2 B_svc - 36), a_mem := saved_mem s2, a_cpsr := set_mode 0x13 (a_cpsr s2)\<rparr>"
  have save: "exec_code ctxsw_save s2 = Some t"
    using ctxsw_save_eq [OF assms(9) _ sp(2)] al assms(10) by (simp add: t_def)
  have t1: "a_r t 1 = ?p" "a_mem t = saved_mem s2" using assms(11) by (simp_all add: t_def)
  have "word_aligned (a_r t 1)" "word_aligned ?f" "a_mem t (a_r t 1 + CTX_SP_SVC_OFFSET) = ?f"
    using al own(1) assms(7) by (simp_all only: t1 frame_in_def)
  then obtain s3 where s3: "exec_code ctxsw_load t = Some s3" "a_cpsr s3 = set_mode 0x13 (a_cpsr t)"
    "a_pc s3 = saved_mem s2 (?f + 32)" "resume_frame s3 = load_words ?f 9 (saved_mem s2)"
    "a_sp s3 = (a_sp t)(B_usr := saved_mem s2 (?p + CTX_SP_USR_OFFSET), B_svc := ?f + 36)"
    "a_lr s3 = (a_lr t)(B_usr := saved_mem s2 (?p + CTX_LR_USR_OFFSET), B_svc := saved_mem s2 (?f + 32))"
    using ctxsw_load_eq [of t ?f] unfolding t1 by metis
  have "context_switch_S s2 = Some s3" using save s3(1) nz [OF assms(3)] assms(10) by (simp add: context_switch_S_def)
  then show ?thesis using s3 own fr resume_frame_last [OF fr] by auto
qed

section \<open>The first entry\<close>

text \<open>Memory holds what \<open>process_build_initial_frame\<close> wrote for the process.\<close>

definition holds_frame :: "kernel \<Rightarrow> nat \<Rightarrow> u32 \<Rightarrow> (u32 \<Rightarrow> u32) \<Rightarrow> bool" where
  "holds_frame k i p m \<longleftrightarrow>
     (let ctx = p_ctx (processes k ! i); f = c_sp_svc ctx in
      m (p + CTX_SP_SVC_OFFSET) = f \<and> m (p + CTX_SP_USR_OFFSET) = c_sp_usr ctx \<and> m (p + CTX_LR_USR_OFFSET) = c_lr_usr ctx \<and>
      load_words f 25 m = load_words f 25 (kstack k))"

lemma first_entry_lands:
  assumes "i < length (processes k)" "k' = process_build_initial_frame lm i k" "q = processes k ! i"
    "holds_frame k' i (a_r s 1) (a_mem s)" "a_r s 0 = 0" "word_aligned (a_r s 1)"
    "word_aligned (p_kstack_base q)" "word_aligned (p_kstack_size q)"
  shows "\<exists>s1 s2. context_switch_S s = Some s1 \<and> a_pc s1 = lm_first_entry lm \<and>
    exec_code ret_from_first_entry s1 = Some s2 \<and>
    a_pc s2 = p_user_entry q \<and> a_cpsr s2 = 0x10 \<and> (\<forall>j < 13. a_r s2 j = 0) \<and>
    a_sp s2 B_usr = USER_STACK_TOP \<and> a_lr s2 B_usr = 0 \<and> a_sp s2 B_svc = p_kstack_base q + p_kstack_size q \<and>
    a_cp s2 TTBR0 = a_mem s (a_r s 1 + PROC_PGD_PA_OFFSET) OR TTBR_ATTRS"
proof -
  define f where "f = p_kstack_base q + p_kstack_size q - INIT_STACK_WORDS * 4"
  have f: "word_aligned f"
    unfolding f_def using assms(7,8) by (intro word_aligned_diff word_aligned_add) (simp_all add: INIT_STACK_WORDS_def word_aligned_def)
  have ctx: "c_sp_svc (p_ctx (processes k' ! i)) = f" "c_sp_usr (p_ctx (processes k' ! i)) = USER_STACK_TOP"
    "c_lr_usr (p_ctx (processes k' ! i)) = 0" "kstack k' = store_words f (initial_frame lm (p_user_entry q)) (kstack k)"
    using assms(1,3) by (simp_all add: assms(2) process_build_initial_frame_def Let_def f_def nth_upd_proc)
  have m: "a_mem s (a_r s 1 + CTX_SP_SVC_OFFSET) = f" "a_mem s (a_r s 1 + CTX_SP_USR_OFFSET) = USER_STACK_TOP"
    "a_mem s (a_r s 1 + CTX_LR_USR_OFFSET) = 0" "load_words f 25 (a_mem s) = initial_frame lm (p_user_entry q)"
    using assms(4) by (simp_all add: holds_frame_def Let_def ctx initial_frame_def)
  have w: "a_mem s (f + 4 * of_nat j) = initial_frame lm (p_user_entry q) ! j" if "j < 25" for j
    using load_words_nth [OF that, of f "a_mem s"] m(4) by simp
  obtain s1 where s1: "exec_code ctxsw_load s = Some s1" "a_mem s1 = a_mem s" "a_cpsr s1 = set_mode 0x13 (a_cpsr s)"
    "a_cp s1 = (a_cp s)(TTBR0 := a_mem s (a_r s 1 + PROC_PGD_PA_OFFSET) OR TTBR_ATTRS)" "a_pc s1 = a_mem s (f + 32)"
    "a_sp s1 = (a_sp s)(B_usr := a_mem s (a_r s 1 + CTX_SP_USR_OFFSET), B_svc := f + 36)"
    "a_lr s1 = (a_lr s)(B_usr := a_mem s (a_r s 1 + CTX_LR_USR_OFFSET), B_svc := a_mem s (f + 32))"
    by (rule ctxsw_load_eq [OF assms(6) f m(1)]) blast
  have l: "load_words (f + 36) 14 (a_mem s) = replicate 14 0" "a_mem s (f + 92) = p_user_entry q" "a_mem s (f + 96) = 0x10"
    "a_mem s (f + 32) = lm_first_entry lm"
  proof -
    have "load_words f (9 + 16) (a_mem s) = load_words f 9 (a_mem s) @ load_words (f + 36) (14 + 2) (a_mem s)"
      by (subst load_words_add) simp
    then have "load_words (f + 36) (14 + 2) (a_mem s) = drop 9 (initial_frame lm (p_user_entry q))" using m(4) by simp
    moreover have "take 14 (load_words (f + 36) (14 + 2) (a_mem s)) = load_words (f + 36) 14 (a_mem s)"
      by (simp add: load_words_eq take_map)
    ultimately have "load_words (f + 36) 14 (a_mem s) = take 14 (drop 9 (initial_frame lm (p_user_entry q)))" by simp
    then show "load_words (f + 36) 14 (a_mem s) = replicate 14 0" by (simp add: initial_frame_def numeral_eq_Suc)
    show "a_mem s (f + 92) = p_user_entry q" "a_mem s (f + 96) = 0x10" "a_mem s (f + 32) = lm_first_entry lm"
      using w [of 23] w [of 24] w [of 8] by (simp_all add: initial_frame_def nth_append)
  qed
  have al: "word_aligned (f + 36)" "word_aligned (f + 92)" using f by (simp_all add: word_aligned_add word_aligned_def [of 92])
  have "exec_code ret_from_first_entry s1 = Some (s1\<lparr>
      a_r := (a_r s1)(0 := 0, 1 := 0, 2 := 0, 3 := 0, 4 := 0, 5 := 0, 6 := 0, 7 := 0, 8 := 0, 9 := 0, 10 := 0, 11 := 0, 12 := 0),
      a_sp := (a_sp s1)(B_svc := f + 100), a_lr := (a_lr s1)(B_svc := 0),
      a_pc := p_user_entry q, a_cpsr := 0x10\<rparr>)"
    using l al s1(2,3,6) by (simp add: ret_from_first_entry_def user_regs_def Let_def numeral_eq_Suc add.assoc del: load_words.simps)
  moreover have "context_switch_S s = Some s1" using assms(5) s1(1) by (simp add: context_switch_S_def)
  moreover have "f + 100 = p_kstack_base q + p_kstack_size q" by (simp add: f_def INIT_STACK_WORDS_def)
  ultimately show ?thesis using s1 l(4) m(2,3)
    by (auto simp: less_Suc_eq eval_nat_numeral)
qed

end
