(* ===== verification/Asm_entry.thy ===== *)
theory Asm_entry
  imports Asm_switch
begin

text \<open>
  The vector table (\<open>vectors.S\<close>) and the entry and exit stubs of \<open>exception_entry.S\<close>, at the level of
  instructions. A stub ends at its \<open>bl\<close>; the C handler is what happens between entry and exit.
\<close>

section \<open>Taking an exception\<close>

datatype exn = X_undef | X_svc | X_pabort | X_dabort | X_irq | X_fiq

fun exn_mode :: "exn \<Rightarrow> u32" where
  "exn_mode X_undef = 0x1B"
| "exn_mode X_svc = 0x13"
| "exn_mode X_pabort = 0x17"
| "exn_mode X_dabort = 0x17"
| "exn_mode X_irq = 0x12"
| "exn_mode X_fiq = 0x11"

text \<open>
  The link register that the hardware sets, relative to \<open>pc\<close>: the address of the instruction that
  caused the exception, and for an interrupt of the next one to be executed.
\<close>

fun exn_lr :: "exn \<Rightarrow> u32 \<Rightarrow> u32" where
  "exn_lr X_dabort pc = pc + 8"
| "exn_lr _ pc = pc + 4"

fun exn_vector :: "exn \<Rightarrow> u32" where
  "exn_vector X_undef = 0x04"
| "exn_vector X_svc = 0x08"
| "exn_vector X_pabort = 0x0C"
| "exn_vector X_dabort = 0x10"
| "exn_vector X_irq = 0x18"
| "exn_vector X_fiq = 0x1C"

definition take_exn :: "exn \<Rightarrow> cpu \<Rightarrow> cpu" where
  "take_exn x s =
     (let b = bank_of (exn_mode x) in
      s\<lparr>a_spsr := (a_spsr s)(b := a_cpsr s),
        a_cpsr := set_mode (exn_mode x) (a_cpsr s OR (if x = X_fiq then 0xC0 else 0x80)),
        a_pc := a_cp s VBAR + exn_vector x, a_lr := (a_lr s)(b := exn_lr x (a_pc s))\<rparr>)"

section \<open>The stubs\<close>

text \<open>Saves \<open>{r0-r12, lr}\<close> and the status word on the current stack; r0 points at the frame.\<close>

definition push_context :: "instr list" where
  "push_context = [Stmfd (user_regs @ [LR]), Mrs_spsr (R 0), Stmfd [R 0], Mov (R 0) SP]"

fun exception_entry :: "exn \<Rightarrow> instr list" where
  "exception_entry X_dabort = [Subi LR LR 8] @ push_context @ [Cps 0x13]"
| "exception_entry X_pabort = [Subi LR LR 4] @ push_context @ [Cps 0x13]"
| "exception_entry X_undef = [Subi LR LR 4] @ push_context @ [Cps 0x13]"
| "exception_entry X_svc = push_context"
| "exception_entry X_irq = [Subi LR LR 4, Srsdb 0x13, Cps 0x13, Stmfd (user_regs @ [LR])]"
| "exception_entry X_fiq = []"

definition exception_exit_svc :: "instr list" where
  "exception_exit_svc = [Ldmfd [R 0], Msr_spsr (R 0), Ldmfd_ret user_regs]"

definition exception_exit_irq :: "instr list" where
  "exception_exit_irq = [Ldmfd (user_regs @ [LR]), Rfefd]"

text \<open>The words of the vector table: instruction \<open>i\<close> loads the \<open>pc\<close> from entry \<open>i\<close> of the literal pool.\<close>

datatype vector = V_start | V_exn exn | V_nop

definition vectors :: "vector list" where
  "vectors = [V_start, V_exn X_undef, V_exn X_svc, V_exn X_pabort, V_exn X_dabort, V_nop, V_exn X_irq, V_exn X_fiq]"

definition vector_at :: "u32 \<Rightarrow> vector" where
  "vector_at off = vectors ! (unat off div 4)"

lemma vector_routes: "vector_at (exn_vector x) = V_exn x"
  by (cases x) (simp_all add: vector_at_def vectors_def)

section \<open>The frame\<close>

text \<open>\<open>exception_context_t\<close> read from memory.\<close>

definition frame_ctx :: "u32 \<Rightarrow> (u32 \<Rightarrow> u32) \<Rightarrow> exception_context" where
  "frame_ctx a m = \<lparr>e_spsr = m a, e_r = load_words (a + 4) 13 m, e_lr = m (a + 56)\<rparr>"

text \<open>The fault registers, and what each stub hands over to C.\<close>

definition read_dfsr :: "cpu \<Rightarrow> u32" where "read_dfsr s = a_cp s DFSR"
definition read_dfar :: "cpu \<Rightarrow> u32" where "read_dfar s = a_cp s DFAR"
definition read_ifsr :: "cpu \<Rightarrow> u32" where "read_ifsr s = a_cp s IFSR"
definition read_ifar :: "cpu \<Rightarrow> u32" where "read_ifar s = a_cp s IFAR"

fun exn_event :: "exn \<Rightarrow> cpu \<Rightarrow> event option" where
  "exn_event X_svc s = Some (Svc (frame_ctx (a_r s 0) (a_mem s)))"
| "exn_event X_dabort s = Some (Dabort (frame_ctx (a_r s 0) (a_mem s)) (read_dfsr s) (read_dfar s))"
| "exn_event X_pabort s = Some (Pabort (frame_ctx (a_r s 0) (a_mem s)) (read_ifsr s) (read_ifar s))"
| "exn_event X_undef s = Some (Undef (frame_ctx (a_r s 0) (a_mem s)))"
| "exn_event _ s = None"

lemma exn_event_ctx:
  "x \<notin> {X_irq, X_fiq} \<Longrightarrow> \<exists>ev. exn_event x s = Some ev \<and> event_ctx ev = frame_ctx (a_r s 0) (a_mem s)"
  by (cases x) simp_all

lemma upt_13: "[0..<13] = [0, 1, 2, 3, 4, 5, 6, 7, 8, 9, 10, 11, 12]"
  by (simp add: upt_rec)

lemma frame_ctx_store:
  assumes "length ws = 13"
  shows "frame_ctx a (store_words a ([v] @ ws @ [l]) m) = \<lparr>e_spsr = v, e_r = ws, e_lr = l\<rparr>"
proof -
  let ?m = "store_words a ([v] @ ws @ [l]) m"
  have all: "load_words a (1 + (13 + 1)) ?m = [v] @ ws @ [l]" using assms by (intro load_store_words) simp_all
  have "load_words a (1 + (13 + 1)) ?m = [?m a] @ load_words (a + 4) 13 ?m @ [?m (a + 56)]"
    by (subst load_words_add, subst load_words_add) (simp add: add.commute [of a] del: store_words.simps)
  then show ?thesis using all assms by (simp add: frame_ctx_def)
qed

lemma push_context_eq:
  assumes "bank_of (a_cpsr s) = b" "word_aligned (a_sp s b)"
  shows "exec_code push_context s = Some (s\<lparr>a_r := (a_r s)(0 := a_sp s b - 60), a_sp := (a_sp s)(b := a_sp s b - 60),
    a_mem := store_words (a_sp s b - 60) ([a_spsr s b] @ map (a_r s) [0..<13] @ [a_lr s b]) (a_mem s)\<rparr>)"
proof -
  have al: "word_aligned (a_sp s b - 56)" "word_aligned (a_sp s b - 60)"
    using assms(2) by (simp_all add: word_aligned_diff)
  have st: "store_words (a - 60) ([v] @ ws) m = (store_words (a - 56) ws m)(a - 60 := v)"
    if "length ws = 14" for a v ws m
  proof
    fix x
    have e: "store_words (a - 60) ([v] @ ws) m = store_words (a - 56) ws (m(a - 60 := v))" by simp
    consider "x = a - 60" | i where "i < length ws" "x = (a - 56) + 4 * of_nat i"
      | "x \<noteq> a - 60" "\<forall>i < length ws. x \<noteq> (a - 56) + 4 * of_nat i" by blast
    then show "store_words (a - 60) ([v] @ ws) m x = ((store_words (a - 56) ws m)(a - 60 := v)) x"
    proof cases
      case 1
      then show ?thesis using store_words_nth [of 0 "[v] @ ws" "a - 60" m] that by simp
    next
      case (2 i)
      have "x = (a - 60) + 4 * of_nat (Suc i)" using 2(2) by (simp add: algebra_simps)
      moreover have "x \<noteq> a - 60"
      proof
        assume "x = a - 60"
        then have "(4 * of_nat (Suc i) :: u32) = 4 * of_nat 0" using calculation by simp
        from word_offset_inj [OF this] 2(1) that show False by simp
      qed
      ultimately show ?thesis unfolding e using 2 that by (simp add: store_words_nth)
    next
      case 3
      then have "store_words (a - 56) ws m' x = m' x" for m' by (intro store_words_other) blast
      then show ?thesis unfolding e using 3(1) by simp
    qed
  qed
  show ?thesis
    using assms al st [of "map (a_r s) [0..<13] @ [a_lr s b]" "a_sp s b" "a_spsr s b" "a_mem s"]
    by (simp add: push_context_def user_regs_def Let_def upt_13 del: store_words.simps) (simp add: fun_upd_def)
qed

lemma load_13: "load_words a 13 m = [m a, m (a + 4), m (a + 8), m (a + 12), m (a + 16), m (a + 20), m (a + 24),
    m (a + 28), m (a + 32), m (a + 36), m (a + 40), m (a + 44), m (a + 48)]"
  by (simp add: load_words_eq upt_13)

lemma load_14: "load_words a 14 m = load_words a 13 m @ [m (a + 52)]"
  using load_words_add [of a 13 1 m] by simp

lemma length_frame_r [simp]: "length (e_r (frame_ctx a m)) = 13"
  by (simp add: frame_ctx_def)

lemma irq_masked_entry [simp]: "irq_masked (psr OR 0x80)"
  by (simp add: irq_masked_def bit.conj_disj_distrib2)

lemma length_user_regs [simp]: "length user_regs = 13"
  by (simp add: user_regs_def)

lemma set_regs_append:
  "length rs = length vs \<Longrightarrow> set_regs (rs @ rs') (vs @ vs') s = set_regs rs' vs' (set_regs rs vs s)"
  by (induction rs vs arbitrary: s rule: list_induct2) simp_all

lemma set_user_regs:
  assumes "length vs = 13"
  shows "set_regs user_regs vs s = s\<lparr>a_r := (\<lambda>j. if j < 13 then vs ! j else a_r s j)\<rparr>"
proof -
  obtain r0 r1 r2 r3 r4 r5 r6 r7 r8 r9 r10 r11 r12 where
    r: "vs = [r0, r1, r2, r3, r4, r5, r6, r7, r8, r9, r10, r11, r12]"
    using assms by (auto simp: numeral_eq_Suc length_Suc_conv)
  have "(\<lambda>j. if j < 13 then vs ! j else a_r s j) =
    (a_r s)(0 := r0, 1 := r1, 2 := r2, 3 := r3, 4 := r4, 5 := r5, 6 := r6, 7 := r7, 8 := r8, 9 := r9, 10 := r10, 11 := r11, 12 := r12)"
    by (auto simp: fun_eq_iff r less_Suc_eq numeral_eq_Suc)
  then show ?thesis by (simp add: user_regs_def r)
qed

section \<open>Entry\<close>

text \<open>Every stub with a frame hands its C handler the interrupted context.\<close>

lemma entry_context:
  assumes "x \<notin> {X_irq, X_fiq}" "word_aligned (a_sp s (bank_of (exn_mode x)))"
  shows "\<exists>s'. exec_code (exception_entry x) (take_exn x s) = Some s' \<and>
    frame_ctx (a_r s' 0) (a_mem s') = \<lparr>e_spsr = a_cpsr s, e_r = map (a_r s) [0..<13],
      e_lr = (if x = X_svc then a_pc s + 4 else a_pc s)\<rparr> \<and>
    a_r s' 0 = a_sp s (bank_of (exn_mode x)) - 60 \<and>
    a_sp s' = (a_sp s)(bank_of (exn_mode x) := a_sp s (bank_of (exn_mode x)) - 60) \<and>
    bank_of (a_cpsr s') = B_svc \<and> irq_masked (a_cpsr s') \<and> a_lr s' B_usr = a_lr s B_usr"
proof -
  let ?b = "bank_of (exn_mode x)"
  define s0 where "s0 = (take_exn x s)\<lparr>a_lr := (a_lr (take_exn x s))(?b := (if x = X_svc then a_pc s + 4 else a_pc s))\<rparr>"
  define s1 where "s1 = s0\<lparr>a_r := (a_r s)(0 := a_sp s ?b - 60), a_sp := (a_sp s)(?b := a_sp s ?b - 60),
    a_mem := store_words (a_sp s ?b - 60) ([a_cpsr s] @ map (a_r s) [0..<13] @ [if x = X_svc then a_pc s + 4 else a_pc s]) (a_mem s)\<rparr>"
  have b: "bank_of (a_cpsr s0) = ?b" "?b \<noteq> B_usr" "?b = B_svc \<longleftrightarrow> x = X_svc"
    using assms(1) by (cases x; simp add: s0_def take_exn_def Let_def)+
  have cps: "exec_code [Cps m] = (\<lambda>s. Some (s\<lparr>a_cpsr := set_mode m (a_cpsr s)\<rparr>))" for m by (simp add: fun_eq_iff)
  have "exec_code push_context s0 = Some s1"
    using push_context_eq [OF b(1)] assms(2) by (simp add: s0_def s1_def take_exn_def Let_def)
  moreover have "exec_code (exception_entry x) (take_exn x s) = Option.bind (exec_code push_context s0)
      (\<lambda>s'. Some (if x = X_svc then s' else s'\<lparr>a_cpsr := set_mode 0x13 (a_cpsr s')\<rparr>))"
    using assms(1) by (cases x) (simp_all add: s0_def take_exn_def Let_def exec_append cps)
  moreover have "a_cpsr s1 = set_mode (exn_mode x) (a_cpsr s OR 0x80)"
    using assms(1) by (auto simp: s1_def s0_def take_exn_def Let_def)
  ultimately have "exec_code (exception_entry x) (take_exn x s) = Some (s1\<lparr>a_cpsr := set_mode 0x13 (a_cpsr s OR 0x80)\<rparr>)"
    using assms(1) by (cases x) (simp_all add: is_mode_def)
  moreover have "frame_ctx (a_sp s ?b - 60) (a_mem s1) = \<lparr>e_spsr = a_cpsr s, e_r = map (a_r s) [0..<13],
      e_lr = (if x = X_svc then a_pc s + 4 else a_pc s)\<rparr>"
    unfolding s1_def by (simp add: frame_ctx_store del: store_words.simps append.simps)
  moreover have "a_lr s1 B_usr = a_lr s B_usr" using b(2) by (simp add: s1_def s0_def take_exn_def Let_def)
  ultimately show ?thesis by (simp add: s1_def is_mode_def)
qed

section \<open>Exit\<close>

lemma exit_svc_eq:
  assumes "bank_of (a_cpsr s) = B_svc" "word_aligned (a_sp s B_svc)" "frame_ctx (a_sp s B_svc) (a_mem s) = ctx"
  shows "\<exists>s'. exec_code exception_exit_svc s = Some s' \<and> (\<forall>j < 13. a_r s' j = e_r ctx ! j) \<and> a_pc s' = e_lr ctx \<and>
    a_cpsr s' = e_spsr ctx \<and> a_sp s' = (a_sp s)(B_svc := a_sp s B_svc + 60) \<and> a_lr s' = a_lr s \<and> a_mem s' = a_mem s"
proof -
  have al: "word_aligned (a_sp s B_svc + 4)" using assms(2) by (simp add: word_aligned_add)
  have l: "load_words (a_sp s B_svc + 4) 14 (a_mem s) = e_r ctx @ [e_lr ctx]" "a_mem s (a_sp s B_svc) = e_spsr ctx"
    "length (e_r ctx) = 13"
    using assms(3) by (auto simp: frame_ctx_def load_14 add.assoc)
  show ?thesis using assms(1,2) al l
    by (simp add: exception_exit_svc_def Let_def set_regs_append set_user_regs add.assoc)
qed

lemma exit_irq_eq:
  assumes "bank_of (a_cpsr s) = B_svc" "word_aligned a" "a = a_sp s B_svc"
    "load_words a 13 (a_mem s) = rs" "a_mem s (a + 52) = l" "a_mem s (a + 56) = pc" "a_mem s (a + 60) = psr"
  shows "\<exists>s'. exec_code exception_exit_irq s = Some s' \<and> (\<forall>j < 13. a_r s' j = rs ! j) \<and> a_pc s' = pc \<and>
    a_cpsr s' = psr \<and> a_sp s' = (a_sp s)(B_svc := a + 64) \<and> a_lr s' = (a_lr s)(B_svc := l) \<and> a_mem s' = a_mem s"
proof -
  have al: "word_aligned (a + 56)" using assms(2) by (simp add: word_aligned_add)
  have "length rs = 13" using assms(4) by auto
  then show ?thesis using assms al
    by (simp add: exception_exit_irq_def Let_def set_regs_append set_user_regs load_14 add.assoc)
qed

section \<open>There and back\<close>

lemma irq_entry_eq:
  assumes "word_aligned (a_sp s B_svc)"
  obtains s1 where "exec_code (exception_entry X_irq) (take_exn X_irq s) = Some s1"
    "a_sp s1 = (a_sp s)(B_svc := a_sp s B_svc - 64)" "a_lr s1 B_usr = a_lr s B_usr"
    "bank_of (a_cpsr s1) = B_svc" "irq_masked (a_cpsr s1)"
    "load_words (a_sp s B_svc - 64) 13 (a_mem s1) = map (a_r s) [0..<13]" "a_mem s1 (a_sp s B_svc - 12) = a_lr s B_svc"
    "a_mem s1 (a_sp s B_svc - 8) = a_pc s" "a_mem s1 (a_sp s B_svc - 4) = a_cpsr s"
proof -
  let ?a = "a_sp s B_svc - 64"
  let ?m = "(a_mem s)(a_sp s B_svc - 8 := a_pc s, a_sp s B_svc - 4 := a_cpsr s)"
  let ?ws = "map (a_r s) [0..<13] @ [a_lr s B_svc]"
  define s1 where "s1 = (take_exn X_irq s)\<lparr>a_lr := (a_lr s)(B_irq := a_pc s), a_sp := (a_sp s)(B_svc := ?a),
    a_cpsr := set_mode 0x13 (a_cpsr s OR 0x80), a_mem := store_words ?a ?ws ?m\<rparr>"
  have al: "word_aligned (a_sp s B_svc - 8)" "word_aligned ?a"
    using assms by (simp_all add: word_aligned_diff word_aligned_def [of 64])
  have "exec_code (exception_entry X_irq) (take_exn X_irq s) = Some s1"
    using al by (simp add: take_exn_def Let_def s1_def user_regs_def upt_13 is_mode_def del: store_words.simps) simp
  moreover have "load_words ?a 13 (a_mem s1) = map (a_r s) [0..<13]" "a_mem s1 (a_sp s B_svc - 12) = a_lr s B_svc"
  proof -
    have "load_words ?a 14 (store_words ?a ?ws ?m) = ?ws" by (rule load_store_words) simp_all
    then have "load_words ?a 13 (store_words ?a ?ws ?m) = map (a_r s) [0..<13] \<and> store_words ?a ?ws ?m (?a + 52) = a_lr s B_svc"
      unfolding load_14 by (simp del: store_words.simps)
    then show "load_words ?a 13 (a_mem s1) = map (a_r s) [0..<13]" "a_mem s1 (a_sp s B_svc - 12) = a_lr s B_svc"
      unfolding s1_def by simp_all
  qed
  moreover have "a_mem s1 (a_sp s B_svc - 8) = a_pc s" "a_mem s1 (a_sp s B_svc - 4) = a_cpsr s"
  proof -
    have ne: "a_sp s B_svc - 64 + 4 * of_nat j \<noteq> a_sp s B_svc - 64 + 4 * of_nat i" if "i < 14" "j \<in> {14, 15}" for i j
      using word_offset_inj [of i j] that by auto
    have "store_words ?a ?ws ?m (?a + 4 * of_nat j) = ?m (?a + 4 * of_nat j)" if "j \<in> {14, 15}" for j
      using ne that by (intro store_words_other) auto
    from this [of 14] this [of 15] show "a_mem s1 (a_sp s B_svc - 8) = a_pc s" "a_mem s1 (a_sp s B_svc - 4) = a_cpsr s"
      unfolding s1_def by simp_all
  qed
  ultimately show ?thesis by (intro that [of s1]) (simp_all add: s1_def take_exn_def Let_def is_mode_def)
qed

lemma irq_returns_to:
  assumes "word_aligned (a_sp s B_svc)" "exec_code (exception_entry X_irq) (take_exn X_irq s) = Some s1"
    "bank_of (a_cpsr s2) = B_svc" "a_sp s2 B_svc = a_sp s1 B_svc"
    "load_words (a_sp s1 B_svc) 16 (a_mem s2) = load_words (a_sp s1 B_svc) 16 (a_mem s1)"
  shows "\<exists>s3. exec_code exception_exit_irq s2 = Some s3 \<and> (\<forall>j < 13. a_r s3 j = a_r s j) \<and> a_pc s3 = a_pc s \<and>
    a_cpsr s3 = a_cpsr s \<and> a_sp s3 = (a_sp s2)(B_svc := a_sp s B_svc) \<and> a_lr s3 = (a_lr s2)(B_svc := a_lr s B_svc)"
proof -
  let ?a = "a_sp s B_svc - 64"
  from irq_entry_eq [OF assms(1)] assms(2) have s1: "a_sp s1 = (a_sp s)(B_svc := ?a)" "a_lr s1 B_usr = a_lr s B_usr"
    "load_words ?a 13 (a_mem s1) = map (a_r s) [0..<13]" "a_mem s1 (a_sp s B_svc - 12) = a_lr s B_svc"
    "a_mem s1 (a_sp s B_svc - 8) = a_pc s"
    "a_mem s1 (a_sp s B_svc - 4) = a_cpsr s"
    by (metis option.inject)+
  have m: "a_mem s2 (?a + 4 * of_nat i) = a_mem s1 (?a + 4 * of_nat i)" if "i < 16" for i
    using arg_cong [OF assms(5), of "\<lambda>l. l ! i"] that s1(1) by (simp add: load_words_nth)
  have l: "load_words ?a 13 (a_mem s2) = map (a_r s) [0..<13]"
    using load_words_cong [of 13 "a_mem s2" ?a "a_mem s1"] m s1(3) by simp
  have p: "a_mem s2 (?a + 52) = a_lr s B_svc" "a_mem s2 (?a + 56) = a_pc s" "a_mem s2 (?a + 60) = a_cpsr s"
    using m [of 13] m [of 14] m [of 15] s1(4-6) by simp_all
  have al: "word_aligned ?a" using assms(1) by (simp add: word_aligned_diff word_aligned_def [of 64])
  have e: "?a = a_sp s2 B_svc" using assms(4) s1(1) by simp
  from exit_irq_eq [OF assms(3) al e l p] show ?thesis by auto
qed

lemma irq_round_trip:
  assumes "word_aligned (a_sp s B_svc)" "exec_code (exception_entry X_irq) (take_exn X_irq s) = Some s1"
    "bank_of (a_cpsr s2) = B_svc" "a_sp s2 = a_sp s1" "a_lr s2 B_usr = a_lr s1 B_usr"
    "load_words (a_sp s1 B_svc) 16 (a_mem s2) = load_words (a_sp s1 B_svc) 16 (a_mem s1)"
  shows "\<exists>s3. exec_code exception_exit_irq s2 = Some s3 \<and> (\<forall>j < 13. a_r s3 j = a_r s j) \<and> a_pc s3 = a_pc s \<and>
    a_cpsr s3 = a_cpsr s \<and> a_sp s3 = a_sp s \<and> a_lr s3 B_usr = a_lr s B_usr \<and> a_lr s3 B_svc = a_lr s B_svc"
proof -
  from irq_entry_eq [OF assms(1)] assms(2) have "a_sp s1 = (a_sp s)(B_svc := a_sp s B_svc - 64)" "a_lr s1 B_usr = a_lr s B_usr"
    by (metis option.inject)+
  then show ?thesis using irq_returns_to [OF assms(1-3) _ assms(6)] assms(4,5) by auto
qed

text \<open>The same with the user's banked registers brought back by somebody else.\<close>

lemma irq_resumes:
  assumes "word_aligned (a_sp s B_svc)" "exec_code (exception_entry X_irq) (take_exn X_irq s) = Some s1"
    "bank_of (a_cpsr s2) = B_svc" "a_sp s2 B_svc = a_sp s1 B_svc" "a_sp s2 B_usr = a_sp s1 B_usr" "a_lr s2 B_usr = a_lr s1 B_usr"
    "load_words (a_sp s1 B_svc) 16 (a_mem s2) = load_words (a_sp s1 B_svc) 16 (a_mem s1)"
  shows "\<exists>s3. exec_code exception_exit_irq s2 = Some s3 \<and> (\<forall>j < 13. a_r s3 j = a_r s j) \<and> a_pc s3 = a_pc s \<and>
    a_cpsr s3 = a_cpsr s \<and> a_sp s3 B_usr = a_sp s B_usr \<and> a_lr s3 B_usr = a_lr s B_usr \<and> a_sp s3 B_svc = a_sp s B_svc"
proof -
  from irq_entry_eq [OF assms(1)] assms(2) have "a_sp s1 = (a_sp s)(B_svc := a_sp s B_svc - 64)" "a_lr s1 B_usr = a_lr s B_usr"
    by (metis option.inject)+
  then show ?thesis using irq_returns_to [OF assms(1-4,7)] assms(5,6) by auto
qed

lemma svc_round_trip:
  assumes "word_aligned (a_sp s B_svc)" "exec_code (exception_entry X_svc) (take_exn X_svc s) = Some s1"
    "bank_of (a_cpsr s2) = B_svc" "a_sp s2 = a_sp s1" "a_lr s2 B_usr = a_lr s1 B_usr"
    "frame_ctx (a_sp s1 B_svc) (a_mem s2) =
      (frame_ctx (a_sp s1 B_svc) (a_mem s1))\<lparr>e_r := (e_r (frame_ctx (a_sp s1 B_svc) (a_mem s1)))[0 := v]\<rparr>"
  shows "\<exists>s3. exec_code exception_exit_svc s2 = Some s3 \<and> a_r s3 0 = v \<and> (\<forall>j \<in> {1..<13}. a_r s3 j = a_r s j) \<and>
    a_pc s3 = a_pc s + 4 \<and> a_cpsr s3 = a_cpsr s \<and> a_sp s3 = a_sp s \<and> a_lr s3 B_usr = a_lr s B_usr"
proof -
  let ?a = "a_sp s B_svc - 60"
  have "\<exists>s'. exec_code (exception_entry X_svc) (take_exn X_svc s) = Some s' \<and>
    frame_ctx (a_r s' 0) (a_mem s') = \<lparr>e_spsr = a_cpsr s, e_r = map (a_r s) [0..<13], e_lr = a_pc s + 4\<rparr> \<and>
    a_r s' 0 = ?a \<and> a_sp s' = (a_sp s)(B_svc := ?a) \<and> a_lr s' B_usr = a_lr s B_usr"
    using entry_context [of X_svc s] assms(1) by fastforce
  then have s1: "frame_ctx ?a (a_mem s1) = \<lparr>e_spsr = a_cpsr s, e_r = map (a_r s) [0..<13], e_lr = a_pc s + 4\<rparr>"
    "a_sp s1 = (a_sp s)(B_svc := ?a)" "a_lr s1 B_usr = a_lr s B_usr"
    using assms(2) by auto
  have al: "word_aligned (a_sp s2 B_svc)" using assms(1,4) s1(2) by (simp add: word_aligned_diff)
  have f: "frame_ctx (a_sp s2 B_svc) (a_mem s2) = \<lparr>e_spsr = a_cpsr s, e_r = (map (a_r s) [0..<13])[0 := v], e_lr = a_pc s + 4\<rparr>"
    using assms(4,6) s1(1,2) by simp
  from exit_svc_eq [OF assms(3) al f] show ?thesis using assms(4,5) s1(2,3)
    by (auto simp: nth_list_update simp del: upt_rec_numeral)
qed

section \<open>Preemption\<close>

text \<open>A switch leaves the stack of the outgoing process above its stack pointer alone.\<close>

lemma saved_mem_above:
  assumes "layout_ok lm ptab" "p < 3" "a_r s 0 = pcb_addr ptab p" "frame_in lm p (a_sp s B_svc - 36)"
    "in_kstack lm p x" "unat (a_sp s B_svc - 36) + 36 \<le> unat x"
  shows "saved_mem s x = a_mem s x"
proof -
  let ?f = "a_sp s B_svc - 36"
  have "x \<noteq> ?f + 4 * of_nat j" if "j < 9" for j
  proof -
    have "unat ?f + 4 * j < 2 ^ 32" using assms(1,2,4) that by (simp add: frame_in_def layout_ok_def)
    then have "unat (?f + of_nat (4 * j)) = unat ?f + 4 * j" by (rule unat_plus_small)
    then show ?thesis using that assms(6) by auto
  qed
  then have "store_words ?f (resume_frame s) (a_mem s) x = a_mem s x" by (intro store_words_other) simp
  moreover have "x \<noteq> pcb_addr ptab p + CTX_SP_SVC_OFFSET" "x \<noteq> pcb_addr ptab p + CTX_SP_USR_OFFSET"
    "x \<noteq> pcb_addr ptab p + CTX_LR_USR_OFFSET"
    using in_pcb_field [OF assms(1,2)] region_disjoint(1) [OF assms(1,2,2) _ assms(5)] by blast+
  ultimately show ?thesis by (simp add: saved_mem_def Let_def assms(3))
qed

text \<open>A switch goes through if the stack pointer saved for the next process is aligned.\<close>

lemma context_switch_runs:
  assumes "layout_ok lm ptab" "p < 3" "n < 3" "n \<noteq> p" "bank_of (a_cpsr s) = B_svc"
    "a_r s 0 = pcb_addr ptab p" "a_r s 1 = pcb_addr ptab n" "frame_in lm p (a_sp s B_svc - 36)"
    "word_aligned (a_mem s (pcb_addr ptab n + CTX_SP_SVC_OFFSET))"
  shows "\<exists>s'. context_switch_S s = Some s'"
proof -
  note lo = assms(1) and al = pcb_aligned [OF assms(1)]
  define t where "t = s\<lparr>a_sp := (a_sp s)(B_svc := a_sp s B_svc - 36), a_mem := saved_mem s, a_cpsr := set_mode 0x13 (a_cpsr s)\<rparr>"
  have sp: "word_aligned (a_sp s B_svc)" using assms(8) word_aligned_add [of "a_sp s B_svc - 36" 36] by (simp add: frame_in_def)
  have save: "exec_code ctxsw_save s = Some t" using ctxsw_save_eq [OF assms(5) _ sp] al assms(6) by (simp add: t_def)
  have t: "a_r t 1 = pcb_addr ptab n" "a_mem t = saved_mem s" using assms(7) by (simp_all add: t_def)
  have "saved_mem s (pcb_addr ptab n + CTX_SP_SVC_OFFSET) = a_mem s (pcb_addr ptab n + CTX_SP_SVC_OFFSET)"
    using in_pcb_field(1) [OF lo assms(3)] by (intro saved_mem_other [OF lo assms(2,6,8) _ assms(3,4)]) simp
  then have f: "a_mem t (a_r t 1 + CTX_SP_SVC_OFFSET) = a_mem s (pcb_addr ptab n + CTX_SP_SVC_OFFSET)" by (simp only: t)
  obtain s' where "exec_code ctxsw_load t = Some s'"
    by (rule ctxsw_load_eq [OF al [of n, folded t(1)] assms(9) f]) blast
  then show ?thesis using save pcb_nonzero [OF lo assms(2)] assms(6) by (auto simp: context_switch_S_def)
qed

text \<open>So the words above survive until the process is switched in again.\<close>

lemma switch_back_above:
  assumes "layout_ok lm ptab" "p < 3" "q < 3" "q \<noteq> p"
    "bank_of (a_cpsr s) = B_svc" "a_r s 0 = pcb_addr ptab p" "frame_in lm p (a_sp s B_svc - 36)"
    "context_switch_S s = Some s1"
    "bank_of (a_cpsr s2) = B_svc" "a_r s2 0 = pcb_addr ptab q" "a_r s2 1 = pcb_addr ptab p"
    "frame_in lm q (a_sp s2 B_svc - 36)" "\<forall>x \<in> own_words lm ptab p. a_mem s2 x = a_mem s1 x"
    "context_switch_S s2 = Some s3" "in_kstack lm p x" "unat (a_sp s B_svc - 36) + 36 \<le> unat x"
  shows "a_mem s3 x = a_mem s x"
proof -
  note lo = assms(1) and al = pcb_aligned [OF assms(1)] and nz = pcb_nonzero [OF assms(1)]
  have sp: "word_aligned (a_sp s B_svc)" "word_aligned (a_sp s2 B_svc)"
    using assms(7,12) word_aligned_add [of "_ - 36" 36] by (force simp: frame_in_def)+
  have m1: "a_mem s1 = saved_mem s"
    by (rule context_switch_mem [OF assms(5) _ _ sp(1) assms(8)]) (simp_all add: assms(6) nz assms(2) al)
  have m3: "a_mem s3 = saved_mem s2"
    by (rule context_switch_mem [OF assms(9) _ _ sp(2) assms(14)]) (simp_all add: assms(10) nz assms(3) al)
  have "saved_mem s2 x = a_mem s2 x"
    by (rule saved_mem_other [OF lo assms(3,10,12) _ assms(2) assms(4) [symmetric]]) (simp add: assms(15))
  then show ?thesis
    using saved_mem_above [OF lo assms(2,6,7,15,16)] assms(13,15) m1 m3 by (simp add: own_words_def)
qed

end
