(* ===== verification/Asm_boot.thy ===== *)
theory Asm_boot
  imports Asm_entry Kernel_Props
begin

text \<open>
  From reset to \<open>kmain\<close>: \<open>kernel/arch/arm/boot/start.S\<close>, \<open>mmu_init\<close> of \<open>mmu.c\<close> as it runs with the
  MMU off, on physical memory, and \<open>mmu_enable.S\<close>; and \<open>user/crt0.S\<close>, the other end of a process.
\<close>

section \<open>start.S\<close>

text \<open>The symbols that only the boot code uses (virtual addresses).\<close>

record boot_syms =
  bs_start :: u32
  bs_start_va :: u32
  bs_fiq_stack_top :: u32
  bs_irq_stack_top :: u32
  bs_abt_stack_top :: u32
  bs_und_stack_top :: u32

text \<open>
  \<open>_start\<close> up to the loop over BSS. The list is entered at \<open>_start\<close>, so \<open>adr r0, _start\<close> reads the
  address of entry.
\<close>

definition start_reset :: "linkmap \<Rightarrow> boot_syms \<Rightarrow> instr list" where
  "start_reset lm bs =
     [Cpsid_if,
      Mov (R 0) PC,
      Movi (R 4) (bs_start bs),
      Sub (R 4) (R 4) (R 0),
      Cps 0x13,
      Movi (R 1) (lm_svc_stack_top lm),
      Sub SP (R 1) (R 4),
      Movi (R 1) (fst (lm_bss lm)),
      Movi (R 2) (snd (lm_bss lm)),
      Sub (R 1) (R 1) (R 4),
      Sub (R 2) (R 2) (R 4),
      Movi (R 3) 0]"

text \<open>\<open>.Lzero_bss\<close>: \<open>cmp r1, r2; strlo r3, [r1], #4; blo\<close>.\<close>

partial_function (option) zero_bss :: "cpu \<Rightarrow> cpu option" where
  "zero_bss s =
     (if a_r s 1 < a_r s 2 then
        if word_aligned (a_r s 1)
        then zero_bss (s\<lparr>a_r := (a_r s)(1 := a_r s 1 + 4), a_mem := (a_mem s)(a_r s 1 := a_r s 3)\<rparr>)
        else None
      else Some s)"

text \<open>The part that runs before \<open>mmu_init\<close>, with its argument in r0.\<close>

definition start_head :: "linkmap \<Rightarrow> boot_syms \<Rightarrow> cpu \<Rightarrow> cpu option" where
  "start_head lm bs s =
     Option.bind (exec_code (start_reset lm bs) s) (\<lambda>s.
     Option.bind (zero_bss s) (exec_code [Mov (R 0) (R 4)]))"

section \<open>mmu\_enable.S and mmu\_init\<close>

definition mmu_enable_S :: "instr list" where
  "mmu_enable_S =
     [Maint, Movi (R 1) 0, Maint, Maint, Maint,
      Orri (R 0) (R 0) 0x4A, Mcr TTBR0 (R 0),
      Movi (R 1) 0, Mcr TTBCR (R 1),
      Movi (R 1) 1, Mcr DACR (R 1),
      Movi (R 1) 0, Maint, Maint, Maint,
      Mrc SCTLR (R 1),
      Orri (R 1) (R 1) (push_bit 0 1),
      Orri (R 1) (R 1) (push_bit 2 1),
      Orri (R 1) (R 1) (push_bit 11 1),
      Orri (R 1) (R 1) (push_bit 12 1),
      Mcr SCTLR (R 1), Maint,
      Bx LR]"

text \<open>The L1 table at a physical address; an L1 table has no entry beyond \<open>PGD_ENTRIES\<close>.\<close>

definition pgd_at :: "u32 \<Rightarrow> (u32 \<Rightarrow> u32) \<Rightarrow> pgd" where
  "pgd_at pa m i = (if i < PGD_ENTRIES then m (pa + 4 * of_nat i) else 0)"

definition put_pgd :: "u32 \<Rightarrow> pgd \<Rightarrow> (u32 \<Rightarrow> u32) \<Rightarrow> u32 \<Rightarrow> u32" where
  "put_pgd pa t m = store_words pa (map t [0..<PGD_ENTRIES]) m"

definition mmu_init_S :: "linkmap \<Rightarrow> platform \<Rightarrow> cpu \<Rightarrow> cpu option" where
  "mmu_init_S lm pl s =
     (let pgd_pa = lm_boot_pgd lm - a_r s 0 in
      exec_code mmu_enable_S
        (s\<lparr>a_r := (a_r s)(0 := pgd_pa),
           a_mem := put_pgd pgd_pa (mmu_build_boot_pgd pl (pgd_at pgd_pa (a_mem s))) (a_mem s)\<rparr>))"

text \<open>From \<open>_start_va\<close> to the call of \<open>kmain\<close>, the eleventh instruction; \<open>.Lhalt\<close> follows.\<close>

definition start_va :: "linkmap \<Rightarrow> boot_syms \<Rightarrow> instr list" where
  "start_va lm bs =
     [Cps 0x11, Movi SP (bs_fiq_stack_top bs),
      Cps 0x12, Movi SP (bs_irq_stack_top bs),
      Cps 0x17, Movi SP (bs_abt_stack_top bs),
      Cps 0x1B, Movi SP (bs_und_stack_top bs),
      Cps 0x13, Movi SP (lm_svc_stack_top lm),
      Bl (lm_kmain lm) (bs_start_va bs + 44)]"

definition start_S :: "linkmap \<Rightarrow> platform \<Rightarrow> boot_syms \<Rightarrow> cpu \<Rightarrow> cpu option" where
  "start_S lm pl bs s =
     Option.bind (start_head lm bs s) (\<lambda>s.
     Option.bind (mmu_init_S lm pl s) (\<lambda>s.
     Option.bind (exec_code [Movi PC (bs_start_va bs)] s) (exec_code (start_va lm bs))))"

text \<open>
  The accessors that the C code has for the status and control registers. Nobody calls
  \<open>irq_cpu_enable\<close>: interrupts come on with the status word of the first user frame.
\<close>

definition mmu_read_sctlr :: "cpu \<Rightarrow> u32" where "mmu_read_sctlr s = a_cp s SCTLR"
definition mmu_read_ttbr0 :: "cpu \<Rightarrow> u32" where "mmu_read_ttbr0 s = a_cp s TTBR0"
definition read_cpsr :: "cpu \<Rightarrow> u32" where "read_cpsr s = a_cpsr s"

definition irq_cpu_enable :: "cpu \<Rightarrow> cpu" where
  "irq_cpu_enable s = s\<lparr>a_cpsr := a_cpsr s AND NOT 0x80\<rparr>"

section \<open>crt0.S\<close>

text \<open>
  \<open>_ustart\<close> (at \<open>u\<close>) once \<open>main\<close> has returned: \<open>bl __noreturn_sys_exit\<close>, which sets r7 and stops at
  its \<open>svc\<close>, the fifth instruction of the image.
\<close>

definition ustart_exit :: "u32 \<Rightarrow> cpu \<Rightarrow> cpu option" where
  "ustart_exit u s = exec_code [Bl (u + 12) (u + 8), Movi (R 7) 3, Movi PC (u + 16)] s"

section \<open>The loop over BSS\<close>

lemma word_aligned_unat: "word_aligned a \<longleftrightarrow> 4 dvd unat a"
proof -
  have "4 dvd uint a \<longleftrightarrow> 4 dvd unat a" using int_dvd_int_iff [of 4 "unat a"] by simp
  then show ?thesis by (simp add: word_aligned_iff)
qed

lemma aligned_step:
  assumes "word_aligned a" "word_aligned b" "a < b"
  shows "unat (a + 4) = unat a + 4" "a + 4 \<le> b"
proof -
  have "unat a + 4 \<le> unat b"
    using assms by (auto simp: word_aligned_unat word_less_nat_alt elim!: dvdE)
  moreover note unat_u32_less [of b]
  ultimately show "unat (a + 4) = unat a + 4" using unat_plus_small [of a 4] by simp
  then show "a + 4 \<le> b" using \<open>unat a + 4 \<le> unat b\<close> by (simp add: word_le_nat_alt)
qed

definition zeroed :: "u32 \<Rightarrow> u32 \<Rightarrow> (u32 \<Rightarrow> u32) \<Rightarrow> u32 \<Rightarrow> u32" where
  "zeroed a b m x = (if a \<le> x \<and> x < b \<and> word_aligned x then 0 else m x)"

lemma zeroed_step:
  assumes "word_aligned a" "word_aligned b" "a < b"
  shows "zeroed (a + 4) b (m(a := 0)) = zeroed a b m"
proof
  fix x
  show "zeroed (a + 4) b (m(a := 0)) x = zeroed a b m x"
  proof (cases "a < x \<and> word_aligned x")
    case True
    then have "a + 4 \<le> x" using aligned_step(2) [OF assms(1), of x] by simp
    then show ?thesis using True by (auto simp: zeroed_def)
  next
    case False
    have "a < a + 4" using aligned_step(1) [OF assms] by (simp add: word_less_nat_alt)
    then have "\<not> (a + 4 \<le> x \<and> word_aligned x)" using False by (meson order_less_le_trans)
    then show ?thesis using False assms(1,3) by (auto simp: zeroed_def order_le_less)
  qed
qed

lemma zero_bss_eq:
  assumes "word_aligned (a_r s 1)" "word_aligned (a_r s 2)" "a_r s 1 \<le> a_r s 2" "a_r s 3 = 0"
  shows "zero_bss s = Some (s\<lparr>a_r := (a_r s)(1 := a_r s 2), a_mem := zeroed (a_r s 1) (a_r s 2) (a_mem s)\<rparr>)"
  using assms
proof (induction "unat (a_r s 2) - unat (a_r s 1)" arbitrary: s rule: less_induct)
  case less
  show ?case
  proof (cases "a_r s 1 < a_r s 2")
    case True
    let ?s = "s\<lparr>a_r := (a_r s)(1 := a_r s 1 + 4), a_mem := (a_mem s)(a_r s 1 := 0)\<rparr>"
    note st = aligned_step [OF less.prems(1,2) True]
    have "unat (a_r ?s 2) - unat (a_r ?s 1) < unat (a_r s 2) - unat (a_r s 1)"
      using True st(1) by (simp add: word_less_nat_alt)
    moreover have "word_aligned (a_r ?s 1)" using less.prems(1) by (simp add: word_aligned_add)
    ultimately have "zero_bss ?s = Some (?s\<lparr>a_r := (a_r ?s)(1 := a_r ?s 2),
        a_mem := zeroed (a_r ?s 1) (a_r ?s 2) (a_mem ?s)\<rparr>)"
      using less.prems st(2) by (intro less.hyps) simp_all
    then show ?thesis
      using True less.prems zeroed_step [OF less.prems(1,2) True] by (simp add: zero_bss.simps [of s])
  next
    case False
    then have "a_r s 1 = a_r s 2" using less.prems(3) by simp
    moreover have "zeroed a a m = m" for a m by (auto simp: zeroed_def fun_eq_iff)
    ultimately show ?thesis by (simp add: zero_bss.simps [of s] fun_upd_idem)
  qed
qed

section \<open>Reaching kmain\<close>

text \<open>
  What the linker scripts promise: BSS lies in the high alias of RAM, aligned, and holds
  \<open>boot_pgd\<close>.
\<close>

definition bss_ok :: "platform \<Rightarrow> linkmap \<Rightarrow> bool" where
  "bss_ok pl lm \<longleftrightarrow> (case lm_bss lm of (lo, hi) \<Rightarrow>
     word_aligned lo \<and> word_aligned hi \<and> word_aligned (lm_boot_pgd lm) \<and>
     VA_KERNEL_BASE \<le> lo \<and> lo \<le> lm_boot_pgd lm \<and> unat (lm_boot_pgd lm) + 0x4000 \<le> unat hi)"

lemma phys_sub: "VA_KERNEL_BASE \<le> x \<Longrightarrow>
    unat (x - PHYS_OFFSET (board_of pl)) = unat x - unat (PHYS_OFFSET (board_of pl)) \<and>
    unat (PHYS_OFFSET (board_of pl)) \<le> unat x"
  by (cases pl) (auto simp: VA_KERNEL_BASE_def board_defs word_le_nat_alt unat_sub)

lemma offset_word_aligned: "word_aligned (PHYS_OFFSET (board_of pl))"
  by (cases pl) (simp_all add: board_defs word_aligned_def)

lemma start_head_eq:
  assumes "bss_ok pl lm" "a_pc s = bs_start bs - PHYS_OFFSET (board_of pl)"
  defines "off \<equiv> PHYS_OFFSET (board_of pl)"
  obtains s1 where "start_head lm bs s = Some s1" "a_r s1 0 = off" "a_cp s1 = a_cp s"
    "a_mem s1 = zeroed (fst (lm_bss lm) - off) (snd (lm_bss lm) - off) (a_mem s)"
    "a_cpsr s1 = set_mode 0x13 (a_cpsr s OR 0xC0)" "a_sp s1 B_svc = lm_svc_stack_top lm - off"
proof -
  obtain lo hi where b: "lm_bss lm = (lo, hi)" by fastforce
  note ok = assms(1) [unfolded bss_ok_def b prod.case]
  have "lo \<le> hi" using ok by (auto simp: word_le_nat_alt)
  then have "VA_KERNEL_BASE \<le> lo" "VA_KERNEL_BASE \<le> hi" using ok by auto
  then have le: "lo - off \<le> hi - off" using \<open>lo \<le> hi\<close> phys_sub unfolding off_def word_le_nat_alt by (metis diff_le_mono)
  have al: "word_aligned (lo - off)" "word_aligned (hi - off)"
    using ok offset_word_aligned unfolding off_def by (auto intro: word_aligned_diff)
  obtain s0 where s0: "exec_code (start_reset lm bs) s = Some s0" "a_r s0 1 = lo - off" "a_r s0 2 = hi - off" "a_r s0 3 = 0"
    "a_r s0 4 = off" "a_mem s0 = a_mem s" "a_cp s0 = a_cp s" "a_cpsr s0 = set_mode 0x13 (a_cpsr s OR 0xC0)"
    "a_sp s0 B_svc = lm_svc_stack_top lm - off"
    using assms(2) b unfolding off_def by (simp add: start_reset_def)
  have "zero_bss s0 = Some (s0\<lparr>a_r := (a_r s0)(1 := a_r s0 2), a_mem := zeroed (a_r s0 1) (a_r s0 2) (a_mem s0)\<rparr>)"
    using al le s0(2-4) by (intro zero_bss_eq) simp_all
  then have "start_head lm bs s = Some (s0\<lparr>a_r := (a_r s0)(1 := hi - off, 0 := off), a_mem := zeroed (lo - off) (hi - off) (a_mem s)\<rparr>)"
    using s0 by (simp add: start_head_def)
  then show ?thesis by (rule that) (use s0 b in simp_all)
qed

lemma mmu_init_S_eq:
  obtains s' where "mmu_init_S lm pl s = Some s'" "a_cpsr s' = a_cpsr s"
    "a_mem s' = put_pgd (lm_boot_pgd lm - a_r s 0)
       (mmu_build_boot_pgd pl (pgd_at (lm_boot_pgd lm - a_r s 0) (a_mem s))) (a_mem s)"
    "a_cp s' = (a_cp s)(TTBR0 := (lm_boot_pgd lm - a_r s 0) OR 0x4A, TTBCR := 0, DACR := 1, SCTLR := a_cp s SCTLR OR 0x1805)"
  by (simp add: mmu_init_S_def Let_def mmu_enable_S_def or.assoc)

lemma pgd_at_put: "pgd_at pa (put_pgd pa t m) = (\<lambda>i. if i < PGD_ENTRIES then t i else 0)"
  by (auto simp: pgd_at_def put_pgd_def PGD_ENTRIES_def store_words_nth fun_eq_iff simp del: upt_rec_numeral)

lemma boot_desc_beyond: "\<not> i < PGD_ENTRIES \<Longrightarrow> boot_desc pl i = 0"
  by (cases pl) (auto simp: boot_desc_def kernel_desc_def PGD_ENTRIES_def)

lemma pgd_at_zeroed:
  assumes "bss_ok pl lm"
  defines "off \<equiv> PHYS_OFFSET (board_of pl)"
  shows "pgd_at (lm_boot_pgd lm - off) (zeroed (fst (lm_bss lm) - off) (snd (lm_bss lm) - off) m) = (\<lambda>_. 0)"
proof -
  obtain lo hi where b: "lm_bss lm = (lo, hi)" by fastforce
  note ok = assms(1) [unfolded bss_ok_def b prod.case]
  let ?p = "lm_boot_pgd lm"
  have h: "VA_KERNEL_BASE \<le> lo" "VA_KERNEL_BASE \<le> ?p" "VA_KERNEL_BASE \<le> hi"
    using ok by (auto simp: word_le_nat_alt)
  have "zeroed (lo - off) (hi - off) m (?p - off + 4 * of_nat i) = 0" if "i < 4096" for i
  proof -
    have u: "unat (?p - off) = unat ?p - unat off" "unat (hi - off) = unat hi - unat off" "unat (lo - off) = unat lo - unat off"
      "unat off \<le> unat lo" "unat off \<le> unat ?p"
      using phys_sub h unfolding off_def by blast+
    have "unat (?p - off) + 4 * i < 2 ^ 32" using u ok that unat_u32_less [of hi]
      by (elim conjE) (rule order_less_le_trans [of _ 4294967296], linarith, simp)
    then have e: "unat (?p - off + 4 * of_nat i) = unat ?p - unat off + 4 * i"
      using unat_plus_small [of "?p - off" "4 * i"] u by simp
    have "word_aligned (?p - off + 4 * of_nat i)"
      using ok offset_word_aligned [of pl] unfolding off_def [symmetric] e word_aligned_unat
      by (metis dvd_add dvd_diff_nat dvd_triv_left)
    moreover have "lo - off \<le> ?p - off + 4 * of_nat i" "?p - off + 4 * of_nat i < hi - off"
      using e u ok that by (elim conjE; simp only: word_le_nat_alt word_less_nat_alt; linarith)+
    ultimately show ?thesis by (simp add: zeroed_def)
  qed
  then show ?thesis by (auto simp: pgd_at_def b PGD_ENTRIES_def fun_eq_iff)
qed

text \<open>The state in which \<open>kmain\<close> is called.\<close>

definition at_kmain :: "linkmap \<Rightarrow> boot_syms \<Rightarrow> cpu \<Rightarrow> bool" where
  "at_kmain lm bs s \<longleftrightarrow>
     a_pc s = lm_kmain lm \<and> a_lr s B_svc = bs_start_va bs + 44 \<and>
     bank_of (a_cpsr s) = B_svc \<and> a_cpsr s AND 0xC0 = 0xC0 \<and>
     a_sp s B_fiq = bs_fiq_stack_top bs \<and> a_sp s B_irq = bs_irq_stack_top bs \<and>
     a_sp s B_abt = bs_abt_stack_top bs \<and> a_sp s B_und = bs_und_stack_top bs \<and>
     a_sp s B_svc = lm_svc_stack_top lm \<and>
     a_cp s SCTLR AND 0x1805 = 0x1805 \<and> a_cp s TTBCR = 0 \<and> a_cp s DACR = 1"

lemma masks_kept: "is_mode m \<Longrightarrow> set_mode m psr AND 0xC0 = psr AND 0xC0"
proof -
  assume "is_mode m"
  then have "m AND 0xC0 = 0" by (auto simp: is_mode_def)
  then show ?thesis by (simp add: set_mode_def bit.conj_disj_distrib2 and.assoc)
qed

lemma start_va_at_kmain:
  assumes "a_cpsr s AND 0xC0 = 0xC0" "a_cp s SCTLR AND 0x1805 = 0x1805" "a_cp s TTBCR = 0" "a_cp s DACR = 1"
  shows "\<exists>s'. exec_code (start_va lm bs) s = Some s' \<and> at_kmain lm bs s' \<and> a_mem s' = a_mem s \<and> a_cp s' = a_cp s"
  using assms by (simp add: start_va_def at_kmain_def masks_kept is_mode_def)

lemma start_S_kmain:
  assumes "bss_ok pl lm" "a_pc s = bs_start bs - PHYS_OFFSET (board_of pl)"
    and off_def: "off = PHYS_OFFSET (board_of pl)"
    and k_def: "k = mmu_init lm pl (PHYS_OFFSET (board_of pl)) (bss_state m ks)"
  shows "\<exists>s1 s2. start_head lm bs s = Some s1 \<and> a_r s1 0 = off \<and>
    a_mem s1 = zeroed (fst (lm_bss lm) - off) (snd (lm_bss lm) - off) (a_mem s) \<and>
    start_S lm pl bs s = Some s2 \<and> at_kmain lm bs s2 \<and>
    a_cp s2 TTBR0 = ttbr0 k \<and> pgd_at (lm_boot_pgd lm - off) (a_mem s2) = boot_pgd k"
proof -
  obtain s1 where s1: "start_head lm bs s = Some s1" "a_r s1 0 = off" "a_cp s1 = a_cp s"
    "a_mem s1 = zeroed (fst (lm_bss lm) - off) (snd (lm_bss lm) - off) (a_mem s)"
    "a_cpsr s1 = set_mode 0x13 (a_cpsr s OR 0xC0)"
    using start_head_eq [OF assms(1,2)] unfolding off_def by blast
  let ?pa = "lm_boot_pgd lm - off"
  have z: "pgd_at ?pa (a_mem s1) = (\<lambda>_. 0)"
    unfolding s1(4) off_def by (rule pgd_at_zeroed [OF assms(1)])
  obtain s' where s': "mmu_init_S lm pl s1 = Some s'" "a_cpsr s' = a_cpsr s1"
    "a_mem s' = put_pgd ?pa (boot_desc pl) (a_mem s1)"
    "a_cp s' = (a_cp s1)(TTBR0 := ?pa OR 0x4A, TTBCR := 0, DACR := 1, SCTLR := a_cp s1 SCTLR OR 0x1805)"
    using mmu_init_S_eq [of lm pl s1] unfolding s1(2) z boot_pgd_closed by blast
  let ?s = "s'\<lparr>a_pc := bs_start_va bs\<rparr>"
  have "a_cpsr ?s AND 0xC0 = 0xC0" using s'(2) s1(5)
    by (simp add: masks_kept is_mode_def bit.conj_disj_distrib2)
  moreover have "a_cp ?s SCTLR AND 0x1805 = 0x1805" "a_cp ?s TTBCR = 0" "a_cp ?s DACR = 1"
    using s'(4) by (simp_all add: bit.conj_disj_distrib2)
  ultimately obtain s2 where s2: "exec_code (start_va lm bs) ?s = Some s2" "at_kmain lm bs s2"
    "a_mem s2 = a_mem ?s" "a_cp s2 = a_cp ?s"
    using start_va_at_kmain by blast
  have "start_S lm pl bs s = Some s2" using s1(1) s'(1) s2(1) by (simp add: start_S_def)
  moreover have "a_cp s2 TTBR0 = ttbr0 k"
    using s2(4) s'(4) by (simp add: k_def mmu_init_eq boot_ttbr_def off_def TTBR_ATTRS_def)
  moreover have "(\<lambda>i. if i < PGD_ENTRIES then boot_desc pl i else 0) = boot_desc pl"
    by (simp add: fun_eq_iff boot_desc_beyond)
  then have "pgd_at ?pa (a_mem s2) = boot_pgd k"
    using s2(3) s'(3) by (simp add: k_def mmu_init_eq pgd_at_put)
  ultimately show ?thesis using s1 s2(2) by blast
qed

text \<open>With the tables that the boot code builds, the jump to the high half lands, and \<open>kmain\<close> runs to the first process.\<close>

lemma reset_to_kmain:
  assumes "bss_ok pl lm" "link_ok pl lm" "a_pc s = bs_start bs - off" "in_ram pl (a_pc s)" "in_alias pl (bs_start_va bs)"
    "off = PHYS_OFFSET (board_of pl)" "k = mmu_init lm pl off (bss_state m ks)"
  shows "\<exists>s1 s2. start_head lm bs s = Some s1 \<and> a_r s1 0 = off \<and>
    a_mem s1 = (\<lambda>x. if fst (lm_bss lm) - off \<le> x \<and> x < snd (lm_bss lm) - off \<and> word_aligned x then 0 else a_mem s x) \<and>
    start_S lm pl bs s = Some s2 \<and> at_kmain lm bs s2 \<and>
    a_cp s2 TTBR0 = ttbr0 k \<and> pgd_at (lm_boot_pgd lm - off) (a_mem s2) = boot_pgd k \<and>
    section_lookup False (boot_pgd k) (a_pc s) = Some (a_pc s) \<and>
    section_lookup False (boot_pgd k) (bs_start_va bs) = Some (bs_start_va bs - off) \<and>
    (\<exists>k'. kmain lm pl (read_cpsr s2) (mmu_read_sctlr s2) k = Some k' \<and> booted lm pl m k')"
proof -
  have z: "zeroed a b m = (\<lambda>x. if a \<le> x \<and> x < b \<and> word_aligned x then 0 else m x)" for a b m
    by (simp add: zeroed_def fun_eq_iff)
  have b: "boot_pgd k = boot_desc pl" using assms(6,7) by (simp add: mmu_init_eq)
  have "section_lookup False (boot_pgd k) (a_pc s) = Some (a_pc s)" unfolding b by (rule ident_lookup [OF assms(4)])
  moreover have "boot_desc pl (sec_index (bs_start_va bs)) = kernel_desc pl (sec_index (bs_start_va bs))"
    using in_alias_index [OF assms(5)] by (cases pl) (auto simp: boot_desc_def)
  then have "section_lookup False (boot_pgd k) (bs_start_va bs) = Some (bs_start_va bs - off)"
    unfolding b assms(6) by (rule alias_lookup [OF assms(5)])
  moreover have "\<exists>k'. kmain lm pl cpsr sctlr k = Some k' \<and> booted lm pl m k'" for cpsr sctlr
    using boot_ok [OF assms(2), of cpsr sctlr m ks] assms(6,7)
    by (auto simp: boot_def)
  ultimately show ?thesis
    using start_S_kmain [OF assms(1) assms(3) [unfolded assms(6)] assms(6) assms(7) [unfolded assms(6)]]
    unfolding z by blast
qed

section \<open>The end of a program\<close>

lemma ustart_exit_entry:
  assumes "a_cpsr s AND 0x1F = 0x10" "word_aligned (a_sp s B_svc)"
  shows "\<exists>s1 s2. ustart_exit u s = Some s1 \<and> exec_code (exception_entry X_svc) (take_exn X_svc s1) = Some s2 \<and>
    frame_ctx (a_r s2 0) (a_mem s2) =
      \<lparr>e_spsr = a_cpsr s, e_r = map ((a_r s)(7 := 3)) [0..<13], e_lr = u + 20\<rparr>"
proof -
  obtain s1 where s1: "ustart_exit u s = Some s1" "a_cpsr s1 = a_cpsr s" "a_r s1 = (a_r s)(7 := 3)" "a_pc s1 = u + 16"
    "a_sp s1 = a_sp s"
    by (simp add: ustart_exit_def)
  from assms(2) s1(5) have "word_aligned (a_sp s1 (bank_of (exn_mode X_svc)))" by simp
  from entry_context [OF _ this] show ?thesis using s1 by (auto simp del: upt_rec_numeral)
qed

end
