(* ===== verification/Asm_Props.thy ===== *)
theory Asm_Props
  imports Asm_boot
begin

text \<open>
  The properties of the assembly level, with a concrete machine for their witnesses: the process
  table of the build of theory \<open>Demo\<close> lies at \<open>0xC0127000\<close>, the counter runs, the other two
  processes have the frames that \<open>process_init_all\<close> gave them.
\<close>

section \<open>A machine\<close>

definition demo_ptab :: u32 where "demo_ptab = 0xC0127000"


definition demo_mem :: "u32 \<Rightarrow> u32" where
  "demo_mem = (\<lambda>_. 0)
     (0xC0127058 := 0x70114000,
      0xC01270C8 := 0x70118000, 0xC01270A4 := 0xC0123F9C, 0xC01270B0 := 0x40100000, 0xC01270B4 := 0, 0xC0123FBC := 0xC0100400,
      0xC0127138 := 0x7011C000, 0xC0127114 := 0xC0125F9C, 0xC0127120 := 0x40100000, 0xC0127124 := 0, 0xC0125FBC := 0xC0100400)"

definition demo_cpu :: cpu where
  "demo_cpu = \<lparr>a_r = (\<lambda>i. of_nat i)(0 := 0xC0127000, 1 := 0xC0127070), a_sp = (\<lambda>_. 0)(B_svc := 0xC0121F00, B_usr := 0x40100000),
     a_lr = (\<lambda>_. 0)(B_svc := 0xC0100C00), a_spsr = (\<lambda>_. 0), a_cpsr = 0x93, a_pc = 0xC0101000,
     a_cp = (\<lambda>_. 0)(TTBR0 := 0x7011404A, VBAR := 0xC0100020), a_mem = demo_mem\<rparr>"

lemma demo_layout: "layout_ok demo_link demo_ptab"
  by (simp add: layout_ok_def demo_link_def demo_ptab_def word_aligned_def)

lemma demo_pcbs: "pcb_addr demo_ptab 0 = 0xC0127000" "pcb_addr demo_ptab (Suc 0) = 0xC0127070" "pcb_addr demo_ptab 2 = 0xC01270E0"
  by (simp_all add: pcb_addr_def process_size demo_ptab_def)

lemma demo_bank: "bank_of 0x93 = B_svc"
  by (simp add: bank_of_def)


section \<open>Layout\<close>





section \<open>Switching\<close>



text \<open>C32: The first entry of a process. The frame that \<open>process_build_initial_frame\<close> writes fits the code
  that consumes it: \<open>context_switch(NULL, p)\<close> continues in \<open>ret_from_first_entry\<close>, and that leaves the CPU in
  USR mode with interrupts on, at the entry point of the program, with all registers zero, the stack pointer at
  the top of the user window, the kernel stack empty and the table of the process in TTBR0.\<close>

theorem first_entry:
  assumes "i < length (processes k)" "k' = process_build_initial_frame lm i k" "q = processes k ! i"
    "holds_frame k' i (a_r s 1) (a_mem s)" "a_r s 0 = 0" "word_aligned (a_r s 1)"
    "word_aligned (p_kstack_base q)" "word_aligned (p_kstack_size q)"
  shows "\<exists>s1 s2. context_switch_S s = Some s1 \<and> a_pc s1 = lm_first_entry lm \<and>
    exec_code ret_from_first_entry s1 = Some s2 \<and>
    a_pc s2 = p_user_entry q \<and> a_cpsr s2 = 0x10 \<and> (\<forall>j < 13. a_r s2 j = 0) \<and>
    a_sp s2 B_usr = USER_STACK_TOP \<and> a_lr s2 B_usr = 0 \<and> a_sp s2 B_svc = p_kstack_base q + p_kstack_size q \<and>
    a_cp s2 TTBR0 = a_mem s (a_r s 1 + PROC_PGD_PA_OFFSET) OR TTBR_ATTRS"
  by (rule first_entry_lands [OF assms])

definition demo_built :: kernel where
  "demo_built = process_build_initial_frame demo_link 1 demo_kernel"

definition demo_fresh :: cpu where
  "demo_fresh = demo_cpu\<lparr>a_r := (a_r demo_cpu)(0 := 0),
     a_mem := (kstack demo_built)(0xC01270A4 := 0xC0123F9C, 0xC01270B0 := 0x40100000, 0xC01270B4 := 0, 0xC01270C8 := 0x70118000)\<rparr>"

lemma demo_pcb1: "p_kstack_base (processes demo_kernel ! 1) = 0xC0122000" "p_kstack_size (processes demo_kernel ! 1) = 0x2000"
  "p_user_entry (processes demo_kernel ! 1) = 0x40000000"
  by (simp_all add: demo_kernel_def init_pcb_def new_pcb_def proc_kstack_row_def demo_link_def kconst)

lemma demo_fresh_frame: "holds_frame demo_built 1 (a_r demo_fresh 1) (a_mem demo_fresh)"
proof -
  let ?ctx = "p_ctx (processes demo_built ! 1)"
  have ctx: "c_sp_svc ?ctx = 0xC0123F9C" "c_sp_usr ?ctx = 0x40100000" "c_lr_usr ?ctx = 0"
    by (simp_all add: demo_built_def process_build_initial_frame_def Let_def nth_upd_proc demo_pcb1 [unfolded One_nat_def] INIT_STACK_WORDS_def kconst)
  have "load_words 0xC0123F9C 25 (a_mem demo_fresh) = load_words 0xC0123F9C 25 (kstack demo_built)"
  proof (rule load_words_cong)
    fix j :: nat assume "j < 25"
    then have "unat (0xC0123F9C + of_nat (4 * j) :: u32) = 0xC0123F9C + 4 * j" by (subst unat_plus_small) simp_all
    then have "unat (0xC0123F9C + 4 * of_nat j :: u32) < 0xC0127000" using \<open>j < 25\<close> by simp
    then show "a_mem demo_fresh (0xC0123F9C + 4 * of_nat j) = kstack demo_built (0xC0123F9C + 4 * of_nat j)"
      by (auto simp: demo_fresh_def)
  qed
  then show ?thesis using ctx
    by (simp add: holds_frame_def Let_def) (simp add: demo_fresh_def demo_cpu_def ctx_offsets)
qed

theorem first_entry_witness:
  "\<exists>s1 s2. context_switch_S demo_fresh = Some s1 \<and> a_pc s1 = 0xC0100400 \<and> exec_code ret_from_first_entry s1 = Some s2 \<and>
     a_pc s2 = 0x40000000 \<and> a_cpsr s2 = 0x10 \<and> a_sp s2 B_svc = 0xC0124000 \<and> a_cp s2 TTBR0 = 0x7011804A"
proof -
  have f: "lm_first_entry demo_link = 0xC0100400" "word_aligned (a_r demo_fresh 1)" "a_r demo_fresh 0 = 0"
    "a_mem demo_fresh (a_r demo_fresh 1 + PROC_PGD_PA_OFFSET) OR TTBR_ATTRS = 0x7011804A"
    by (simp_all add: demo_link_def demo_fresh_def demo_cpu_def word_aligned_def ctx_offsets TTBR_ATTRS_def)
  have al: "word_aligned (p_kstack_base (processes demo_kernel ! 1))" "word_aligned (p_kstack_size (processes demo_kernel ! 1))"
    unfolding demo_pcb1 by (simp_all add: word_aligned_def)
  have l: "1 < length (processes demo_kernel)" by simp
  from first_entry [OF l demo_built_def refl demo_fresh_frame f(3,2) al] show ?thesis
    unfolding f demo_pcb1 by (elim exE conjE) (intro exI conjI, assumption+, simp)
qed

section \<open>Exceptions\<close>

text \<open>C33: Exception entry. For a system call, an abort or an undefined instruction the hardware goes through
  its slot of the vector table to the stub of that exception, and the stub hands the C handler the
  interrupted context in the layout of \<open>exception_context_t\<close>: status word, r0 to r12 and the address of the faulting
  instruction (of the next one for a system call). That is the event which the model of the C handlers is given,
  and its test for a fault of user code tests the interrupted mode. The handler runs in SVC mode with interrupts masked
  and the user's link register untouched.\<close>

theorem entry_hands_context:
  assumes "x \<notin> {X_irq, X_fiq}" "word_aligned (a_sp s (bank_of (exn_mode x)))"
  shows "vector_at (a_pc (take_exn x s) - a_cp s VBAR) = V_exn x \<and>
    (\<exists>s' ev. exec_code (exception_entry x) (take_exn x s) = Some s' \<and> exn_event x s' = Some ev \<and>
      event_ctx ev = \<lparr>e_spsr = a_cpsr s, e_r = map (a_r s) [0..<13],
        e_lr = (if x = X_svc then a_pc s + 4 else a_pc s)\<rparr> \<and>
      (fault_from_user (event_ctx ev) \<longleftrightarrow> a_cpsr s AND 0x1F = 0x10) \<and>
      bank_of (a_cpsr s') = B_svc \<and> irq_masked (a_cpsr s') \<and> a_lr s' B_usr = a_lr s B_usr)"
proof -
  have "a_pc (take_exn x s) - a_cp s VBAR = exn_vector x" by (simp add: take_exn_def Let_def)
  then show ?thesis
    using vector_routes [of x] entry_context [OF assms] exn_event_ctx [OF assms(1)]
    by (fastforce simp: fault_from_user_def simp del: upt_rec_numeral)
qed

definition demo_user :: cpu where
  "demo_user = demo_cpu\<lparr>a_cpsr := 0x10, a_pc := 0x40000100, a_r := (\<lambda>i. of_nat i)\<rparr>"

theorem entry_hands_context_witness:
  "\<exists>s' ev. exec_code (exception_entry X_dabort) (take_exn X_dabort (demo_user\<lparr>a_sp := (\<lambda>_. 0xC0129000)\<rparr>)) = Some s' \<and>
     exn_event X_dabort s' = Some ev \<and> event_ctx ev = \<lparr>e_spsr = 0x10, e_r = map of_nat [0..<13], e_lr = 0x40000100\<rparr>"
  using entry_hands_context [of X_dabort "demo_user\<lparr>a_sp := (\<lambda>_. 0xC0129000)\<rparr>"]
  by (auto simp: word_aligned_def [of "0xC0129000"] simp del: upt_rec_numeral exception_entry.simps)
    (auto simp: demo_user_def simp del: upt_rec_numeral exception_entry.simps)

text \<open>C15: An interrupt is invisible to the code it interrupts. The entry stub reaches \<open>handle_irq\<close> in SVC mode with
  interrupts masked, and if the handler comes back with the stack pointer where it was and the sixteen
  words of the frame unchanged (it may clobber every register), the exit stub restores r0 to r12, all
  stack pointers, the link registers of USR and SVC mode and the status word, and goes on at the interrupted
  instruction. That holds in USR mode as well as in the kernel.\<close>

theorem irq_transparent:
  assumes "word_aligned (a_sp s B_svc)"
  shows "\<exists>s1. exec_code (exception_entry X_irq) (take_exn X_irq s) = Some s1 \<and>
    bank_of (a_cpsr s1) = B_svc \<and> irq_masked (a_cpsr s1) \<and>
    (\<forall>s2. bank_of (a_cpsr s2) = B_svc \<longrightarrow> a_sp s2 = a_sp s1 \<longrightarrow> a_lr s2 B_usr = a_lr s1 B_usr \<longrightarrow>
      load_words (a_sp s1 B_svc) 16 (a_mem s2) = load_words (a_sp s1 B_svc) 16 (a_mem s1) \<longrightarrow>
      (\<exists>s3. exec_code exception_exit_irq s2 = Some s3 \<and> (\<forall>j < 13. a_r s3 j = a_r s j) \<and> a_pc s3 = a_pc s \<and>
        a_cpsr s3 = a_cpsr s \<and> a_sp s3 = a_sp s \<and> a_lr s3 B_usr = a_lr s B_usr \<and> a_lr s3 B_svc = a_lr s B_svc))"
proof -
  obtain s1 where s1: "exec_code (exception_entry X_irq) (take_exn X_irq s) = Some s1"
    "bank_of (a_cpsr s1) = B_svc" "irq_masked (a_cpsr s1)"
    by (rule irq_entry_eq [OF assms]) blast
  then show ?thesis using irq_round_trip [OF assms s1(1)] by blast
qed

theorem irq_transparent_witness:
  "\<exists>s1 s3. exec_code (exception_entry X_irq) (take_exn X_irq demo_user) = Some s1 \<and>
     exec_code exception_exit_irq (s1\<lparr>a_r := (\<lambda>_. 99), a_lr := (a_lr s1)(B_svc := 5)\<rparr>) = Some s3 \<and>
     a_r s3 12 = 12 \<and> a_pc s3 = 0x40000100 \<and> a_cpsr s3 = 0x10"
proof -
  have "word_aligned (a_sp demo_user B_svc)" by (simp add: demo_user_def demo_cpu_def word_aligned_def)
  from irq_transparent [OF this] obtain s1 where s1: "exec_code (exception_entry X_irq) (take_exn X_irq demo_user) = Some s1"
    "bank_of (a_cpsr s1) = B_svc" and all: "\<And>s2. bank_of (a_cpsr s2) = B_svc \<Longrightarrow> a_sp s2 = a_sp s1 \<Longrightarrow> a_lr s2 B_usr = a_lr s1 B_usr \<Longrightarrow>
      load_words (a_sp s1 B_svc) 16 (a_mem s2) = load_words (a_sp s1 B_svc) 16 (a_mem s1) \<Longrightarrow>
      \<exists>s3. exec_code exception_exit_irq s2 = Some s3 \<and> (\<forall>j < 13. a_r s3 j = a_r demo_user j) \<and> a_pc s3 = a_pc demo_user \<and>
        a_cpsr s3 = a_cpsr demo_user" by blast
  let ?s2 = "s1\<lparr>a_r := (\<lambda>_. 99), a_lr := (a_lr s1)(B_svc := 5)\<rparr>"
  have "\<exists>s3. exec_code exception_exit_irq ?s2 = Some s3 \<and> (\<forall>j < 13. a_r s3 j = a_r demo_user j) \<and> a_pc s3 = a_pc demo_user \<and>
        a_cpsr s3 = a_cpsr demo_user"
    using s1(2) by (intro all) simp_all
  then obtain s3 where s3: "exec_code exception_exit_irq ?s2 = Some s3" "\<forall>j < 13. a_r s3 j = a_r demo_user j"
    "a_pc s3 = a_pc demo_user" "a_cpsr s3 = a_cpsr demo_user" by blast
  have "a_r s3 12 = 12" using s3(2) by (simp add: demo_user_def)
  then show ?thesis using s1(1) s3 by (auto simp: demo_user_def)
qed

text \<open>C14: Preemption is invisible to user code. A process is interrupted, the handler (somewhere deeper in its kernel
  stack) switches to another process, any number of other processes run, and one of them switches back.
  As long as each part of the kernel keeps to its own stack, the switch back returns behind the call of
  \<open>context_switch\<close> with the callee-saved registers and the stack pointer of before, and once the handler comes back to
  the stub, the process continues at the interrupted instruction with all its registers, the banked ones
  included, and its status word.\<close>

theorem preemption_transparent:
  assumes "layout_ok lm ptab" "p < 3" "q < 3" "q \<noteq> p" "word_aligned (a_sp s B_svc)"
    "exec_code (exception_entry X_irq) (take_exn X_irq s) = Some s1"
    "\<forall>j < 16. in_kstack lm p (a_sp s1 B_svc + 4 * of_nat j) \<and>
      unat (a_sp t1 B_svc - 36) + 36 \<le> unat (a_sp s1 B_svc + 4 * of_nat j)"
    "bank_of (a_cpsr t1) = B_svc" "a_r t1 0 = pcb_addr ptab p" "frame_in lm p (a_sp t1 B_svc - 36)"
    "a_sp t1 B_usr = a_sp s1 B_usr" "a_lr t1 B_usr = a_lr s1 B_usr"
    "load_words (a_sp s1 B_svc) 16 (a_mem t1) = load_words (a_sp s1 B_svc) 16 (a_mem s1)"
    "context_switch_S t1 = Some t2"
    "bank_of (a_cpsr t3) = B_svc" "a_r t3 0 = pcb_addr ptab q" "a_r t3 1 = pcb_addr ptab p"
    "frame_in lm q (a_sp t3 B_svc - 36)" "\<forall>x \<in> own_words lm ptab p. a_mem t3 x = a_mem t2 x"
  shows "\<exists>t4. context_switch_S t3 = Some t4 \<and> a_pc t4 = a_lr t1 B_svc \<and> a_sp t4 B_svc = a_sp t1 B_svc \<and>
    map (a_r t4) [4..<12] = map (a_r t1) [4..<12] \<and>
    (\<forall>s2. bank_of (a_cpsr s2) = B_svc \<longrightarrow> a_sp s2 B_svc = a_sp s1 B_svc \<longrightarrow>
      a_sp s2 B_usr = a_sp t4 B_usr \<longrightarrow> a_lr s2 B_usr = a_lr t4 B_usr \<longrightarrow>
      load_words (a_sp s1 B_svc) 16 (a_mem s2) = load_words (a_sp s1 B_svc) 16 (a_mem t4) \<longrightarrow>
      (\<exists>s3. exec_code exception_exit_irq s2 = Some s3 \<and> (\<forall>j < 13. a_r s3 j = a_r s j) \<and> a_pc s3 = a_pc s \<and>
        a_cpsr s3 = a_cpsr s \<and> a_sp s3 B_usr = a_sp s B_usr \<and> a_lr s3 B_usr = a_lr s B_usr \<and>
        a_sp s3 B_svc = a_sp s B_svc))"
proof -
  note sw = assms(1-4,8-10,14-19)
  obtain t4 where t4: "context_switch_S t3 = Some t4" "resume_frame t4 = resume_frame t1" "a_pc t4 = a_lr t1 B_svc"
    "a_sp t4 B_svc = a_sp t1 B_svc" "a_sp t4 B_usr = a_sp t1 B_usr" "a_lr t4 B_usr = a_lr t1 B_usr"
    using switch_back [OF sw] by blast
  have "load_words (a_sp s1 B_svc) 16 (a_mem t4) = load_words (a_sp s1 B_svc) 16 (a_mem t1)"
    using switch_back_above [OF sw t4(1)] assms(7) by (intro load_words_cong) blast
  then have fr: "load_words (a_sp s1 B_svc) 16 (a_mem t4) = load_words (a_sp s1 B_svc) 16 (a_mem s1)"
    using assms(13) by simp
  have ret: "\<exists>s3. exec_code exception_exit_irq s2 = Some s3 \<and> (\<forall>j < 13. a_r s3 j = a_r s j) \<and> a_pc s3 = a_pc s \<and>
      a_cpsr s3 = a_cpsr s \<and> a_sp s3 B_usr = a_sp s B_usr \<and> a_lr s3 B_usr = a_lr s B_usr \<and> a_sp s3 B_svc = a_sp s B_svc"
    if "bank_of (a_cpsr s2) = B_svc" "a_sp s2 B_svc = a_sp s1 B_svc" "a_sp s2 B_usr = a_sp t4 B_usr" "a_lr s2 B_usr = a_lr t4 B_usr"
      "load_words (a_sp s1 B_svc) 16 (a_mem s2) = load_words (a_sp s1 B_svc) 16 (a_mem t4)" for s2
    using irq_resumes [OF assms(5,6) that(1,2) _ _ trans [OF that(5) fr]] that(3,4) t4(5,6) assms(11,12) by simp
  have "map (a_r t4) [4..<12] = map (a_r t1) [4..<12]" using t4(2) by (simp add: resume_frame_def upt_rec)
  then show ?thesis using t4 ret by blast
qed

text \<open>The machine in the middle of a preemption: the counter calls \<open>context_switch\<close> deeper in its stack, with the
  interrupt frame \<open>ws\<close> above; and later process 1 calls it.\<close>

definition demo_pre :: "u32 list \<Rightarrow> cpu" where
  "demo_pre ws = demo_cpu\<lparr>a_sp := (a_sp demo_cpu)(B_svc := 0xC0121E00), a_mem := store_words 0xC0121EC0 ws demo_mem\<rparr>"

definition demo_other :: "(u32 \<Rightarrow> u32) \<Rightarrow> cpu" where
  "demo_other m = demo_cpu\<lparr>a_r := (\<lambda>_. 0)(0 := 0xC0127070, 1 := 0xC0127000), a_sp := (\<lambda>_. 0)(B_svc := 0xC0123F00), a_mem := m\<rparr>"

lemma demo_frame_words:
  assumes "j < 16"
  shows "unat (0xC0121EC0 + 4 * of_nat j :: u32) = 0xC0121EC0 + 4 * j"
  using unat_plus_small [of "0xC0121EC0" "4 * j"] assms by simp

lemma demo_pre_switch:
  assumes "length ws = 16"
  shows "\<exists>t2. context_switch_S (demo_pre ws) = Some t2"
proof (rule context_switch_runs [OF demo_layout, of 0 1])
  have "store_words 0xC0121EC0 ws demo_mem 0xC01270A4 = demo_mem 0xC01270A4"
  proof (rule store_words_other)
    fix j assume "j < length ws"
    then show "0xC01270A4 \<noteq> (0xC0121EC0 + 4 * of_nat j :: u32)" using demo_frame_words [of j] assms by auto
  qed
  then show "word_aligned (a_mem (demo_pre ws) (pcb_addr demo_ptab 1 + CTX_SP_SVC_OFFSET))"
    by (simp add: demo_pre_def demo_pcbs ctx_offsets demo_mem_def word_aligned_def)
  show "frame_in demo_link 0 (a_sp (demo_pre ws) B_svc - 36)"
    by (simp add: demo_pre_def frame_in_def demo_link_def word_aligned_def)
qed (simp_all add: demo_pre_def demo_cpu_def demo_pcbs demo_bank)

theorem preemption_transparent_witness:
  "\<exists>s1 t2 t4 s3. exec_code (exception_entry X_irq) (take_exn X_irq demo_user) = Some s1 \<and>
     context_switch_S (demo_pre (load_words 0xC0121EC0 16 (a_mem s1))) = Some t2 \<and>
     context_switch_S (demo_other (a_mem t2)) = Some t4 \<and> a_pc t4 = 0xC0100C00 \<and>
     exec_code exception_exit_irq (t4\<lparr>a_cpsr := 0x93, a_sp := (a_sp t4)(B_svc := 0xC0121EC0)\<rparr>) = Some s3 \<and>
     a_pc s3 = 0x40000100 \<and> a_cpsr s3 = 0x10 \<and> a_sp s3 B_usr = 0x40100000"
proof -
  have al: "word_aligned (a_sp demo_user B_svc)" by (simp add: demo_user_def demo_cpu_def word_aligned_def)
  obtain s1 where s1: "exec_code (exception_entry X_irq) (take_exn X_irq demo_user) = Some s1"
    "a_sp s1 = (a_sp demo_user)(B_svc := a_sp demo_user B_svc - 64)" "a_lr s1 B_usr = a_lr demo_user B_usr"
    by (rule irq_entry_eq [OF al]) blast
  have sp: "a_sp s1 B_svc = 0xC0121EC0" "a_sp s1 B_usr = 0x40100000" "a_lr s1 B_usr = 0"
    using s1(2,3) by (simp_all add: demo_user_def demo_cpu_def)
  let ?t1 = "demo_pre (load_words 0xC0121EC0 16 (a_mem s1))"
  obtain t2 where t2: "context_switch_S ?t1 = Some t2" using demo_pre_switch by fastforce
  have fr: "\<forall>j < 16. in_kstack demo_link 0 (a_sp s1 B_svc + 4 * of_nat j) \<and>
      unat (a_sp ?t1 B_svc - 36) + 36 \<le> unat (a_sp s1 B_svc + 4 * of_nat j)"
    using demo_frame_words by (simp add: sp(1) in_kstack_def demo_pre_def demo_link_def)
  have f: "frame_in demo_link 0 (a_sp ?t1 B_svc - 36)" "frame_in demo_link 1 (a_sp (demo_other (a_mem t2)) B_svc - 36)"
    by (simp_all add: frame_in_def demo_pre_def demo_other_def demo_link_def word_aligned_def)
  have r: "bank_of (a_cpsr ?t1) = B_svc" "a_r ?t1 0 = pcb_addr demo_ptab 0" "a_sp ?t1 B_usr = a_sp s1 B_usr"
    "a_lr ?t1 B_usr = a_lr s1 B_usr" "a_mem (demo_other m) = m"
    "load_words (a_sp s1 B_svc) 16 (a_mem ?t1) = load_words (a_sp s1 B_svc) 16 (a_mem s1)"
    "bank_of (a_cpsr (demo_other m)) = B_svc" "a_r (demo_other m) 0 = pcb_addr demo_ptab 1"
    "a_r (demo_other m) 1 = pcb_addr demo_ptab 0" for m
    by (simp_all add: demo_pre_def demo_other_def sp demo_pcbs) (simp_all add: demo_cpu_def demo_bank)
  have "\<exists>t4. context_switch_S (demo_other (a_mem t2)) = Some t4 \<and> a_pc t4 = a_lr ?t1 B_svc \<and>
    a_sp t4 B_svc = a_sp ?t1 B_svc \<and> map (a_r t4) [4..<12] = map (a_r ?t1) [4..<12] \<and>
    (\<forall>s2. bank_of (a_cpsr s2) = B_svc \<longrightarrow> a_sp s2 B_svc = a_sp s1 B_svc \<longrightarrow>
      a_sp s2 B_usr = a_sp t4 B_usr \<longrightarrow> a_lr s2 B_usr = a_lr t4 B_usr \<longrightarrow>
      load_words (a_sp s1 B_svc) 16 (a_mem s2) = load_words (a_sp s1 B_svc) 16 (a_mem t4) \<longrightarrow>
      (\<exists>s3. exec_code exception_exit_irq s2 = Some s3 \<and> (\<forall>j < 13. a_r s3 j = a_r demo_user j) \<and> a_pc s3 = a_pc demo_user \<and>
        a_cpsr s3 = a_cpsr demo_user \<and> a_sp s3 B_usr = a_sp demo_user B_usr \<and> a_lr s3 B_usr = a_lr demo_user B_usr \<and>
        a_sp s3 B_svc = a_sp demo_user B_svc))"
    by (rule preemption_transparent [OF demo_layout _ _ _ al s1(1) fr r(1,2) f(1) r(3,4,6) t2 r(7-9) f(2)]) (simp_all add: r(5))
  then obtain t4 where t4: "context_switch_S (demo_other (a_mem t2)) = Some t4" "a_pc t4 = a_lr ?t1 B_svc"
    and ex: "\<And>s2. bank_of (a_cpsr s2) = B_svc \<Longrightarrow> a_sp s2 B_svc = a_sp s1 B_svc \<Longrightarrow>
      a_sp s2 B_usr = a_sp t4 B_usr \<Longrightarrow> a_lr s2 B_usr = a_lr t4 B_usr \<Longrightarrow>
      load_words (a_sp s1 B_svc) 16 (a_mem s2) = load_words (a_sp s1 B_svc) 16 (a_mem t4) \<Longrightarrow>
      \<exists>s3. exec_code exception_exit_irq s2 = Some s3 \<and> a_pc s3 = a_pc demo_user \<and> a_cpsr s3 = a_cpsr demo_user \<and>
        a_sp s3 B_usr = a_sp demo_user B_usr"
    by blast
  have "\<exists>s3. exec_code exception_exit_irq (t4\<lparr>a_cpsr := 0x93, a_sp := (a_sp t4)(B_svc := 0xC0121EC0)\<rparr>) = Some s3 \<and>
      a_pc s3 = a_pc demo_user \<and> a_cpsr s3 = a_cpsr demo_user \<and> a_sp s3 B_usr = a_sp demo_user B_usr"
    by (rule ex) (simp_all add: sp demo_bank)
  moreover have "a_lr ?t1 B_svc = 0xC0100C00" "a_pc demo_user = 0x40000100" "a_cpsr demo_user = 0x10" "a_sp demo_user B_usr = 0x40100000"
    by (simp_all add: demo_pre_def demo_user_def demo_cpu_def)
  ultimately show ?thesis using s1(1) t2 t4 by metis
qed

text \<open>C16: A system call returns to the instruction after \<open>svc\<close>. The entry stub hands \<open>handle_svc\<close> the frame, and if
  the handler comes back with the stack pointer where it was and the frame changed at most in r0 (which is
  what \<open>syscall_dispatch\<close> stores), the caller finds the result in r0 and r1 to r12, the stack pointers, its link register
  and the status word as they were.\<close>

theorem svc_returns:
  assumes "word_aligned (a_sp s B_svc)"
  shows "\<exists>s1. exec_code (exception_entry X_svc) (take_exn X_svc s) = Some s1 \<and> a_r s1 0 = a_sp s1 B_svc \<and>
    (\<forall>s2 v. bank_of (a_cpsr s2) = B_svc \<longrightarrow> a_sp s2 = a_sp s1 \<longrightarrow> a_lr s2 B_usr = a_lr s1 B_usr \<longrightarrow>
      frame_ctx (a_r s1 0) (a_mem s2) =
        (frame_ctx (a_r s1 0) (a_mem s1))\<lparr>e_r := (e_r (frame_ctx (a_r s1 0) (a_mem s1)))[0 := v]\<rparr> \<longrightarrow>
      (\<exists>s3. exec_code exception_exit_svc s2 = Some s3 \<and> a_r s3 0 = v \<and> (\<forall>j \<in> {1..<13}. a_r s3 j = a_r s j) \<and>
        a_pc s3 = a_pc s + 4 \<and> a_cpsr s3 = a_cpsr s \<and> a_sp s3 = a_sp s \<and> a_lr s3 B_usr = a_lr s B_usr))"
proof -
  obtain s1 where s1: "exec_code (exception_entry X_svc) (take_exn X_svc s) = Some s1" "a_r s1 0 = a_sp s1 B_svc"
    using entry_context [of X_svc s] assms by fastforce
  then show ?thesis using svc_round_trip [OF assms s1(1), folded s1(2)] by blast
qed

theorem svc_returns_witness:
  "\<exists>s1 s3. exec_code (exception_entry X_svc) (take_exn X_svc demo_user) = Some s1 \<and>
     exec_code exception_exit_svc (s1\<lparr>a_r := (\<lambda>_. 99)\<rparr>) = Some s3 \<and>
     a_r s3 0 = 0 \<and> a_r s3 7 = 7 \<and> a_pc s3 = 0x40000104"
proof -
  have "word_aligned (a_sp demo_user B_svc)" by (simp add: demo_user_def demo_cpu_def word_aligned_def)
  note al = this
  from svc_returns [OF this] obtain s1 where s1: "exec_code (exception_entry X_svc) (take_exn X_svc demo_user) = Some s1"
    and all: "\<And>s2 v. bank_of (a_cpsr s2) = B_svc \<Longrightarrow> a_sp s2 = a_sp s1 \<Longrightarrow> a_lr s2 B_usr = a_lr s1 B_usr \<Longrightarrow>
      frame_ctx (a_r s1 0) (a_mem s2) =
        (frame_ctx (a_r s1 0) (a_mem s1))\<lparr>e_r := (e_r (frame_ctx (a_r s1 0) (a_mem s1)))[0 := v]\<rparr> \<Longrightarrow>
      \<exists>s3. exec_code exception_exit_svc s2 = Some s3 \<and> a_r s3 0 = v \<and> (\<forall>j \<in> {1..<13}. a_r s3 j = a_r demo_user j) \<and>
        a_pc s3 = a_pc demo_user + 4" by blast
  have c: "bank_of (a_cpsr s1) = B_svc" "e_r (frame_ctx (a_r s1 0) (a_mem s1)) = map (a_r demo_user) [0..<13]"
    using entry_context [of X_svc demo_user] al s1 by auto
  let ?s2 = "s1\<lparr>a_r := (\<lambda>_. 99)\<rparr>"
  have "(map (a_r demo_user) [0..<13])[0 := 0] = map (a_r demo_user) [0..<13]"
    by (simp add: demo_user_def upt_13)
  then have "(frame_ctx (a_r s1 0) (a_mem s1))\<lparr>e_r := (e_r (frame_ctx (a_r s1 0) (a_mem s1)))[0 := 0]\<rparr> =
      frame_ctx (a_r s1 0) (a_mem s1)" using c(2) by simp
  then have "\<exists>s3. exec_code exception_exit_svc ?s2 = Some s3 \<and> a_r s3 0 = 0 \<and> (\<forall>j \<in> {1..<13}. a_r s3 j = a_r demo_user j) \<and>
        a_pc s3 = a_pc demo_user + 4"
    using c(1) by (intro all) simp_all
  then obtain s3 where s3: "exec_code exception_exit_svc ?s2 = Some s3" "a_r s3 0 = 0"
    "\<forall>j \<in> {1..<13}. a_r s3 j = a_r demo_user j" "a_pc s3 = a_pc demo_user + 4" by blast
  have "a_r s3 7 = 7" "a_pc s3 = 0x40000104" using s3(3,4) by (simp_all add: demo_user_def)
  then show ?thesis using s1 s3 by blast
qed

section \<open>The end of a program\<close>

text \<open>C34: A program whose \<open>main\<close> returns is retired, from the assembly of \<open>crt0.S\<close> to the scheduler: \<open>_ustart\<close> reaches its
  \<open>svc\<close>, the entry stub builds the frame, and the kernel, given that frame, marks the process DEAD and
  leaves another process in user mode (as long as one is runnable that does not itself wait for input).\<close>

theorem main_return_exits:
  assumes "a_cpsr s AND 0x1F = 0x10" "word_aligned (a_sp s B_svc)"
    "kinv pl k" "current k = Some c" "i < 3" "i \<noteq> c" "runnable (pstate k i)" "i \<notin> readers k"
  shows "\<exists>s1 s2 k'. ustart_exit u s = Some s1 \<and> exec_code (exception_entry X_svc) (take_exn X_svc s1) = Some s2 \<and>
    kernel_entry (Svc (frame_ctx (a_r s2 0) (a_mem s2))) k = Some (To_user k') \<and>
    pstate k' c = TASK_DEAD \<and> current k' \<noteq> Some c"
proof -
  obtain s1 s2 where s: "ustart_exit u s = Some s1" "exec_code (exception_entry X_svc) (take_exn X_svc s1) = Some s2"
    "frame_ctx (a_r s2 0) (a_mem s2) = \<lparr>e_spsr = a_cpsr s, e_r = map ((a_r s)(7 := 3)) [0..<13], e_lr = u + 20\<rparr>"
    using ustart_exit_entry [OF assms(1,2)] by blast
  have "e_r (frame_ctx (a_r s2 0) (a_mem s2)) ! 7 = 3" unfolding s(3) by simp
  from exit_ends_caller [OF assms(3,4) this assms(5-8)] show ?thesis using s(1,2) by blast
qed

theorem main_return_exits_witness:
  "\<exists>s1 s2 k'. ustart_exit 0x40000000 demo_user = Some s1 \<and>
     exec_code (exception_entry X_svc) (take_exn X_svc s1) = Some s2 \<and>
     kernel_entry (Svc (frame_ctx (a_r s2 0) (a_mem s2))) demo_kernel = Some (To_user k') \<and>
     pstate k' 0 = TASK_DEAD \<and> current k' \<noteq> Some 0"
proof -
  have "a_cpsr demo_user AND 0x1F = 0x10" "word_aligned (a_sp demo_user B_svc)"
    by (simp_all add: demo_user_def demo_cpu_def word_aligned_def)
  moreover have "2 \<notin> readers demo_kernel" "runnable (pstate demo_kernel 2)" by (simp_all add: readers_def runnable_def)
  ultimately show ?thesis by (intro main_return_exits [OF _ _ demo_kinv demo_simps(1), of _ 2]) simp_all
qed

end
