(* ===== verification/Linker.thy ===== *)
theory Linker
  imports Asm_Props
begin

text \<open>
  The build-time layout: the two kernel linker scripts \<open>kernel/linker/kernel_*.ld\<close>, the embedding of the
  programs in \<open>user_binaries.S\<close> and the script \<open>user/linker/user.ld\<close>. An input section is a name with
  a size and an alignment; \<open>layout\<close> (theory \<open>Asm_switch\<close>) moves the location counter over a list of them. The
  code generator decides sizes and the order of the objects matched by one pattern, so these are
  parameters.

  The other theories assume of a build \<open>link_ok\<close>, \<open>bss_ok\<close> and \<open>layout_ok\<close>. Here these are derived from the scripts.
\<close>

section \<open>kernel\_qemu.ld and kernel\_bbb.ld\<close>

text \<open>The \<open>MEMORY\<close> regions.\<close>

fun virt_origin :: "platform \<Rightarrow> nat" where
  "virt_origin Qemu = 0xC0100000"
| "virt_origin Bbb = 0xC0000000"

fun phys_origin :: "platform \<Rightarrow> nat" where
  "phys_origin Qemu = 0x70100000"
| "phys_origin Bbb = 0x80000000"

fun region_length :: "platform \<Rightarrow> nat" where
  "region_length Qemu = 127 * 1048576"
| "region_length Bbb = 512 * 1048576"

text \<open>The input sections, by the pattern that collects them.\<close>

record objects =
  o_text_start :: "field list"
  o_vectors :: "field list"
  o_text :: "field list"
  o_rodata :: "field list"
  o_user_binaries :: "field list"
  o_data :: "field list"
  o_bss_pgd :: "field list"
  o_bss_proc_pgd :: "field list"
  o_bss :: "field list"
  o_common :: "field list"

text \<open>What the script defines: symbols, the objects in BSS, and where the loaded sections are linked and loaded.\<close>

record image_map =
  k_text_start :: nat
  k_text_end :: nat
  k_data_start :: nat
  k_data_end :: nat
  k_bss_start :: nat
  k_bss_end :: nat
  k_fiq_stack_top :: nat
  k_irq_stack_top :: nat
  k_abt_stack_top :: nat
  k_und_stack_top :: nat
  k_svc_stack_top :: nat
  k_start_phys :: nat
  k_globals :: "(string \<times> nat) list"
  k_sections :: "(nat \<times> nat) list"

text \<open>An output section starts at a multiple of the largest alignment of its inputs.\<close>

definition sec_align :: "field list \<Rightarrow> nat" where
  "sec_align fs = foldr max (map (snd \<circ> snd) fs) 1"

text \<open>
  \<open>SECTIONS\<close>. The location counter starts at the origin of VIRT; a section with \<open>AT> PHYS\<close> is loaded
  behind the previous one, without regard to its alignment. If the region is too small the linker reports an error.
\<close>

definition link_kernel :: "platform \<Rightarrow> objects \<Rightarrow> image_map option" where
  "link_kernel pl obj =
     (let text0 = align_up (sec_align (o_text_start obj @ o_vectors obj @ o_text obj @ o_rodata obj)) (virt_origin pl);
          dot = snd (layout text0 (o_text_start obj));
          dot = snd (layout (align_up 32 dot) (o_vectors obj @ o_text obj @ o_rodata obj));
          text_end = align_up 16 dot;
          user0 = align_up (sec_align (o_user_binaries obj)) text_end;
          dot = snd (layout (align_up 4 user0) (o_user_binaries obj));
          user_end = align_up 4 dot;
          data0 = align_up (sec_align (o_data obj)) user_end;
          data_start = align_up 4 data0;
          data_end = align_up 4 (snd (layout data_start (o_data obj)));
          bss0 = align_up (sec_align (o_bss_pgd obj @ o_bss_proc_pgd obj @ o_bss obj @ o_common obj)) data_end;
          bss_start = align_up 8 bss0;
          (pgd, dot) = layout (align_up 16384 bss_start) (o_bss_pgd obj);
          (rest, dot) = layout (align_up 16384 dot) (o_bss_proc_pgd obj @ o_bss obj @ o_common obj);
          bss_end = align_up 8 dot;
          stack = align_up 8 bss_end;
          text_lma = phys_origin pl;
          user_lma = text_lma + (text_end - text0);
          data_lma = user_lma + (user_end - user0)
      in if stack + 0x2E00 \<le> virt_origin pl + region_length pl \<and>
            data_lma + (data_end - data0) \<le> phys_origin pl + region_length pl
         then Some \<lparr>k_text_start = text0, k_text_end = text_end, k_data_start = data_start, k_data_end = data_end,
           k_bss_start = bss_start, k_bss_end = bss_end,
           k_fiq_stack_top = stack + 0x200, k_irq_stack_top = stack + 0x200 + 0x400,
           k_abt_stack_top = stack + 0x200 + 0x400 + 0x400, k_und_stack_top = stack + 0x200 + 0x400 + 0x400 + 0x400,
           k_svc_stack_top = stack + 0x200 + 0x400 + 0x400 + 0x400 + 0x2000,
           k_start_phys = text_lma, k_globals = pgd @ rest,
           k_sections = [(text0, text_lma), (user0, user_lma), (data0, data_lma)]\<rparr>
         else None)"

text \<open>The address of an object in BSS.\<close>

definition k_addr :: "image_map \<Rightarrow> string \<Rightarrow> nat" where
  "k_addr km f = (case map_of (k_globals km) f of Some a \<Rightarrow> a | None \<Rightarrow> 0)"

section \<open>user\_binaries.S\<close>

text \<open>Every image starts at a multiple of 16 (\<open>.align 4\<close>); the labels are offsets into the section.\<close>

fun incbin :: "nat \<Rightarrow> u8 list list \<Rightarrow> u8 list" where
  "incbin n [] = []"
| "incbin n (img # imgs) =
     (let off = align_up 16 n in replicate (off - n) 0 @ img @ incbin (off + length img) imgs)"


definition user_binaries :: "u8 list list \<Rightarrow> field list" where
  "user_binaries imgs = [(''.user_binaries'', length (incbin 0 imgs), 16)]"


section \<open>user.ld\<close>



section \<open>The location counter\<close>

lemma align_up_ge: "0 < al \<Longrightarrow> n \<le> align_up al n"
proof -
  assume "0 < al"
  then have "n + al - 1 < (n + al - 1) div al * al + al" using dividend_less_div_times [of al "n + al - 1"] by simp
  then show ?thesis by (simp add: align_up_def)
qed

lemma align_up_dvd: "al dvd align_up al n"
  by (simp add: align_up_def)

lemma align_up_id [simp]: "al dvd n \<Longrightarrow> 0 < al \<Longrightarrow> align_up al n = n"
proof -
  assume "al dvd n" "0 < al"
  then obtain j where "n = j * al" by (metis dvd_div_mult_self)
  then have "n + al - 1 = (al - 1) + j * al" using \<open>0 < al\<close> by simp
  moreover have "((al - 1) + j * al) div al = j" using \<open>0 < al\<close> by (subst div_mult_self1) simp_all
  ultimately show ?thesis using \<open>n = j * al\<close> by (simp only: align_up_def)
qed

definition field_ok :: "field \<Rightarrow> bool" where
  "field_ok fd \<longleftrightarrow> snd (snd fd) dvd 16384"

lemma field_align_pos: "field_ok (f, sz, al) \<Longrightarrow> 0 < al"
  by (cases al) (auto simp: field_ok_def)

lemma sec_align_dvd: "\<forall>fd \<in> set fs. field_ok fd \<Longrightarrow> sec_align fs dvd 16384 \<and> 0 < sec_align fs"
  by (induction fs) (auto simp: sec_align_def field_ok_def max_def)

lemma layout_le: "\<forall>fd \<in> set fs. field_ok fd \<Longrightarrow> n \<le> snd (layout n fs)"
proof (induction n fs rule: layout.induct)
  case (2 n f sz al fs)
  then have "n \<le> align_up al n" by (intro align_up_ge) (auto dest: field_align_pos)
  then show ?case using 2 by (auto simp: Let_def case_prod_unfold)
qed simp

text \<open>Every input section is placed aligned, between the two values of the location counter.\<close>

lemma layout_field:
  assumes "\<forall>fd \<in> set fs. field_ok fd" "distinct (map fst fs)" "(f, sz, al) \<in> set fs"
  obtains off where "map_of (fst (layout n fs)) f = Some off" "al dvd off" "n \<le> off" "off + sz \<le> snd (layout n fs)"
  using assms
proof (induction n fs arbitrary: thesis rule: layout.induct)
  case (2 n g sz' al' fs)
  let ?off = "align_up al' n"
  have pos: "n \<le> ?off" using 2(3) by (intro align_up_ge) (auto dest: field_align_pos)
  have le: "?off + sz' \<le> snd (layout (?off + sz') fs)" using 2(3) by (intro layout_le) simp
  show ?case
  proof (cases "f = g")
    case True
    then have "sz = sz'" "al = al'" using 2(4,5) by force+
    then show ?thesis using 2(2) [of ?off] True pos le align_up_dvd [of al' n] by (auto simp: Let_def case_prod_unfold)
  next
    case False
    then have "(f, sz, al) \<in> set fs" using 2(5) by simp
    then obtain off where "map_of (fst (layout (?off + sz') fs)) f = Some off" "al dvd off" "?off + sz' \<le> off"
      "off + sz \<le> snd (layout (?off + sz') fs)"
      using 2(1) [OF refl, of thesis] 2(3,4) by auto
    then show ?thesis using 2(2) [of off] False pos by (auto simp: Let_def case_prod_unfold)
  qed
qed simp

text \<open>Two of them never overlap.\<close>

lemma layout_disjoint:
  assumes "\<forall>fd \<in> set fs. field_ok fd" "distinct (map fst fs)" "(f, sf, af) \<in> set fs" "(g, sg, ag) \<in> set fs" "f \<noteq> g"
    "map_of (fst (layout n fs)) f = Some a" "map_of (fst (layout n fs)) g = Some b"
  shows "a + sf \<le> b \<or> b + sg \<le> a"
  using assms
proof (induction n fs arbitrary: a b rule: layout.induct)
  case (2 n h sz al fs)
  let ?off = "align_up al n"
  have tl: "off' \<ge> ?off + sz" if "(x, sx, ax) \<in> set fs" "map_of (fst (layout (?off + sz) fs)) x = Some off'" for x sx ax off'
    using layout_field [OF _ _ that(1), of "?off + sz"] that(2) 2(2,3) by fastforce
  consider "f = h" "(g, sg, ag) \<in> set fs" | "g = h" "(f, sf, af) \<in> set fs" | "f \<noteq> h" "g \<noteq> h" using 2(4-6) by auto
  then show ?case
  proof cases
    case 1
    then have "sf = sz" using 2(3,4) by force
    then show ?thesis using 1 2(6-8) tl by (auto simp: Let_def case_prod_unfold)
  next
    case 2
    then have "sg = sz" using \<open>(g, sg, ag) \<in> set ((h, sz, al) # fs)\<close> \<open>distinct (map fst ((h, sz, al) # fs))\<close> by force
    then show ?thesis using 2 \<open>f \<noteq> g\<close> \<open>map_of (fst (layout n ((h, sz, al) # fs))) f = Some a\<close>
        \<open>map_of (fst (layout n ((h, sz, al) # fs))) g = Some b\<close> tl by (auto simp: Let_def case_prod_unfold)
  next
    case 3
    then show ?thesis using 2(1) [OF refl, of a b] 2(2-8) by (auto simp: Let_def case_prod_unfold)
  qed
qed simp

section \<open>The map of the kernel\<close>

text \<open>
  What the sources fix of the object files: alignments are powers of two up to 16 KB, the tables and arrays have the sizes of
  their declarations in \<open>pgtable.c\<close> and \<open>process.c\<close> and at least the alignment declared there (the first object
  of an input section has the alignment of the section).
\<close>

definition objects_ok :: "objects \<Rightarrow> u8 list list \<Rightarrow> bool" where
  "objects_ok obj imgs \<longleftrightarrow>
     (\<forall>fd \<in> set (o_text_start obj @ o_vectors obj @ o_text obj @ o_rodata obj @ o_data obj @ o_bss obj @ o_common obj). field_ok fd) \<and>
     o_user_binaries obj = user_binaries imgs \<and>
     o_bss_pgd obj = [(''boot_pgd'', 4 * PGD_ENTRIES, 16384)] \<and>
     o_bss_proc_pgd obj = [(''proc_pgd'', 3 * (4 * PGD_ENTRIES), 16384)] \<and>
     (\<exists>(f, sz, al) \<in> set (o_bss obj @ o_common obj). f = ''proc_kstack'' \<and> sz = 3 * 8192 \<and> 8 dvd al) \<and>
     (\<exists>(f, sz, al) \<in> set (o_bss obj @ o_common obj). f = ''processes'' \<and> sz = 3 * struct_size (process_fields 4) \<and> 4 dvd al) \<and>
     distinct (map fst (o_bss_pgd obj @ o_bss_proc_pgd obj @ o_bss obj @ o_common obj))"

text \<open>The ends of the sections, and where \<open>.data\<close> and \<open>.bss\<close> begin.\<close>

definition text_top :: "platform \<Rightarrow> objects \<Rightarrow> nat" where
  "text_top pl obj = align_up 16 (snd (layout (align_up 32 (snd (layout (virt_origin pl) (o_text_start obj))))
     (o_vectors obj @ o_text obj @ o_rodata obj)))"

definition user_top :: "platform \<Rightarrow> objects \<Rightarrow> nat" where
  "user_top pl obj = align_up 4 (snd (layout (text_top pl obj) (o_user_binaries obj)))"

definition data_base :: "platform \<Rightarrow> objects \<Rightarrow> nat" where
  "data_base pl obj = align_up (sec_align (o_data obj)) (user_top pl obj)"

definition data_top :: "platform \<Rightarrow> objects \<Rightarrow> nat" where
  "data_top pl obj = align_up 4 (snd (layout (align_up 4 (data_base pl obj)) (o_data obj)))"

definition bss_base :: "platform \<Rightarrow> objects \<Rightarrow> nat" where
  "bss_base pl obj = align_up (sec_align (o_bss_pgd obj @ o_bss_proc_pgd obj @ o_bss obj @ o_common obj)) (data_top pl obj)"

definition bss_globals :: "nat \<Rightarrow> objects \<Rightarrow> (string \<times> nat) list \<times> nat" where
  "bss_globals n obj =
     (let (pgd, dot) = layout (align_up 16384 n) (o_bss_pgd obj);
          (rest, dot) = layout (align_up 16384 dot) (o_bss_proc_pgd obj @ o_bss obj @ o_common obj)
      in (pgd @ rest, dot))"

lemma objects_okD:
  assumes "objects_ok obj imgs"
  shows "\<forall>fd \<in> set (o_text_start obj @ o_vectors obj @ o_text obj @ o_rodata obj). field_ok fd"
    "\<forall>fd \<in> set (o_user_binaries obj). field_ok fd" "\<forall>fd \<in> set (o_data obj). field_ok fd"
    "\<forall>fd \<in> set (o_bss_pgd obj @ o_bss_proc_pgd obj @ o_bss obj @ o_common obj). field_ok fd"
  using assms by (auto simp: objects_ok_def user_binaries_def field_ok_def)

lemma align_layout_le:
  assumes "\<forall>fd \<in> set fs. field_ok fd" "0 < al"
  shows "n \<le> align_up al (snd (layout n fs))"
  using layout_le [OF assms(1)] align_up_ge [OF assms(2)] by (rule order_trans)

text \<open>The loaded sections come first, in their order.\<close>

lemma tops_order:
  assumes "objects_ok obj imgs"
  shows "virt_origin pl \<le> text_top pl obj" "text_top pl obj \<le> user_top pl obj" "user_top pl obj \<le> data_base pl obj"
    "data_base pl obj \<le> data_top pl obj" "data_top pl obj \<le> bss_base pl obj" "16 dvd text_top pl obj"
proof -
  note ok = objects_okD [OF assms]
  let ?d = "align_up 32 (snd (layout (virt_origin pl) (o_text_start obj)))"
  have "virt_origin pl \<le> ?d" using ok(1) by (intro align_layout_le) auto
  also have "?d \<le> text_top pl obj" unfolding text_top_def using ok(1) by (intro align_layout_le) auto
  finally show "virt_origin pl \<le> text_top pl obj" .
  show "text_top pl obj \<le> user_top pl obj" unfolding user_top_def by (rule align_layout_le [OF ok(2)]) simp
  show "user_top pl obj \<le> data_base pl obj" unfolding data_base_def using sec_align_dvd [OF ok(3)] by (intro align_up_ge) simp
  have "data_base pl obj \<le> align_up 4 (data_base pl obj)" by (rule align_up_ge) simp
  also have "\<dots> \<le> data_top pl obj" unfolding data_top_def by (rule align_layout_le [OF ok(3)]) simp
  finally show "data_base pl obj \<le> data_top pl obj" .
  show "data_top pl obj \<le> bss_base pl obj" unfolding bss_base_def using sec_align_dvd [OF ok(4)] by (intro align_up_ge) simp
  show "16 dvd text_top pl obj" by (simp add: text_top_def align_up_dvd)
qed

text \<open>The map in closed form: \<open>.text\<close> and \<open>.user_binaries\<close> need no padding in front.\<close>

lemma link_kernel_eq:
  assumes "objects_ok obj imgs" "link_kernel pl obj = Some km"
    and st: "st = align_up 8 (snd (bss_globals (align_up 8 (bss_base pl obj)) obj))"
  shows "st + 0x2E00 \<le> virt_origin pl + region_length pl"
    "km = \<lparr>k_text_start = virt_origin pl, k_text_end = text_top pl obj, k_data_start = align_up 4 (data_base pl obj),
      k_data_end = data_top pl obj, k_bss_start = align_up 8 (bss_base pl obj), k_bss_end = st,
      k_fiq_stack_top = st + 0x200, k_irq_stack_top = st + 0x200 + 0x400,
      k_abt_stack_top = st + 0x200 + 0x400 + 0x400, k_und_stack_top = st + 0x200 + 0x400 + 0x400 + 0x400,
      k_svc_stack_top = st + 0x200 + 0x400 + 0x400 + 0x400 + 0x2000,
      k_start_phys = phys_origin pl, k_globals = fst (bss_globals (align_up 8 (bss_base pl obj)) obj),
      k_sections = [(virt_origin pl, phys_origin pl), (text_top pl obj, phys_origin pl + (text_top pl obj - virt_origin pl)),
        (data_base pl obj, phys_origin pl + (text_top pl obj - virt_origin pl) + (user_top pl obj - text_top pl obj))]\<rparr>" (is "km = ?km")
proof -
  have "16384 dvd virt_origin pl" by (cases pl) simp_all
  then have t0: "align_up (sec_align (o_text_start obj @ o_vectors obj @ o_text obj @ o_rodata obj)) (virt_origin pl) = virt_origin pl"
    using sec_align_dvd [OF objects_okD(1) [OF assms(1)]] by (meson align_up_id dvd_trans)
  have u0: "align_up (sec_align (o_user_binaries obj)) (text_top pl obj) = text_top pl obj" "align_up 4 (text_top pl obj) = text_top pl obj"
    using tops_order(6) [OF assms(1), of pl] assms(1)
    by (auto simp: objects_ok_def user_binaries_def sec_align_def intro: align_up_id dvd_trans [of 4 16])
  have al8: "align_up 8 (align_up 8 n) = align_up 8 n" for n by (simp add: align_up_dvd)
  note folds = text_top_def [symmetric] u0 user_top_def [symmetric] data_base_def [symmetric] data_top_def [symmetric] bss_base_def [symmetric] al8
  have g: "fst (layout (align_up 16384 n) (o_bss_pgd obj)) @
      fst (layout (align_up 16384 (snd (layout (align_up 16384 n) (o_bss_pgd obj)))) (o_bss_proc_pgd obj @ o_bss obj @ o_common obj)) =
      fst (bss_globals n obj)"
    "snd (layout (align_up 16384 (snd (layout (align_up 16384 n) (o_bss_pgd obj)))) (o_bss_proc_pgd obj @ o_bss obj @ o_common obj)) =
      snd (bss_globals n obj)" for n
    by (simp_all add: bss_globals_def Let_def case_prod_unfold)
  show "st + 0x2E00 \<le> virt_origin pl + region_length pl"
    using assms(2) unfolding link_kernel_def Let_def t0 folds case_prod_unfold g st [symmetric]
    by (simp only: option.distinct split: if_split_asm)
  show "km = ?km"
    using assms(2) unfolding link_kernel_def Let_def t0 folds case_prod_unfold g st [symmetric]
    by (simp only: option.inject option.distinct split: if_split_asm)
qed

lemma link_shape:
  assumes "objects_ok obj imgs" "link_kernel pl obj = Some km"
  obtains d where "virt_origin pl \<le> k_text_end km" "k_text_end km \<le> d" "k_bss_start km = align_up 8 d"
    "k_text_start km = virt_origin pl" "k_start_phys km = phys_origin pl"
    "k_globals km = fst (bss_globals (k_bss_start km) obj)" "k_bss_end km = align_up 8 (snd (bss_globals (k_bss_start km) obj))"
    "k_fiq_stack_top km = k_bss_end km + 0x200" "k_irq_stack_top km = k_fiq_stack_top km + 0x400"
    "k_abt_stack_top km = k_irq_stack_top km + 0x400" "k_und_stack_top km = k_abt_stack_top km + 0x400"
    "k_svc_stack_top km = k_und_stack_top km + 0x2000" "k_svc_stack_top km \<le> virt_origin pl + region_length pl"
    "\<forall>fd \<in> set (o_data obj). snd (snd fd) dvd 4 \<Longrightarrow>
       \<forall>(vma, lma) \<in> set (k_sections km). virt_origin pl \<le> vma \<and> vma - virt_origin pl = lma - phys_origin pl \<and> phys_origin pl \<le> lma"
proof -
  note t = tops_order [OF assms(1), of pl] and km = link_kernel_eq(2) [OF assms refl]
  have "user_top pl obj = data_base pl obj" if "\<forall>fd \<in> set (o_data obj). snd (snd fd) dvd 4"
  proof -
    have "sec_align fs dvd 4" if "\<forall>fd \<in> set fs. snd (snd fd) dvd 4" for fs :: "field list"
      using that by (induction fs) (auto simp: sec_align_def max_def)
    then have "sec_align (o_data obj) dvd user_top pl obj" using that align_up_dvd [of 4] unfolding user_top_def by (meson dvd_trans)
    then show ?thesis unfolding data_base_def using sec_align_dvd [OF objects_okD(3) [OF assms(1)]] by simp
  qed
  then have lma: "\<forall>(vma, lma) \<in> set (k_sections km). virt_origin pl \<le> vma \<and> vma - virt_origin pl = lma - phys_origin pl \<and> phys_origin pl \<le> lma"
    if "\<forall>fd \<in> set (o_data obj). snd (snd fd) dvd 4"
    using that t(1,2) by (auto simp: km)
  have "k_svc_stack_top km \<le> virt_origin pl + region_length pl" using link_kernel_eq(1) [OF assms refl] by (simp add: km)
  moreover have "virt_origin pl \<le> k_text_end km" "k_text_end km \<le> bss_base pl obj" using t by (simp_all add: km)
  ultimately show ?thesis using lma by (intro that [of "bss_base pl obj"]) (simp_all add: km)
qed

text \<open>The tables at the front of BSS, the other objects behind them, then the stacks.\<close>

lemma link_order:
  assumes ok: "objects_ok obj imgs" and link: "link_kernel pl obj = Some km"
  obtains P where "16384 dvd P" "k_bss_start km \<le> P" "8 dvd k_bss_start km" "8 dvd k_bss_end km" "k_text_end km \<le> k_bss_start km"
    "k_addr km ''boot_pgd'' = P" "k_addr km ''proc_pgd'' = P + 16384"
    "4 dvd k_addr km ''processes''" "P + 65536 \<le> k_addr km ''processes''" "k_addr km ''processes'' + 336 \<le> k_bss_end km"
    "8 dvd k_addr km ''proc_kstack''" "P + 65536 \<le> k_addr km ''proc_kstack''" "k_addr km ''proc_kstack'' + 24576 \<le> k_bss_end km"
    "k_addr km ''processes'' + 336 \<le> k_addr km ''proc_kstack'' \<or> k_addr km ''proc_kstack'' + 24576 \<le> k_addr km ''processes''"
proof -
  obtain d where d: "k_text_end km \<le> d" "k_bss_start km = align_up 8 d"
    and g: "k_globals km = fst (bss_globals (k_bss_start km) obj)" and e: "k_bss_end km = align_up 8 (snd (bss_globals (k_bss_start km) obj))"
    by (rule link_shape [OF ok link]) blast
  define P where "P = align_up 16384 (k_bss_start km)"
  let ?B = "o_bss obj @ o_common obj"
  let ?L = "layout (P + 65536) ?B"
  have P: "16384 dvd P" "k_bss_start km \<le> P" unfolding P_def by (auto simp: align_up_dvd intro: align_up_ge)
  have P': "align_up 16384 P = P" "align_up 16384 (P + 16384) = P + 16384" using P by simp_all
  have sum: "P + 16384 + 49152 = P + 65536" by simp
  have f: "o_bss_pgd obj = [(''boot_pgd'', 16384, 16384)]" "o_bss_proc_pgd obj = [(''proc_pgd'', 49152, 16384)]"
    using ok by (simp_all add: objects_ok_def PGD_ENTRIES_def)
  have fok: "\<forall>fd \<in> set ?B. field_ok fd" "distinct (map fst ?B)"
    using ok unfolding objects_ok_def map_append set_append distinct_append by blast+
  have gl: "k_globals km = (''boot_pgd'', P) # (''proc_pgd'', P + 16384) # fst ?L" and en: "k_bss_end km = align_up 8 (snd ?L)"
    unfolding g e bss_globals_def P_def [symmetric] f by (simp_all only: append_Cons append_Nil layout.simps Let_def prod.case fst_conv snd_conv P' sum case_prod_unfold)
  have be: "snd ?L \<le> k_bss_end km" unfolding en by (rule align_up_ge) simp
  have at: "k_addr km x = a" if "map_of (fst ?L) x = Some a" "x \<noteq> ''boot_pgd''" "x \<noteq> ''proc_pgd''" for x a
    using that by (simp add: k_addr_def gl)
  obtain ap where ap: "(''processes'', 336, ap) \<in> set ?B" "4 dvd ap" using ok by (auto simp: objects_ok_def process_size)
  obtain ak where ak: "(''proc_kstack'', 24576, ak) \<in> set ?B" "8 dvd ak" using ok by (auto simp: objects_ok_def)
  obtain p where p: "map_of (fst ?L) ''processes'' = Some p" "ap dvd p" "P + 65536 \<le> p" "p + 336 \<le> snd ?L"
    using layout_field [OF fok(1,2) ap(1)] by blast
  obtain q where q: "map_of (fst ?L) ''proc_kstack'' = Some q" "ak dvd q" "P + 65536 \<le> q" "q + 24576 \<le> snd ?L"
    using layout_field [OF fok(1,2) ak(1)] by blast
  have pq: "p + 336 \<le> q \<or> q + 24576 \<le> p" by (rule layout_disjoint [OF fok(1,2) ap(1) ak(1) _ p(1) q(1)]) simp
  have a: "k_addr km ''processes'' = p" "k_addr km ''proc_kstack'' = q" "k_addr km ''boot_pgd'' = P" "k_addr km ''proc_pgd'' = P + 16384"
    using at [OF p(1)] at [OF q(1)] by (simp_all add: k_addr_def gl)
  have "k_text_end km \<le> k_bss_start km" unfolding d(2) using d(1) align_up_ge [of 8 d] by simp
  moreover have "8 dvd k_bss_start km" "8 dvd k_bss_end km" by (simp_all add: d(2) en align_up_dvd)
  moreover have "4 dvd p" "8 dvd q" using p(2) q(2) ap(2) ak(2) dvd_trans by blast+
  ultimately show ?thesis using P p(3,4) q(3,4) be pq by (intro that [of P]) (simp_all add: a)
qed

section \<open>What the kernel is built with\<close>










lemma virt_bounds: "0xC0000000 \<le> virt_origin pl" "virt_origin pl + region_length pl \<le> 0xE0000000"
  by (cases pl; simp)+

lemma virt_phys: "virt_origin pl = phys_origin pl + unat (PHYS_OFFSET (board_of pl))"
  by (cases pl) (simp_all add: board_defs)

text \<open>Every address of the map lies in the high alias, without wrap-around.\<close>

lemma link_bounds:
  assumes "objects_ok obj imgs" "link_kernel pl obj = Some km"
  shows "0xC0000000 \<le> k_text_start km" "k_text_start km \<le> k_text_end km" "k_text_end km \<le> k_bss_start km"
    "k_bss_start km \<le> k_bss_end km" "k_svc_stack_top km = k_bss_end km + 0x2E00" "k_svc_stack_top km \<le> virt_origin pl + region_length pl"
    "k_svc_stack_top km \<le> 0xE0000000" "k_text_start km = virt_origin pl"
proof -
  show a: "k_text_start km = virt_origin pl" "k_text_start km \<le> k_text_end km" "k_svc_stack_top km = k_bss_end km + 0x2E00"
      "k_svc_stack_top km \<le> virt_origin pl + region_length pl"
    by (rule link_shape [OF assms], simp)+
  show "k_text_end km \<le> k_bss_start km" "k_bss_start km \<le> k_bss_end km" by (rule link_order [OF assms], simp)+
  show "0xC0000000 \<le> k_text_start km" "k_svc_stack_top km \<le> 0xE0000000" using a virt_bounds [of pl] by simp_all
qed









section \<open>A small build\<close>

definition demo_objects :: objects where
  "demo_objects = \<lparr>o_text_start = [(''start.o'', 200, 4)], o_vectors = [(''vectors.o'', 64, 32)], o_text = [(''main.o'', 0x8002, 4)],
     o_rodata = [(''main.o'', 0x1001, 4)], o_user_binaries = user_binaries [[1, 2, 3], [4, 5], [6]], o_data = [(''uart_core.o'', 20, 4)],
     o_bss_pgd = [(''boot_pgd'', 16384, 16384)], o_bss_proc_pgd = [(''proc_pgd'', 49152, 16384)],
     o_bss = [(''tick_count'', 4, 4), (''proc_kstack'', 24576, 8), (''processes'', 336, 4)], o_common = []\<rparr>"

definition demo_map :: image_map where
  "demo_map = \<lparr>k_text_start = 0xC0100000, k_text_end = 0xC0109130, k_data_start = 0xC0109154, k_data_end = 0xC0109168,
     k_bss_start = 0xC010C000, k_bss_end = 0xC0122158, k_fiq_stack_top = 0xC0122358, k_irq_stack_top = 0xC0122758,
     k_abt_stack_top = 0xC0122B58, k_und_stack_top = 0xC0122F58, k_svc_stack_top = 0xC0124F58, k_start_phys = 0x70100000,
     k_globals = [(''boot_pgd'', 0xC010C000), (''proc_pgd'', 0xC0110000), (''tick_count'', 0xC011C000),
       (''proc_kstack'', 0xC011C008), (''processes'', 0xC0122008)],
     k_sections = [(0xC0100000, 0x70100000), (0xC0109130, 0x70109130), (0xC0109154, 0x70109154)]\<rparr>"

lemma field_ok_simps [simp]: "field_ok (f, sz, 4)" "field_ok (f, sz, 8)" "field_ok (f, sz, 32)"
  by (simp_all add: field_ok_def)

lemma demo_objects_ok: "objects_ok demo_objects [[1, 2, 3], [4, 5], [6]]"
  unfolding objects_ok_def
proof (intro conjI)
  show "\<exists>(f, sz, al) \<in> set (o_bss demo_objects @ o_common demo_objects). f = ''proc_kstack'' \<and> sz = 3 * 8192 \<and> 8 dvd al"
    by (rule bexI [of _ "(''proc_kstack'', 24576, 8)"]) (simp_all add: demo_objects_def)
  show "\<exists>(f, sz, al) \<in> set (o_bss demo_objects @ o_common demo_objects).
      f = ''processes'' \<and> sz = 3 * struct_size (process_fields 4) \<and> 4 dvd al"
    unfolding process_size by (rule bexI [of _ "(''processes'', 336, 4)"]) (simp_all add: demo_objects_def)
qed (simp_all add: demo_objects_def PGD_ENTRIES_def)

lemma demo_binaries: "user_binaries [[1, 2, 3], [4, 5], [6]] = [(''.user_binaries'', 33, 16)]"
  by (simp add: user_binaries_def align_up_def)

text \<open>Evaluation of a chain of \<open>let\<close>, one binding at a time.\<close>

lemma Let_step: "a = b \<Longrightarrow> f b = c \<Longrightarrow> Let a f = c" "a = b \<Longrightarrow> map_option g (h b) = d \<Longrightarrow> map_option g (Let a h) = d"
  by simp_all

lemma Let_step_pair:
  "a = (x, y) \<Longrightarrow> f x y = c \<Longrightarrow> Let a (case_prod f) = c"
  "a = (x, y) \<Longrightarrow> map_option g (h x y) = d \<Longrightarrow> map_option g (Let a (case_prod h)) = d"
  by simp_all

lemmas Let_steps = Let_step_pair Let_step

lemma demo_links: "link_kernel Qemu demo_objects = Some demo_map"
  unfolding link_kernel_def demo_objects_def objects.simps demo_binaries append_Nil2 append_Cons append_Nil
  by ((rule Let_steps, simp add: sec_align_def align_up_def del: align_up_id)+, simp add: demo_map_def)

text \<open>The same kernel with more read-only data, and with a datum that is aligned to 8 bytes.\<close>

definition large_objects :: objects where
  "large_objects = demo_objects\<lparr>o_rodata := [(''main.o'', 0x140001, 4)]\<rparr>"

definition aligned_objects :: objects where
  "aligned_objects = demo_objects\<lparr>o_data := [(''uart_core.o'', 24, 8)]\<rparr>"

lemma objects_ok_rodata:
  assumes "objects_ok obj imgs" "\<forall>fd \<in> set fs. field_ok fd"
  shows "objects_ok (obj\<lparr>o_rodata := fs\<rparr>) imgs"
  using assms by (cases obj) (simp only: objects_ok_def objects.simps set_append ball_Un simp_thms, auto)

lemma objects_ok_data:
  assumes "objects_ok obj imgs" "\<forall>fd \<in> set fs. field_ok fd"
  shows "objects_ok (obj\<lparr>o_data := fs\<rparr>) imgs"
  using assms by (cases obj) (simp only: objects_ok_def objects.simps set_append ball_Un simp_thms, auto)

lemma large_objects_ok: "objects_ok large_objects [[1, 2, 3], [4, 5], [6]]"
  unfolding large_objects_def by (rule objects_ok_rodata [OF demo_objects_ok]) simp

lemma aligned_objects_ok: "objects_ok aligned_objects [[1, 2, 3], [4, 5], [6]]"
  unfolding aligned_objects_def by (rule objects_ok_data [OF demo_objects_ok]) simp

lemma large_links:
  "map_option (\<lambda>km. (k_bss_end km - k_text_start km, k_bss_end km - 0x50000000)) (link_kernel Qemu large_objects) =
     Some (1450328, 0x70262158)"
  unfolding link_kernel_def large_objects_def demo_objects_def objects.simps demo_binaries append_Nil2 append_Cons append_Nil
  by ((rule Let_steps, simp add: sec_align_def align_up_def del: align_up_id)+, simp)

lemma aligned_links:
  "map_option k_sections (link_kernel Qemu aligned_objects) =
     Some [(0xC0100000, 0x70100000), (0xC0109130, 0x70109130), (0xC0109158, 0x70109154)]"
  unfolding link_kernel_def aligned_objects_def demo_objects_def objects.simps demo_binaries append_Nil2 append_Cons append_Nil
  by ((rule Let_steps, simp add: sec_align_def align_up_def del: align_up_id)+, simp)



section \<open>Properties of a build\<close>



text \<open>C35: Where the image lies in RAM. The entry point is the physical address of \<open>_start\<close>; the loaded sections are at
  the distance \<open>PHYS_OFFSET\<close> from their link addresses, provided that nothing in \<open>.data\<close> needs more than 4-byte alignment;
  image and stacks end inside RAM, and they stay clear of the 1 MB slots of the processes exactly if the
  last stack ends by 0xC0200000, which leaves 1 MB for the kernel on QEMU and 2 MB on the BeagleBone.\<close>

theorem image_in_ram:
  assumes "objects_ok obj imgs" "link_kernel pl obj = Some km" "off = unat (PHYS_OFFSET (board_of pl))"
  shows "k_start_phys km + off = k_text_start km \<and>
    ((\<forall>fd \<in> set (o_data obj). snd (snd fd) dvd 4) \<longrightarrow> (\<forall>(vma, lma) \<in> set (k_sections km). lma + off = vma)) \<and>
    k_svc_stack_top km - off \<le> unat (RAM_BASE (board_of pl)) + unat (RAM_SIZE (board_of pl)) \<and>
    ((\<forall>i < 3. k_svc_stack_top km - off \<le> unat (user_slot pl i)) \<longleftrightarrow> k_svc_stack_top km \<le> 0xC0200000)"
proof -
  have v: "virt_origin pl = phys_origin pl + off" unfolding assms(3) by (rule virt_phys)
  have p: "k_start_phys km = phys_origin pl" and
    sec: "\<forall>fd \<in> set (o_data obj). snd (snd fd) dvd 4 \<Longrightarrow>
      \<forall>(vma, lma) \<in> set (k_sections km). virt_origin pl \<le> vma \<and> vma - virt_origin pl = lma - phys_origin pl \<and> phys_origin pl \<le> lma"
    by (rule link_shape [OF assms(1,2)]; blast)+
  note b = link_bounds [OF assms(1,2)]
  have "(\<forall>i < 3. k_svc_stack_top km - off \<le> unat (user_slot pl i)) \<longleftrightarrow> k_svc_stack_top km - off \<le> unat (RAM_BASE (board_of pl)) + 2097152"
    by (auto simp: unat_user_slot dest: spec [of _ 0])
  moreover have "\<forall>(vma, lma) \<in> set (k_sections km). lma + off = vma" if "\<forall>fd \<in> set (o_data obj). snd (snd fd) dvd 4"
    using sec [OF that] v by fastforce
  ultimately show ?thesis using b v p by (cases pl) (simp_all add: assms(3) board_defs, linarith+)
qed

theorem image_in_ram_witness:
  "k_start_phys demo_map + 0x50000000 = k_text_start demo_map \<and> k_svc_stack_top demo_map - 0x50000000 \<le> unat (user_slot Qemu 0)"
  using image_in_ram [OF demo_objects_ok demo_links refl] by (simp add: demo_map_def board_defs)




text \<open>What the scripts do not check. A kernel of 1.4 MB, the size that \<open>docs/memory-architecture.md\<close> names, links
  for QEMU although its BSS and stacks then lie in the slot of process 0; and since \<open>.user_binaries\<close> ends at a multiple of
  4 only, a datum with 8-byte alignment is linked 4 bytes away from where it is loaded.\<close>

lemma script_gaps:
  "objects_ok large_objects [[1, 2, 3], [4, 5], [6]] \<and> objects_ok aligned_objects [[1, 2, 3], [4, 5], [6]] \<and>
   map_option (\<lambda>km. (k_bss_end km - k_text_start km, k_bss_end km - 0x50000000)) (link_kernel Qemu large_objects) =
     Some (1450328, unat (user_slot Qemu 0) + 0x62158) \<and>
   map_option k_sections (link_kernel Qemu aligned_objects) =
     Some [(0xC0100000, 0x70100000), (0xC0109130, 0x70109130), (0xC0109158, 0x70109154)]"
  by (simp add: large_objects_ok aligned_objects_ok large_links aligned_links unat_user_slot board_defs)

end
